(* ===== verification/Prelude.thy ===== *)
theory Prelude
  imports Main "HOL-Library.Word"
begin

text \<open>
  Shared vocabulary of the development: the machine types, the outcome of a Rust
  computation, checked arithmetic at 64 bits, slice access with its panics, and the
  conversions between byte strings and machine words.

  Bytes and values on which the source works bitwise are words (\<open>u8\<close>, \<open>u16\<close>, \<open>u32\<close>,
  \<open>u64\<close>). Lengths, indices and offsets (\<open>usize\<close> and the \<open>u64\<close> byte positions) are natural
  numbers; every place where the source checks for overflow is written with the checked
  operations below, whose bound is \<open>2 ^ 64\<close>. A \<open>usize\<close> has 64 bits.
\<close>

unbundle bit_operations_syntax

named_theorems outcome_simps \<open>evaluation of outcomes and of the operations on them\<close>

type_synonym u8 = "8 word"
type_synonym u16 = "16 word"
type_synonym u32 = "32 word"
type_synonym u64 = "64 word"
type_synonym bytes = "8 word list"


section \<open>Outcomes\<close>

text \<open>
  A Rust computation returns \<open>Ok\<close> or \<open>Err\<close>, panics (an index out of range, a failed
  \<open>expect\<close>, an arithmetic underflow), or runs for ever.
\<close>

datatype ('a, 'e) outcome = Ok 'a | Err 'e | Panic | Diverge

fun and_then :: "('a, 'e) outcome \<Rightarrow> ('a \<Rightarrow> ('b, 'e) outcome) \<Rightarrow> ('b, 'e) outcome" where
  "and_then (Ok a) f = f a"
| "and_then (Err e) f = Err e"
| "and_then Panic f = Panic"
| "and_then Diverge f = Diverge"

fun map_err :: "('e \<Rightarrow> 'f) \<Rightarrow> ('a, 'e) outcome \<Rightarrow> ('a, 'f) outcome" where
  "map_err g (Ok a) = Ok a"
| "map_err g (Err e) = Err (g e)"
| "map_err g Panic = Panic"
| "map_err g Diverge = Diverge"

fun or_else :: "('a, 'e) outcome \<Rightarrow> ('e \<Rightarrow> ('a, 'f) outcome) \<Rightarrow> ('a, 'f) outcome" where
  "or_else (Ok a) f = Ok a"
| "or_else (Err e) f = f e"
| "or_else Panic f = Panic"
| "or_else Diverge f = Diverge"

fun ok_or :: "'e \<Rightarrow> 'a option \<Rightarrow> ('a, 'e) outcome" where
  "ok_or e None = Err e"
| "ok_or e (Some a) = Ok a"

definition returns :: "('a, 'e) outcome \<Rightarrow> bool" where
  "returns r \<longleftrightarrow> r \<noteq> Panic \<and> r \<noteq> Diverge"

lemma returns_simps [simp]:
  "returns (Ok a)" "returns (Err e)" "\<not> returns Panic" "\<not> returns Diverge"
  by (simp_all add: returns_def)

lemma and_then_assoc: "and_then (and_then m f) g = and_then m (\<lambda>a. and_then (f a) g)"
  by (cases m) simp_all

lemma and_then_eq_Ok_iff:
  "and_then m f = Ok b \<longleftrightarrow> (\<exists>a. m = Ok a \<and> f a = Ok b)"
  by (cases m) simp_all

lemma and_then_eq_Err_iff:
  "and_then m f = Err e \<longleftrightarrow> m = Err e \<or> (\<exists>a. m = Ok a \<and> f a = Err e)"
  by (cases m) simp_all

lemma ok_or_eq_Ok_iff [simp]: "ok_or e m = Ok a \<longleftrightarrow> m = Some a"
  by (cases m) simp_all

lemma ok_or_eq_Err_iff [simp]: "ok_or e m = Err e' \<longleftrightarrow> m = None \<and> e' = e"
  by (cases m) auto

lemma ok_or_neq [simp]: "ok_or e m \<noteq> Panic" "ok_or e m \<noteq> Diverge"
  by (cases m; simp)+

lemma returns_ok_or [simp]: "returns (ok_or e m)"
  by (simp add: returns_def)

lemma returns_and_then: "returns m \<Longrightarrow> (\<And>a. m = Ok a \<Longrightarrow> returns (f a)) \<Longrightarrow> returns (and_then m f)"
  by (cases m) simp_all

lemma returns_map_err [simp]: "returns (map_err g m) = returns m"
  by (cases m) simp_all

lemma map_err_eq_Ok_iff [simp]: "map_err g m = Ok a \<longleftrightarrow> m = Ok a"
  by (cases m) simp_all

text \<open>
  \<open>answers m P\<close>: the computation returns, with an error or with a value that satisfies \<open>P\<close>. Its
  rules follow the structure of a computation.
\<close>

definition answers :: "('a, 'e) outcome \<Rightarrow> ('a \<Rightarrow> bool) \<Rightarrow> bool" where
  "answers m P \<longleftrightarrow> (\<exists>e. m = Err e) \<or> (\<exists>a. m = Ok a \<and> P a)"

lemma answers_simps [simp]:
  "answers (Ok a) P = P a" "answers (Err e) P" "\<not> answers Panic P" "\<not> answers Diverge P"
  by (simp_all add: answers_def)

lemma answers_and_then:
  "answers m Q \<Longrightarrow> (\<And>a. m = Ok a \<Longrightarrow> Q a \<Longrightarrow> answers (f a) P) \<Longrightarrow> answers (and_then m f) P"
  by (cases m) simp_all

lemma answers_mono: "answers m Q \<Longrightarrow> (\<And>a. m = Ok a \<Longrightarrow> Q a \<Longrightarrow> P a) \<Longrightarrow> answers m P"
  by (cases m) simp_all

lemma answers_ok_or: "(\<And>a. m = Some a \<Longrightarrow> P a) \<Longrightarrow> answers (ok_or e m) P"
  by (cases m) simp_all

lemma answers_map_err [simp]: "answers (map_err g m) P = answers m P"
  by (cases m) simp_all

lemma answers_returns: "answers m P \<Longrightarrow> returns m"
  by (cases m) simp_all

lemma answers_OkD: "answers m P \<Longrightarrow> m = Ok a \<Longrightarrow> P a"
  by simp


section \<open>Outcomes with state\<close>

text \<open>
  An operation on \<open>&mut self\<close> returns its outcome and the state it leaves behind, also when
  it fails: the state after an error is part of the behaviour.
\<close>

type_synonym ('s, 'a, 'e) op = "'s \<Rightarrow> ('a, 'e) outcome \<times> 's"

fun and_do :: "('a, 'e) outcome \<times> 's \<Rightarrow> ('a \<Rightarrow> 's \<Rightarrow> ('b, 'e) outcome \<times> 's) \<Rightarrow> ('b, 'e) outcome \<times> 's" where
  "and_do (Ok a, s) f = f a s"
| "and_do (Err e, s) f = (Err e, s)"
| "and_do (Panic, s) f = (Panic, s)"
| "and_do (Diverge, s) f = (Diverge, s)"

lemma and_do_assoc: "and_do (and_do m f) g = and_do m (\<lambda>a s. and_do (f a s) g)"
  by (cases m; cases "fst m") auto

lemma and_do_eq_Ok_iff:
  "and_do m f = (Ok b, s') \<longleftrightarrow> (\<exists>a s. m = (Ok a, s) \<and> f a s = (Ok b, s'))"
  by (cases m; cases "fst m") auto

text \<open>A loop whose body ends in a call of itself terminates by what its steps before have returned.\<close>

lemma returns_and_do:
  "returns (fst m) \<Longrightarrow> (\<And>a s. m = (Ok a, s) \<Longrightarrow> returns (fst (f a s))) \<Longrightarrow> returns (fst (and_do m f))"
  by (cases m; cases "fst m") auto

lemma apsnd_eq_iff: "apsnd f x = (a, b) \<longleftrightarrow> fst x = a \<and> f (snd x) = b"
  by (cases x) simp

lemma and_do_cong:
  "m = m' \<Longrightarrow> (\<And>a s. m' = (Ok a, s) \<Longrightarrow> f a s = g a s) \<Longrightarrow> and_do m f = and_do m' g"
  by (cases m'; cases "fst m'") auto

text \<open>
  With these congruence rules the simplifier evaluates a computation from its first step on and
  leaves the continuation alone until then.
\<close>

lemma and_then_weak_cong: "m = m' \<Longrightarrow> and_then m f = and_then m' f"
  by simp

lemma and_do_weak_cong: "m = m' \<Longrightarrow> and_do m f = and_do m' f"
  by simp


text \<open>
  \<open>yields I op r\<close>: from every state that satisfies \<open>I\<close> the operation has the outcome \<open>r\<close>, and the
  state it leaves satisfies \<open>I\<close> again. With a pure computation for \<open>r\<close> this is a functional
  refinement: what the operation answers depends on \<open>I\<close> only, not on the caches and positions in
  the state. The rules follow the structure of the operation.
\<close>

definition yields :: "('s \<Rightarrow> bool) \<Rightarrow> ('s, 'a, 'e) op \<Rightarrow> ('a, 'e) outcome \<Rightarrow> bool" where
  "yields I f r \<longleftrightarrow> (\<forall>s. I s \<longrightarrow> (\<exists>s'. f s = (r, s') \<and> I s'))"

named_theorems yields_intros \<open>introduction rules for yields\<close>

lemma yieldsI: "(\<And>s. I s \<Longrightarrow> \<exists>s'. f s = (r, s') \<and> I s') \<Longrightarrow> yields I f r"
  by (simp add: yields_def)

lemma yieldsD: "yields I f r \<Longrightarrow> I s \<Longrightarrow> \<exists>s'. f s = (r, s') \<and> I s'"
  by (simp add: yields_def)

lemma yields_get [yields_intros]: "(\<And>s. I s \<Longrightarrow> h s = r) \<Longrightarrow> yields I (\<lambda>s. (h s, s)) r"
  by (simp add: yields_def)

lemma yields_Pair [simp]: "yields I (Pair r) r"
  by (simp add: yields_def)

lemma yields_and_do [yields_intros]:
  assumes "yields I f m" and "\<And>a. m = Ok a \<Longrightarrow> yields I (g a) (h a)"
  shows "yields I (\<lambda>s. and_do (f s) g) (and_then m h)"
proof (rule yieldsI)
  fix s
  assume "I s"
  then obtain s' where "f s = (m, s')" "I s'" using yieldsD [OF assms(1)] by blast
  then show "\<exists>s'. and_do (f s) g = (and_then m h, s') \<and> I s'"
    using yieldsD [OF assms(2)] by (cases m) auto
qed

lemma yields_if [yields_intros]:
  "(b \<Longrightarrow> yields I f m) \<Longrightarrow> (\<not> b \<Longrightarrow> yields I g n) \<Longrightarrow>
    yields I (\<lambda>s. if b then f s else g s) (if b then m else n)"
  by simp

lemma yields_option [yields_intros]:
  assumes "x = None \<Longrightarrow> yields I f m" and "\<And>a. x = Some a \<Longrightarrow> yields I (g a) (h a)"
  shows "yields I (\<lambda>s. case x of None \<Rightarrow> f s | Some a \<Rightarrow> g a s) (case x of None \<Rightarrow> m | Some a \<Rightarrow> h a)"
  using assms by (cases x) simp_all

lemma yields_cong: "(\<And>s. I s \<Longrightarrow> f s = g s) \<Longrightarrow> yields I g r \<Longrightarrow> yields I f r"
  by (simp add: yields_def)

text \<open>
  \<open>settles I f P\<close>: the outcome of the operation is the same from every state that satisfies \<open>I\<close>, it
  is an error or a value that satisfies \<open>P\<close>, and \<open>I\<close> is kept.
\<close>

definition settles :: "('s \<Rightarrow> bool) \<Rightarrow> ('s, 'a, 'e) op \<Rightarrow> ('a \<Rightarrow> bool) \<Rightarrow> bool" where
  "settles I f P \<longleftrightarrow> (\<exists>r. yields I f r \<and> answers r P)"

named_theorems settles_intros \<open>introduction rules for settles\<close>

lemma settlesI: "yields I f r \<Longrightarrow> answers r P \<Longrightarrow> settles I f P"
  by (auto simp: settles_def)

lemma settles_pure [settles_intros]: "answers r P \<Longrightarrow> settles I (\<lambda>s. (r, s)) P"
  by (rule settlesI [OF yields_get]) simp_all

lemma settles_ok_or [settles_intros]:
  assumes "\<And>a. m = Some a \<Longrightarrow> settles I (g a) P"
  shows "settles I (\<lambda>s. and_do (ok_or e m, s) g) P"
  using assms by (cases m) (simp_all add: settles_pure)

lemma settles_get:
  "(\<And>s. I s \<Longrightarrow> h s = r) \<Longrightarrow> answers r P \<Longrightarrow> settles I (\<lambda>s. (h s, s)) P"
  by (rule settlesI [OF yields_get])

lemma settles_and_do [settles_intros]:
  assumes "settles I f Q" and "\<And>a. Q a \<Longrightarrow> settles I (g a) P"
  shows "settles I (\<lambda>s. and_do (f s) g) P"
proof -
  obtain m where m: "yields I f m" "answers m Q" using assms(1) by (auto simp: settles_def)
  show ?thesis
  proof (cases m)
    case (Ok a)
    then obtain r where r: "yields I (g a) r" "answers r P" using assms(2) m by (auto simp: settles_def)
    then have "yields I (\<lambda>s. and_do (f s) g) (and_then m (\<lambda>_. r))"
      using m(1) Ok by (intro yields_and_do) simp_all
    with Ok r(2) show ?thesis by (auto simp: settles_def)
  next
    case (Err e)
    have "yields I (\<lambda>s. and_do (f s) g) (and_then m (\<lambda>_. Err e))"
      using m(1) Err by (intro yields_and_do) simp_all
    with Err show ?thesis by (auto simp: settles_def)
  qed (use m in simp_all)
qed

lemma settles_if [settles_intros]:
  "(b \<Longrightarrow> settles I f P) \<Longrightarrow> (\<not> b \<Longrightarrow> settles I g P) \<Longrightarrow> settles I (\<lambda>s. if b then f s else g s) P"
  by (cases b) simp_all

lemma settles_option [settles_intros]:
  "(x = None \<Longrightarrow> settles I f P) \<Longrightarrow> (\<And>a. x = Some a \<Longrightarrow> settles I (g a) P) \<Longrightarrow>
    settles I (\<lambda>s. case x of None \<Rightarrow> f s | Some a \<Rightarrow> g a s) P"
  by (cases x) simp_all

lemma settles_prod [settles_intros]:
  "(\<And>a b. x = (a, b) \<Longrightarrow> settles I (g a b) P) \<Longrightarrow> settles I (\<lambda>s. case x of (a, b) \<Rightarrow> g a b s) P"
  by (cases x) simp_all

lemma settles_mono: "settles I f Q \<Longrightarrow> (\<And>a. Q a \<Longrightarrow> P a) \<Longrightarrow> settles I f P"
  unfolding settles_def using answers_mono [where Q = Q and P = P] by blast

lemma settles_cong:
  assumes "\<And>s. I s \<Longrightarrow> f s = g s" and "settles I g P"
  shows "settles I f P"
proof -
  obtain r where r: "yields I g r" "answers r P" using assms(2) by (auto simp: settles_def)
  have "yields I f r" using assms(1) r(1) by (rule yields_cong)
  then show ?thesis using r(2) by (rule settlesI)
qed

lemma settlesE:
  assumes "settles I f P" and "I s"
  obtains r s' where "f s = (r, s')" and "answers r P" and "I s'" and "yields I f r"
proof -
  obtain r where r: "yields I f r" "answers r P" using assms(1) by (auto simp: settles_def)
  then obtain s' where "f s = (r, s')" "I s'" using assms(2) by (auto simp: yields_def)
  with r that show thesis by blast
qed

lemma settles_yields:
  assumes "settles I f P" and "I s" and "f s = (r, s')"
  shows "yields I f r" and "I s'"
  using assms by (auto elim: settlesE)

lemma yields_answers:
  assumes "yields I f m" and "settles I f P" and "I s"
  shows "answers m P"
proof -
  obtain s' where "f s = (m, s')" using yieldsD [OF assms(1,3)] by blast
  moreover obtain r s'' where "f s = (r, s'')" "answers r P" by (rule settlesE [OF assms(2,3)])
  ultimately show ?thesis by simp
qed

text \<open>Taking a successful operation apart.\<close>

lemma yields_and_do_Ok:
  assumes "yields I (\<lambda>s. and_do (f s) g) (Ok b)" and "I s"
    and "settles I f Q" and "\<And>a. Q a \<Longrightarrow> settles I (g a) P"
  obtains a where "Q a" and "yields I f (Ok a)" and "yields I (g a) (Ok b)"
proof -
  obtain m where m: "yields I f m" "answers m Q" using assms(3) by (auto simp: settles_def)
  obtain s' where s': "f s = (m, s')" "I s'" using yieldsD [OF m(1) assms(2)] by blast
  obtain s'' where s'': "and_do (f s) g = (Ok b, s'')" using yieldsD [OF assms(1,2)] by blast
  obtain a where a: "m = Ok a" using s' s'' by (cases m) simp_all
  then have "g a s' = (Ok b, s'')" "Q a" using s' s'' m(2) by simp_all
  then have "yields I (g a) (Ok b)" using settles_yields(1) [OF assms(4) s'(2)] by simp
  with that \<open>Q a\<close> m(1) a show thesis by blast
qed

lemma yields_map_Ok:
  assumes "yields I (\<lambda>s. and_do (f s) (\<lambda>a s. (Ok (h a), s))) (Ok b)" and "I s" and "settles I f Q"
  obtains a where "Q a" and "yields I f (Ok a)" and "b = h a"
proof -
  obtain m where m: "yields I f m" "answers m Q" using assms(3) by (auto simp: settles_def)
  obtain s' where s': "f s = (m, s')" "I s'" using yieldsD [OF m(1) assms(2)] by blast
  obtain s'' where s'': "and_do (f s) (\<lambda>a s. (Ok (h a), s)) = (Ok b, s'')"
    using yieldsD [OF assms(1,2)] by blast
  show thesis
  proof (cases m)
    case (Ok a)
    then have "b = h a" using s' s'' by simp
    with that m Ok show thesis by simp
  qed (use s' s'' in simp_all)
qed

text \<open>
  \<open>ensures I P m\<close>: the operation has returned, with an error or a value that satisfies \<open>P\<close>, and in
  both cases in a state that satisfies \<open>I\<close>.
\<close>

definition ensures :: "('s \<Rightarrow> bool) \<Rightarrow> ('a \<Rightarrow> bool) \<Rightarrow> ('a, 'e) outcome \<times> 's \<Rightarrow> bool" where
  "ensures I P m \<longleftrightarrow> answers (fst m) P \<and> I (snd m)"

lemma ensures_simps [simp]: "ensures I P (r, s) \<longleftrightarrow> answers r P \<and> I s"
  by (simp add: ensures_def)

lemma ensures_and_do:
  "ensures I Q m \<Longrightarrow> (\<And>a s. m = (Ok a, s) \<Longrightarrow> Q a \<Longrightarrow> I s \<Longrightarrow> ensures I P (f a s)) \<Longrightarrow> ensures I P (and_do m f)"
  by (cases m; cases "fst m") auto

lemma ensures_mono:
  "ensures I Q m \<Longrightarrow> (\<And>a. Q a \<Longrightarrow> P a) \<Longrightarrow> (\<And>s. I s \<Longrightarrow> J s) \<Longrightarrow> ensures J P m"
  by (cases m; cases "fst m") auto

lemma ensuresE:
  assumes "ensures I P m"
  obtains r s where "m = (r, s)" and "answers r P" and "I s"
  using assms by (cases m) auto

text \<open>The outcomes of a computation on the elements of a list, up to the first error.\<close>

primrec collect :: "('a \<Rightarrow> ('b, 'e) outcome) \<Rightarrow> 'a list \<Rightarrow> ('b list, 'e) outcome" where
  "collect f [] = Ok []"
| "collect f (x # xs) = and_then (f x) (\<lambda>y. and_then (collect f xs) (\<lambda>ys. Ok (y # ys)))"

lemma and_then_Ok [simp]: "and_then m Ok = m"
  by (cases m) simp_all

lemma collect_append:
  "collect f (xs @ ys) = and_then (collect f xs) (\<lambda>us. and_then (collect f ys) (\<lambda>vs. Ok (us @ vs)))"
  by (induction xs) (simp_all add: and_then_assoc)

lemma collect_Ok: "collect (\<lambda>x. Ok (f x)) xs = Ok (map f xs)"
  by (induction xs) simp_all

lemma collect_cong: "(\<And>x. x \<in> set xs \<Longrightarrow> f x = g x) \<Longrightarrow> collect f xs = collect g xs"
  by (induction xs) simp_all

lemma collect_eq_Ok_iff:
  "collect f xs = Ok ys \<longleftrightarrow> length ys = length xs \<and> (\<forall>i < length xs. f (xs ! i) = Ok (ys ! i))"
proof (induction xs arbitrary: ys)
  case (Cons x xs)
  show ?case
  proof (cases ys)
    case y: (Cons y ys')
    then show ?thesis
      using Cons by (auto simp: and_then_eq_Ok_iff less_Suc_eq_0_disj)
  qed (auto simp: and_then_eq_Ok_iff)
qed auto

lemma answers_collect:
  "(\<And>x. x \<in> set xs \<Longrightarrow> answers (f x) P) \<Longrightarrow>
    answers (collect f xs) (\<lambda>ys. length ys = length xs \<and> list_all P ys)"
proof (induction xs)
  case (Cons x xs)
  then have "answers (f x) P" "answers (collect f xs) (\<lambda>ys. length ys = length xs \<and> list_all P ys)"
    by simp_all
  then show ?case by (cases "f x"; cases "collect f xs") simp_all
qed simp


section \<open>Checked arithmetic at 64 bits\<close>

definition checked_add64 :: "nat \<Rightarrow> nat \<Rightarrow> nat option" where
  "checked_add64 a b = (if a + b < 2 ^ 64 then Some (a + b) else None)"

definition checked_sub :: "nat \<Rightarrow> nat \<Rightarrow> nat option" where
  "checked_sub a b = (if b \<le> a then Some (a - b) else None)"

definition checked_mul64 :: "nat \<Rightarrow> nat \<Rightarrow> nat option" where
  "checked_mul64 a b = (if a * b < 2 ^ 64 then Some (a * b) else None)"

definition saturating_add64 :: "nat \<Rightarrow> nat \<Rightarrow> nat" where
  "saturating_add64 a b = min (a + b) (2 ^ 64 - 1)"

definition saturating_mul64 :: "nat \<Rightarrow> nat \<Rightarrow> nat" where
  "saturating_mul64 a b = min (a * b) (2 ^ 64 - 1)"

text \<open>\<open>u64::checked_add_signed\<close>; the offset is an \<open>i64\<close>.\<close>

definition checked_add_signed64 :: "nat \<Rightarrow> int \<Rightarrow> nat option" where
  "checked_add_signed64 a d =
     (if 0 \<le> int a + d \<and> int a + d < 2 ^ 64 then Some (nat (int a + d)) else None)"

definition is_i64 :: "int \<Rightarrow> bool" where
  "is_i64 d \<longleftrightarrow> - (2 ^ 63) \<le> d \<and> d < 2 ^ 63"

lemma checked_add64_Some [simp]: "checked_add64 a b = Some c \<longleftrightarrow> c = a + b \<and> a + b < 2 ^ 64"
  by (auto simp: checked_add64_def)

lemma checked_mul64_Some [simp]: "checked_mul64 a b = Some c \<longleftrightarrow> c = a * b \<and> a * b < 2 ^ 64"
  by (auto simp: checked_mul64_def)

lemma checked_sub_Some [simp]: "checked_sub a b = Some c \<longleftrightarrow> b \<le> a \<and> c = a - b"
  by (auto simp: checked_sub_def)

lemma checked_add64_small: "a + b < 2 ^ 64 \<Longrightarrow> checked_add64 a b = Some (a + b)"
  by simp

lemma checked_mul64_small: "a * b < 2 ^ 64 \<Longrightarrow> checked_mul64 a b = Some (a * b)"
  by simp


section \<open>Arithmetic at 32 bits\<close>

definition checked_add32 :: "nat \<Rightarrow> nat \<Rightarrow> nat option" where
  "checked_add32 a b = (if a + b < 2 ^ 32 then Some (a + b) else None)"

definition checked_mul32 :: "nat \<Rightarrow> nat \<Rightarrow> nat option" where
  "checked_mul32 a b = (if a * b < 2 ^ 32 then Some (a * b) else None)"

definition saturating_add32 :: "nat \<Rightarrow> nat \<Rightarrow> nat" where
  "saturating_add32 a b = min (a + b) (2 ^ 32 - 1)"

text \<open>The unchecked operators panic when they overflow.\<close>

definition add32 :: "nat \<Rightarrow> nat \<Rightarrow> (nat, 'e) outcome" where
  "add32 a b = (if a + b < 2 ^ 32 then Ok (a + b) else Panic)"

definition mul32 :: "nat \<Rightarrow> nat \<Rightarrow> (nat, 'e) outcome" where
  "mul32 a b = (if a * b < 2 ^ 32 then Ok (a * b) else Panic)"

definition sub_or_panic :: "nat \<Rightarrow> nat \<Rightarrow> (nat, 'e) outcome" where
  "sub_or_panic a b = (if b \<le> a then Ok (a - b) else Panic)"

definition add64 :: "nat \<Rightarrow> nat \<Rightarrow> (nat, 'e) outcome" where
  "add64 a b = (if a + b < 2 ^ 64 then Ok (a + b) else Panic)"

definition mul64 :: "nat \<Rightarrow> nat \<Rightarrow> (nat, 'e) outcome" where
  "mul64 a b = (if a * b < 2 ^ 64 then Ok (a * b) else Panic)"

definition div_ceil :: "nat \<Rightarrow> nat \<Rightarrow> nat" where
  "div_ceil a b = a div b + (if a mod b = 0 then 0 else 1)"

definition is_power_of_two :: "nat \<Rightarrow> bool" where
  "is_power_of_two n \<longleftrightarrow> n \<in> set (map (\<lambda>k. 2 ^ k) [0 ..< 64])"

lemma checked_add32_Some [simp]: "checked_add32 a b = Some c \<longleftrightarrow> c = a + b \<and> a + b < 2 ^ 32"
  by (auto simp: checked_add32_def)

lemma checked_mul32_Some [simp]: "checked_mul32 a b = Some c \<longleftrightarrow> c = a * b \<and> a * b < 2 ^ 32"
  by (auto simp: checked_mul32_def)

lemma checked_mul32_cases: "checked_mul32 a b = (if a * b < 2 ^ 32 then Some (a * b) else None)"
  by (simp add: checked_mul32_def)

lemma arith_small [simp]:
  "a + b < 2 ^ 32 \<Longrightarrow> add32 a b = Ok (a + b)" "a * b < 2 ^ 32 \<Longrightarrow> mul32 a b = Ok (a * b)"
  "b \<le> a \<Longrightarrow> sub_or_panic a b = Ok (a - b)"
  "a + b < 2 ^ 64 \<Longrightarrow> add64 a b = Ok (a + b)" "a * b < 2 ^ 64 \<Longrightarrow> mul64 a b = Ok (a * b)"
  by (simp_all add: add32_def mul32_def sub_or_panic_def add64_def mul64_def)

lemma div_ceil_le:
  assumes "0 < b"
  shows "a \<le> div_ceil a b * b" and "div_ceil a b * b < a + b"
proof -
  have m: "a div b * b + a mod b = a" "a mod b < b" using assms by simp_all
  have d: "div_ceil a b * b = a div b * b + (if a mod b = 0 then 0 else b)"
    by (simp add: div_ceil_def add_mult_distrib)
  have "a \<le> div_ceil a b * b \<and> div_ceil a b * b < a + b"
  proof (cases "a mod b = 0")
    case False
    then have "div_ceil a b * b = a div b * b + b" "0 < a mod b" using d by simp_all
    with m show ?thesis by linarith
  qed (use m d assms in simp)
  then show "a \<le> div_ceil a b * b" "div_ceil a b * b < a + b" by simp_all
qed


section \<open>Slices\<close>

text \<open>\<open>xs[i]\<close> and \<open>&xs[a..b]\<close> of the source: they panic out of range.\<close>

definition index_at :: "'a list \<Rightarrow> nat \<Rightarrow> ('a, 'e) outcome" where
  "index_at xs i = (if i < length xs then Ok (xs ! i) else Panic)"

definition slice :: "'a list \<Rightarrow> nat \<Rightarrow> nat \<Rightarrow> 'a list" where
  "slice xs a n = take n (drop a xs)"

definition subslice :: "'a list \<Rightarrow> nat \<Rightarrow> nat \<Rightarrow> ('a list, 'e) outcome" where
  "subslice xs a b = (if a \<le> b \<and> b \<le> length xs then Ok (slice xs a (b - a)) else Panic)"

lemma length_slice [simp]: "length (slice xs a n) = min n (length xs - a)"
  by (simp add: slice_def)

lemma length_slice_fits: "a + n \<le> length xs \<Longrightarrow> length (slice xs a n) = n"
  by (simp add: slice_def)

lemma slice_0 [simp]: "slice xs a 0 = []"
  by (simp add: slice_def)

lemma slice_beyond [simp]: "length xs \<le> a \<Longrightarrow> slice xs a n = []"
  by (simp add: slice_def)

lemma nth_slice [simp]: "i < n \<Longrightarrow> a + i < length xs \<Longrightarrow> slice xs a n ! i = xs ! (a + i)"
  by (simp add: slice_def)

lemma slice_append_slice: "slice xs a m @ slice xs (a + m) n = slice xs a (m + n)"
  by (simp add: slice_def take_add add.commute)

lemma slice_slice: "j + n \<le> m \<Longrightarrow> slice (slice xs a m) j n = slice xs (a + j) n"
  by (simp add: slice_def take_drop min_def add.commute)

lemma slice_window:
  "slice (slice xs b z) p n = slice xs (b + p) (min n (z - p))"
  by (simp add: slice_def drop_take add.commute)

lemma slice_min_length: "slice xs a (min n (length xs - a)) = slice xs a n"
  by (simp add: slice_def min_def)

lemma take_slice [simp]: "take k (slice xs a n) = slice xs a (min k n)"
  by (simp add: slice_def)

lemma drop_slice: "drop k (slice xs a n) = slice xs (a + k) (n - k)"
  by (simp add: slice_def drop_take add.commute)

lemma slice_all [simp]: "slice xs 0 (length xs) = xs"
  by (simp add: slice_def)

text \<open>A range inside one block of a sequence of blocks.\<close>

lemma length_concat_blocks: "list_all (\<lambda>x. length (f x) = n) xs \<Longrightarrow> length (concat (map f xs)) = length xs * n"
  by (induction xs) simp_all

lemma slice_append_right: "length xs \<le> a \<Longrightarrow> slice (xs @ ys) a n = slice ys (a - length xs) n"
  by (simp add: slice_def)

lemma slice_append_left: "a + n \<le> length xs \<Longrightarrow> slice (xs @ ys) a n = slice xs a n"
  by (simp add: slice_def)

lemma slice_concat_block:
  "list_all (\<lambda>x. length (f x) = b) xs \<Longrightarrow> t < length xs \<Longrightarrow> p + k \<le> b \<Longrightarrow>
    slice (concat (map f xs)) (t * b + p) k = slice (f (xs ! t)) p k"
proof (induction xs arbitrary: t)
  case (Cons x xs)
  show ?case
  proof (cases t)
    case 0
    with Cons.prems show ?thesis by (simp add: slice_append_left)
  next
    case (Suc u)
    have "slice (f x @ concat (map f xs)) (Suc u * b + p) k = slice (concat (map f xs)) (u * b + p) k"
      using Cons.prems by (subst slice_append_right) (simp_all add: add.assoc)
    with Suc Cons show ?thesis by simp
  qed
qed simp

lemma collect_map: "collect f (map g xs) = collect (\<lambda>x. f (g x)) xs"
  by (induction xs) simp_all

text \<open>Reading bytes one by one, up to the end of a string.\<close>

lemma collect_slice:
  "collect (\<lambda>i. if i < length c then Ok (c ! i) else Err e) [a ..< a + n]
    = (if n = 0 \<or> a + n \<le> length c then Ok (slice c a n) else Err e)"
proof (induction n)
  case (Suc n)
  have "slice c a (Suc n) = slice c a n @ [c ! (a + n)]" if "a + n < length c"
    using that by (simp add: slice_def take_Suc_conv_app_nth)
  with Suc show ?case by (auto simp: collect_append)
qed simp

lemma upt_shift: "[a ..< a + n] = map ((+) a) [0 ..< n]"
  by (induction n) simp_all


section \<open>Bytes and words\<close>

primrec le_nat :: "bytes \<Rightarrow> nat" where
  "le_nat [] = 0"
| "le_nat (b # bs) = unat b + 256 * le_nat bs"

primrec nat_le :: "nat \<Rightarrow> nat \<Rightarrow> bytes" where
  "nat_le 0 v = []"
| "nat_le (Suc n) v = word_of_nat (v mod 256) # nat_le n (v div 256)"

definition from_le_bytes :: "bytes \<Rightarrow> 'w::len word" where
  "from_le_bytes bs = word_of_nat (le_nat bs)"

definition from_be_bytes :: "bytes \<Rightarrow> 'w::len word" where
  "from_be_bytes bs = word_of_nat (le_nat (rev bs))"

definition u16_to_le_bytes :: "u16 \<Rightarrow> bytes" where
  "u16_to_le_bytes w = nat_le 2 (unat w)"

definition u32_to_le_bytes :: "u32 \<Rightarrow> bytes" where
  "u32_to_le_bytes w = nat_le 4 (unat w)"

lemma unat_less_power: "unat (w :: 'w::len word) < 2 ^ LENGTH('w)"
  by (rule unsigned_less)

lemma length_nat_le [simp]: "length (nat_le n v) = n"
  by (induction n arbitrary: v) simp_all

lemma unat_lt_256: "unat (b :: u8) < 256"
  using unat_less_power [of b] by simp

lemma le_nat_zeros [simp]: "le_nat (replicate n 0) = 0"
  by (induction n) simp_all

lemma le_nat_bound: "le_nat bs < 256 ^ length bs"
proof (induction bs)
  case (Cons b bs)
  then have "Suc (le_nat bs) \<le> 256 ^ length bs" by simp
  then have "256 * Suc (le_nat bs) \<le> 256 * 256 ^ length bs" by (rule mult_le_mono2)
  then show ?case using unat_lt_256 [of b] by simp
qed simp

lemma le_nat_nat_le: "v < 256 ^ n \<Longrightarrow> le_nat (nat_le n v) = v"
proof (induction n arbitrary: v)
  case (Suc n)
  then have "v div 256 < 256 ^ n" by (simp add: less_mult_imp_div_less mult.commute)
  then show ?case using Suc.IH by (simp add: unat_of_nat)
qed simp

lemma nat_le_le_nat: "nat_le (length bs) (le_nat bs) = bs"
proof (induction bs)
  case (Cons b bs)
  have "(unat b + 256 * le_nat bs) mod 256 = unat b" using unat_lt_256 [of b] by simp
  moreover have "(unat b + 256 * le_nat bs) div 256 = le_nat bs" using unat_lt_256 [of b] by simp
  ultimately show ?case using Cons by simp
qed simp

lemma u16_le_roundtrip [simp]: "from_le_bytes (u16_to_le_bytes w) = w"
  using unat_less_power [of w] by (simp add: from_le_bytes_def u16_to_le_bytes_def le_nat_nat_le)

lemma u32_le_roundtrip [simp]: "from_le_bytes (u32_to_le_bytes w) = w"
  using unat_less_power [of w] by (simp add: from_le_bytes_def u32_to_le_bytes_def le_nat_nat_le)

lemma length_u16_to_le_bytes [simp]: "length (u16_to_le_bytes w) = 2"
  by (simp add: u16_to_le_bytes_def)

lemma length_u32_to_le_bytes [simp]: "length (u32_to_le_bytes w) = 4"
  by (simp add: u32_to_le_bytes_def)

lemma u32_le_bytes_roundtrip:
  assumes "length bs = 4"
  shows "u32_to_le_bytes (from_le_bytes bs) = bs"
proof -
  have "le_nat bs < 2 ^ 32" using le_nat_bound [of bs] assms by simp
  then have "unat (word_of_nat (le_nat bs) :: u32) = le_nat bs" by (simp add: unat_of_nat)
  then show ?thesis
    using nat_le_le_nat [of bs] assms by (simp add: u32_to_le_bytes_def from_le_bytes_def)
qed


section \<open>Little-endian fields\<close>

definition le_field :: "bytes \<Rightarrow> nat \<Rightarrow> nat \<Rightarrow> nat" where
  "le_field bs off n = le_nat (slice bs off n)"

text \<open>A field read by indexing, which panics outside the buffer.\<close>

definition le_at :: "bytes \<Rightarrow> nat \<Rightarrow> nat \<Rightarrow> (nat, 'e) outcome" where
  "le_at bs off n = (if off + n \<le> length bs then Ok (le_field bs off n) else Panic)"

lemma le_nat_less: "length bs \<le> n \<Longrightarrow> le_nat bs < 256 ^ n"
  using le_nat_bound [of bs] power_increasing [of "length bs" n "256 :: nat"] by linarith

lemma le_field_bound: "le_field bs off n < 256 ^ n"
  unfolding le_field_def by (rule le_nat_less) simp

lemmas le_field_bounds =
  le_field_bound [where n = 1, simplified] le_field_bound [where n = 2, simplified]
  le_field_bound [where n = 4, simplified]

text \<open>The bytes of an ASCII string, \<open>b"..."\<close> of the source.\<close>

definition ascii :: "string \<Rightarrow> bytes" where
  "ascii = map (\<lambda>c. of_char c)"

end
