(* ===== verification/Byte_Source.thy ===== *)
theory Byte_Source
  imports Prelude
begin

text \<open>
  The byte-source interface every reader and parser of the program is written against: the
  \<open>Read + Seek\<close> traits. A type that implements them is a \<open>source\<close> record of its two
  operations over its state; \<open>read_exact\<close> is the traits' provided method, a loop that retries
  interrupted reads. The locale \<open>sector_source\<close> states what a raw device promises: seeking is
  exact and a read returns a prefix of what is at the position, possibly short, and nothing only
  at the end, for requests at sector boundaries. \<open>byte_reader\<close> is the contract the parsers rely
  on, without the alignment; \<open>byte_source\<close> adds that the end can be found by seeking.
  \<open>cursor\<close> is the standard library's in-memory reader.
\<close>

section \<open>Errors and operations\<close>

text \<open>\<open>leading_gap_reader.rs\<close>: the marker an absent-head failure carries.\<close>

datatype absent_head = AbsentHead (ah_gap: nat) (ah_read_offset: nat) (ah_read_length: nat)

text \<open>The \<open>io::ErrorKind\<close>s the sources name; \<open>Device\<close> is any other error of a medium.\<close>

datatype io_error = Interrupted | UnexpectedEof | InvalidInput | InvalidData | OutOfMemory
  | Device nat | Absent absent_head

datatype seek_from = Start nat | End int | Current int

record 's source =
  do_seek :: "'s \<Rightarrow> seek_from \<Rightarrow> (nat, io_error) outcome \<times> 's"
  do_read :: "'s \<Rightarrow> nat \<Rightarrow> (bytes, io_error) outcome \<times> 's"

partial_function (option) read_exact_loop ::
  "'s source \<Rightarrow> 's \<Rightarrow> nat \<Rightarrow> bytes \<Rightarrow> ((bytes, io_error) outcome \<times> 's) option" where
  "read_exact_loop src s n acc =
     (if n = 0 then Some (Ok acc, s)
      else let (r, s') = do_read src s n in
        case r of
          Ok bs \<Rightarrow>
            (if bs = [] then Some (Err UnexpectedEof, s')
             else if length bs > n then Some (Panic, s')
             else read_exact_loop src s' (n - length bs) (acc @ bs))
        | Err e \<Rightarrow> (if e = Interrupted then read_exact_loop src s' n acc else Some (Err e, s'))
        | Panic \<Rightarrow> Some (Panic, s')
        | Diverge \<Rightarrow> Some (Diverge, s'))"

definition read_exact :: "'s source \<Rightarrow> 's \<Rightarrow> nat \<Rightarrow> (bytes, io_error) outcome \<times> 's" where
  "read_exact src s n =
     (case read_exact_loop src s n [] of Some r \<Rightarrow> r | None \<Rightarrow> (Diverge, s))"

text \<open>The idiom \<open>reader.seek(SeekFrom::Start(p))?; reader.read_exact(buf)?\<close>.\<close>

definition read_exact_from :: "'s source \<Rightarrow> 's \<Rightarrow> nat \<Rightarrow> nat \<Rightarrow> (bytes, io_error) outcome \<times> 's" where
  "read_exact_from src s p n = and_do (do_seek src s (Start p)) (\<lambda>_ s. read_exact src s n)"


lemma read_exact_whole:
  assumes "do_read src s n = (Ok bs, s')" and "length bs = n" and "0 < n"
  shows "read_exact src s n = (Ok bs, s')"
proof -
  have "bs \<noteq> []" using assms by auto
  then have "read_exact_loop src s n [] = read_exact_loop src s' 0 bs"
    using assms by (subst read_exact_loop.simps) simp
  also have "\<dots> = Some (Ok bs, s')" by (subst read_exact_loop.simps) simp
  finally show ?thesis by (simp add: read_exact_def)
qed

lemma read_exact_fails:
  assumes "do_read src s n = (Err e, s')" and "e \<noteq> Interrupted" and "0 < n"
  shows "read_exact src s n = (Err e, s')"
proof -
  have "read_exact_loop src s n [] = Some (Err e, s')"
    using assms by (subst read_exact_loop.simps) simp
  then show ?thesis by (simp add: read_exact_def)
qed


section \<open>The contract of a reader\<close>

text \<open>
  \<open>sector_source\<close> promises an answer to requests that start and end at multiples of \<open>ss\<close> only,
  as a raw block device does. A reader of single bytes is the case \<open>ss = 1\<close>.
\<close>

locale sector_source =
  fixes src :: "'s source"
    and lawful :: "'s \<Rightarrow> bool"
    and pos :: "'s \<Rightarrow> nat"
    and content :: "'s \<Rightarrow> bytes"
    and ss :: nat
  assumes content_sectors: "lawful s \<Longrightarrow> 0 < ss \<and> ss dvd length (content s) \<and> length (content s) < 2 ^ 63"
    and seek_sector: "lawful s \<Longrightarrow> ss dvd p \<Longrightarrow> p < 2 ^ 63 \<Longrightarrow>
      \<exists>s'. do_seek src s (Start p) = (Ok p, s') \<and> lawful s' \<and> pos s' = p \<and> content s' = content s"
    and read_sectors: "lawful s \<Longrightarrow> ss dvd pos s \<Longrightarrow> ss dvd n \<Longrightarrow>
      \<exists>k s'. do_read src s n = (Ok (slice (content s) (pos s) k), s') \<and> lawful s' \<and> ss dvd k
        \<and> k \<le> n \<and> k \<le> length (content s) - pos s \<and> pos s' = pos s + k \<and> content s' = content s
        \<and> (k = 0 \<longrightarrow> n = 0 \<or> length (content s) \<le> pos s)"
begin

lemma read_exact_loop_ok:
  assumes "lawful s" and "ss dvd pos s" and "ss dvd n" and "n = 0 \<or> pos s + n \<le> length (content s)"
  shows "\<exists>s'. read_exact_loop src s n acc = Some (Ok (acc @ slice (content s) (pos s) n), s')
    \<and> lawful s' \<and> pos s' = pos s + n \<and> content s' = content s"
  using assms
proof (induction n arbitrary: s acc rule: less_induct)
  case (less n)
  show ?case
  proof (cases "n = 0")
    case True
    with less.prems show ?thesis by (subst read_exact_loop.simps) simp
  next
    case False
    with less.prems have fits: "pos s + n \<le> length (content s)" by simp
    from read_sectors [OF less.prems(1,2,3)] obtain k s' where
      r: "do_read src s n = (Ok (slice (content s) (pos s) k), s')" "lawful s'" "k \<le> n" "ss dvd k"
         "pos s' = pos s + k" "content s' = content s" "k \<le> length (content s) - pos s"
      and k0: "k = 0 \<longrightarrow> n = 0 \<or> length (content s) \<le> pos s"
      by blast
    have k: "0 < k" using k0 fits False by auto
    have len: "length (slice (content s) (pos s) k) = k" using r(7) by simp
    have ne: "slice (content s) (pos s) k \<noteq> []" using len k by (metis list.size(3) less_irrefl)
    have "ss dvd pos s'" "ss dvd n - k" "n - k = 0 \<or> pos s' + (n - k) \<le> length (content s')"
      using r less.prems fits by (simp_all add: dvd_diff_nat)
    moreover have "n - k < n" using k r(3) by simp
    ultimately obtain s'' where
      "read_exact_loop src s' (n - k) (acc @ slice (content s) (pos s) k)
        = Some (Ok ((acc @ slice (content s) (pos s) k) @ slice (content s') (pos s') (n - k)), s'')"
      "lawful s''" "pos s'' = pos s' + (n - k)" "content s'' = content s'"
      using less.IH r(2) by blast
    moreover have "slice (content s) (pos s) k @ slice (content s) (pos s + k) (n - k)
        = slice (content s) (pos s) n"
      using slice_append_slice [of "content s" "pos s" k "n - k"] r(3) by simp
    ultimately show ?thesis
      using False r ne len by (subst read_exact_loop.simps) (auto simp: Let_def)
  qed
qed

lemma read_exact_loop_eof:
  assumes "lawful s" and "ss dvd pos s" and "ss dvd n" and "0 < n"
    and "length (content s) < pos s + n"
  shows "\<exists>s'. read_exact_loop src s n acc = Some (Err UnexpectedEof, s')
    \<and> lawful s' \<and> content s' = content s"
  using assms
proof (induction n arbitrary: s acc rule: less_induct)
  case (less n)
  from read_sectors [OF less.prems(1,2,3)] obtain k s' where
    r: "do_read src s n = (Ok (slice (content s) (pos s) k), s')" "lawful s'" "k \<le> n" "ss dvd k"
       "pos s' = pos s + k" "content s' = content s" "k \<le> length (content s) - pos s"
    by blast
  show ?case
  proof (cases "k = 0")
    case True
    with less.prems(4) r show ?thesis by (subst read_exact_loop.simps) (simp add: Let_def)
  next
    case False
    have len: "length (slice (content s) (pos s) k) = k" using r(7) by simp
    have ne: "slice (content s) (pos s) k \<noteq> []" using len False by (metis list.size(3))
    have "ss dvd pos s'" "ss dvd n - k" "length (content s') < pos s' + (n - k)"
      using r less.prems by (simp_all add: dvd_diff_nat)
    moreover have "0 < n - k" "n - k < n" using r less.prems(4,5) False by auto
    ultimately obtain s'' where
      "read_exact_loop src s' (n - k) (acc @ slice (content s) (pos s) k)
        = Some (Err UnexpectedEof, s'')" "lawful s''" "content s'' = content s'"
      using less.IH r(2) by blast
    with r ne len less.prems(4) show ?thesis
      by (subst read_exact_loop.simps) (auto simp: Let_def)
  qed
qed

lemma sectors_from_ok:
  assumes "lawful s" and "ss dvd p" and "ss dvd n" and "p < 2 ^ 63"
    and "n = 0 \<or> p + n \<le> length (content s)"
  shows "\<exists>s'. read_exact_from src s p n = (Ok (slice (content s) p n), s')
    \<and> lawful s' \<and> pos s' = p + n \<and> content s' = content s"
proof -
  from seek_sector [OF assms(1,2,4)] obtain s1 where
    s1: "do_seek src s (Start p) = (Ok p, s1)" "lawful s1" "pos s1 = p" "content s1 = content s"
    by blast
  then have "ss dvd pos s1" "n = 0 \<or> pos s1 + n \<le> length (content s1)" using assms by simp_all
  from read_exact_loop_ok [OF s1(2) this(1) assms(3) this(2), of "[]"] s1 show ?thesis
    by (auto simp: read_exact_from_def read_exact_def)
qed

lemma sectors_from_eof:
  assumes "lawful s" and "ss dvd p" and "ss dvd n" and "p < 2 ^ 63" and "0 < n"
    and "length (content s) < p + n"
  shows "\<exists>s'. read_exact_from src s p n = (Err UnexpectedEof, s')
    \<and> lawful s' \<and> content s' = content s"
proof -
  from seek_sector [OF assms(1,2,4)] obtain s1 where
    s1: "do_seek src s (Start p) = (Ok p, s1)" "lawful s1" "pos s1 = p" "content s1 = content s"
    by blast
  then have "ss dvd pos s1" "length (content s1) < pos s1 + n" using assms by simp_all
  from read_exact_loop_eof [OF s1(2) this(1) assms(3,5) this(2), of "[]"] s1 show ?thesis
    by (auto simp: read_exact_from_def read_exact_def)
qed

end

locale byte_reader = sector_source src lawful pos content 1
  for src :: "'s source" and lawful pos content
begin

lemma content_bound: "lawful s \<Longrightarrow> length (content s) < 2 ^ 63"
  using content_sectors by blast

lemmas seek_start = seek_sector [OF _ one_dvd]
  and read_prefix = read_sectors [OF _ one_dvd one_dvd]
  and read_exact_from_ok = sectors_from_ok [OF _ one_dvd one_dvd]
  and read_exact_from_eof = sectors_from_eof [OF _ one_dvd one_dvd]

end

text \<open>A reader that can also tell where its content ends.\<close>

locale byte_source = byte_reader src lawful pos content
  for src :: "'s source" and lawful pos content +
  assumes seek_end: "lawful s \<Longrightarrow>
    \<exists>s'. do_seek src s (End 0) = (Ok (length (content s)), s') \<and> lawful s'
      \<and> pos s' = length (content s) \<and> content s' = content s"

text \<open>
  A medium that may fail any read, with any error, also \<open>Interrupted\<close>, but tells no lies: what it
  does return is its content. The readers that survive bad media are proved against this contract.
\<close>

locale faulty_source =
  fixes src :: "'s source"
    and lawful :: "'s \<Rightarrow> bool"
    and pos :: "'s \<Rightarrow> nat"
    and content :: "'s \<Rightarrow> bytes"
  assumes faulty_bound: "lawful s \<Longrightarrow> length (content s) < 2 ^ 63"
    and faulty_seek: "lawful s \<Longrightarrow> p < 2 ^ 63 \<Longrightarrow>
      \<exists>s'. do_seek src s (Start p) = (Ok p, s') \<and> lawful s' \<and> pos s' = p \<and> content s' = content s"
    and faulty_end: "lawful s \<Longrightarrow>
      \<exists>s'. do_seek src s (End 0) = (Ok (length (content s)), s') \<and> lawful s' \<and> content s' = content s"
    and faulty_read: "lawful s \<Longrightarrow>
      \<exists>r s'. do_read src s n = (r, s') \<and> lawful s' \<and> content s' = content s
        \<and> ((\<exists>e. r = Err e)
          \<or> (\<exists>k. r = Ok (slice (content s) (pos s) k) \<and> k \<le> n \<and> k \<le> length (content s) - pos s
               \<and> (k = 0 \<longrightarrow> n = 0 \<or> length (content s) \<le> pos s)))"

sublocale byte_source \<subseteq> faulty_source src lawful pos content
proof unfold_locales
  fix s n
  assume "lawful s"
  from read_prefix [OF this, of n] show "\<exists>r s'. do_read src s n = (r, s') \<and> lawful s'
      \<and> content s' = content s \<and> ((\<exists>e. r = Err e)
        \<or> (\<exists>k. r = Ok (slice (content s) (pos s) k) \<and> k \<le> n \<and> k \<le> length (content s) - pos s
             \<and> (k = 0 \<longrightarrow> n = 0 \<or> length (content s) \<le> pos s)))"
    by fastforce
qed (use content_bound seek_start seek_end in blast)+


section \<open>The standard library's cursor\<close>

record cursor =
  cur_bytes :: bytes
  cur_pos :: nat

definition cursor_seek :: "cursor \<Rightarrow> seek_from \<Rightarrow> (nat, io_error) outcome \<times> cursor" where
  "cursor_seek c w =
     (case (case w of Start p \<Rightarrow> Some p
            | End d \<Rightarrow> checked_add_signed64 (length (cur_bytes c)) d
            | Current d \<Rightarrow> checked_add_signed64 (cur_pos c) d) of
        Some p \<Rightarrow> (Ok p, c\<lparr>cur_pos := p\<rparr>)
      | None \<Rightarrow> (Err InvalidInput, c))"

definition cursor_read :: "cursor \<Rightarrow> nat \<Rightarrow> (bytes, io_error) outcome \<times> cursor" where
  "cursor_read c n =
     (let bs = slice (cur_bytes c) (cur_pos c) n
      in (Ok bs, c\<lparr>cur_pos := cur_pos c + length bs\<rparr>))"

definition cursor_source :: "cursor source" where
  "cursor_source = \<lparr>do_seek = cursor_seek, do_read = cursor_read\<rparr>"

definition cursor_inv :: "cursor \<Rightarrow> bool" where
  "cursor_inv c \<longleftrightarrow> length (cur_bytes c) < 2 ^ 63"

lemma cursor_ops [simp]: "do_seek cursor_source = cursor_seek" "do_read cursor_source = cursor_read"
  by (simp_all add: cursor_source_def)

interpretation cursor: byte_source cursor_source cursor_inv cur_pos cur_bytes
proof unfold_locales
  fix s n
  assume "cursor_inv s"
  then show "\<exists>k s'. do_read cursor_source s n = (Ok (slice (cur_bytes s) (cur_pos s) k), s')
      \<and> cursor_inv s' \<and> 1 dvd k \<and> k \<le> n \<and> k \<le> length (cur_bytes s) - cur_pos s
      \<and> cur_pos s' = cur_pos s + k \<and> cur_bytes s' = cur_bytes s
      \<and> (k = 0 \<longrightarrow> n = 0 \<or> length (cur_bytes s) \<le> cur_pos s)"
    by (intro exI [of _ "min n (length (cur_bytes s) - cur_pos s)"])
      (auto simp: cursor_read_def cursor_inv_def Let_def slice_min_length)
qed (auto simp: cursor_seek_def cursor_inv_def checked_add_signed64_def)


section \<open>Media with faults\<close>

text \<open>A medium whose bytes at one position cannot be read: such a read fails and moves nothing.\<close>

definition bad_sector :: "'s source \<Rightarrow> ('s \<Rightarrow> nat) \<Rightarrow> nat \<Rightarrow> io_error \<Rightarrow> 's source" where
  "bad_sector src pos p e =
     \<lparr>do_seek = do_seek src, do_read = (\<lambda>s n. if pos s = p then (Err e, s) else do_read src s n)\<rparr>"

text \<open>A medium whose next read is interrupted, once.\<close>

definition interrupting :: "'s source \<Rightarrow> (bool \<times> 's) source" where
  "interrupting src =
     \<lparr>do_seek = (\<lambda>(i, s) w. apsnd (Pair i) (do_seek src s w)),
      do_read = (\<lambda>(i, s) n. if i then (Err Interrupted, (False, s)) else apsnd (Pair i) (do_read src s n))\<rparr>"

lemma bad_sector_ops [simp]:
  "do_seek (bad_sector src pos p e) = do_seek src"
  "do_read (bad_sector src pos p e) s n = (if pos s = p then (Err e, s) else do_read src s n)"
  by (simp_all add: bad_sector_def)

lemma interrupting_ops [simp]:
  "do_seek (interrupting src) (i, s) w = apsnd (Pair i) (do_seek src s w)"
  "do_read (interrupting src) (i, s) n = (if i then (Err Interrupted, (False, s)) else apsnd (Pair i) (do_read src s n))"
  by (simp_all add: interrupting_def)

text \<open>\<open>read_exact\<close> retries: an interruption is not seen by its caller.\<close>

lemma read_exact_retries:
  assumes "do_read src s n = (Err Interrupted, s')"
  shows "fst (read_exact src s n) = fst (read_exact src s' n)"
proof (cases "n = 0")
  case True
  then show ?thesis by (simp add: read_exact_def read_exact_loop.simps)
next
  case False
  then have "read_exact_loop src s n [] = read_exact_loop src s' n []"
    using assms by (subst read_exact_loop.simps) simp
  then show ?thesis by (simp add: read_exact_def split: option.split)
qed

context byte_source
begin

lemma interrupting_byte_source:
  "byte_source (interrupting src) (\<lambda>(i, s). \<not> i \<and> lawful s) (\<lambda>(i, s). pos s) (\<lambda>(i, s). content s)"
proof unfold_locales
  fix t :: "bool \<times> 's" and n
  assume "case t of (i, s) \<Rightarrow> \<not> i \<and> lawful s"
  then obtain s where t: "t = (False, s)" "lawful s" by auto
  with read_prefix [OF t(2), of n] show "\<exists>k t'. do_read (interrupting src) t n
      = (Ok (slice (case t of (i, s) \<Rightarrow> content s) (case t of (i, s) \<Rightarrow> pos s) k), t')
      \<and> (case t' of (i, s) \<Rightarrow> \<not> i \<and> lawful s) \<and> 1 dvd k \<and> k \<le> n
      \<and> k \<le> length (case t of (i, s) \<Rightarrow> content s) - (case t of (i, s) \<Rightarrow> pos s)
      \<and> (case t' of (i, s) \<Rightarrow> pos s) = (case t of (i, s) \<Rightarrow> pos s) + k
      \<and> (case t' of (i, s) \<Rightarrow> content s) = (case t of (i, s) \<Rightarrow> content s)
      \<and> (k = 0 \<longrightarrow> n = 0 \<or> length (case t of (i, s) \<Rightarrow> content s) \<le> (case t of (i, s) \<Rightarrow> pos s))"
    by auto
next
  fix t :: "bool \<times> 's" and p :: nat
  assume "case t of (i, s) \<Rightarrow> \<not> i \<and> lawful s" and p: "p < 2 ^ 63"
  then obtain s where t: "t = (False, s)" "lawful s" by auto
  with seek_start [OF t(2) p] show "\<exists>t'. do_seek (interrupting src) t (Start p) = (Ok p, t')
      \<and> (case t' of (i, s) \<Rightarrow> \<not> i \<and> lawful s) \<and> (case t' of (i, s) \<Rightarrow> pos s) = p
      \<and> (case t' of (i, s) \<Rightarrow> content s) = (case t of (i, s) \<Rightarrow> content s)"
    by auto
next
  fix t :: "bool \<times> 's"
  assume "case t of (i, s) \<Rightarrow> \<not> i \<and> lawful s"
  then obtain s where t: "t = (False, s)" "lawful s" by auto
  with seek_end [OF t(2)] show "\<exists>t'. do_seek (interrupting src) t (End 0) = (Ok (length (case t of (i, s) \<Rightarrow> content s)), t')
      \<and> (case t' of (i, s) \<Rightarrow> \<not> i \<and> lawful s)
      \<and> (case t' of (i, s) \<Rightarrow> pos s) = length (case t of (i, s) \<Rightarrow> content s)
      \<and> (case t' of (i, s) \<Rightarrow> content s) = (case t of (i, s) \<Rightarrow> content s)"
    by auto
qed (auto dest: content_bound)

text \<open>So a reader of the medium gets its bytes, interrupted or not.\<close>

lemma interrupting_read_exact_from:
  assumes "lawful s" and "p < 2 ^ 63" and "n = 0 \<or> p + n \<le> length (content s)"
  shows "fst (read_exact_from (interrupting src) (True, s) p n) = Ok (slice (content s) p n)"
proof -
  obtain s1 where s1: "do_seek src s (Start p) = (Ok p, s1)" "lawful s1" "pos s1 = p" "content s1 = content s"
    using seek_start [OF assms(1,2)] by blast
  have "fst (read_exact_from (interrupting src) (True, s) p n) = fst (read_exact_from (interrupting src) (False, s) p n)"
    using read_exact_retries [of "interrupting src" "(True, s1)" n "(False, s1)"] s1(1)
    by (simp add: read_exact_from_def)
  also have "\<dots> = Ok (slice (content s) p n)"
    using byte_reader.read_exact_from_ok [OF byte_source.axioms(1) [OF interrupting_byte_source], of "(False, s)" p n] assms
    by auto
  finally show ?thesis .
qed

end
end
