(* ===== verification/Partition_Reader.thy ===== *)
theory Partition_Reader
  imports Byte_Source
begin

text \<open>
  \<open>fsmnt-device/src/partition_reader.rs\<close>: the view of one partition inside a larger disk. A
  partition reader over a lawful reader is a lawful reader of the partition's window, so every
  parser that runs on it sees the partition's bytes and no others.
\<close>

record 's partition_reader =
  pr_inner :: 's
  base_offset :: nat
  pr_size :: nat
  pr_position :: nat
  inner_position :: "nat option"

definition partition_new :: "'s \<Rightarrow> nat \<Rightarrow> nat \<Rightarrow> 's partition_reader" where
  "partition_new reader base sz =
     \<lparr>pr_inner = reader, base_offset = base, pr_size = sz, pr_position = 0,
      inner_position = None\<rparr>"

definition partition_read ::
  "'s source \<Rightarrow> 's partition_reader \<Rightarrow> nat \<Rightarrow> (bytes, io_error) outcome \<times> 's partition_reader" where
  "partition_read src r n =
     (let remaining = pr_size r - pr_position r;
          max_read = min remaining n
      in if max_read = 0 then (Ok [], r)
         else and_do (ok_or InvalidInput (checked_add64 (base_offset r) (pr_position r)), r) (\<lambda>abs_pos r.
           and_do
             (if inner_position r \<noteq> Some abs_pos
              then apsnd (\<lambda>s. r\<lparr>pr_inner := s\<rparr>) (do_seek src (pr_inner r) (Start abs_pos))
              else (Ok abs_pos, r)) (\<lambda>_ r.
           and_do (apsnd (\<lambda>s. r\<lparr>pr_inner := s\<rparr>) (do_read src (pr_inner r) max_read)) (\<lambda>bs r.
           and_do (ok_or InvalidData (checked_add64 (pr_position r) (length bs)), r) (\<lambda>p r.
           and_do (ok_or InvalidData (checked_add64 abs_pos (length bs)), r\<lparr>pr_position := p\<rparr>) (\<lambda>ip r.
             (Ok bs, r\<lparr>inner_position := Some ip\<rparr>)))))))"

definition partition_seek ::
  "'s partition_reader \<Rightarrow> seek_from \<Rightarrow> (nat, io_error) outcome \<times> 's partition_reader" where
  "partition_seek r w =
     (case (case w of
              Start offset \<Rightarrow> (if offset < 2 ^ 63 then Some (int offset) else None)
            | End offset \<Rightarrow>
                (if pr_size r < 2 ^ 63 \<and> is_i64 (int (pr_size r) + offset)
                 then Some (int (pr_size r) + offset) else None)
            | Current offset \<Rightarrow>
                (if pr_position r < 2 ^ 63 \<and> is_i64 (int (pr_position r) + offset)
                 then Some (int (pr_position r) + offset) else None)) of
        None \<Rightarrow> (Err InvalidInput, r)
      | Some new_pos \<Rightarrow>
          (if new_pos < 0 then (Err InvalidInput, r)
           else (Ok (nat new_pos), r\<lparr>pr_position := nat new_pos\<rparr>)))"

definition partition_source :: "'s source \<Rightarrow> 's partition_reader source" where
  "partition_source src = \<lparr>do_seek = partition_seek, do_read = partition_read src\<rparr>"

lemma partition_source_ops [simp]:
  "do_seek (partition_source src) = partition_seek"
  "do_read (partition_source src) = partition_read src"
  by (simp_all add: partition_source_def)


section \<open>The window\<close>

definition partition_content :: "('s \<Rightarrow> bytes) \<Rightarrow> 's partition_reader \<Rightarrow> bytes" where
  "partition_content content r = slice (content (pr_inner r)) (base_offset r) (pr_size r)"

text \<open>
  The cached inner position, where there is one, is the inner reader's position: this is what
  lets a sequential read skip the seek.
\<close>

definition partition_inv ::
  "('s \<Rightarrow> bool) \<Rightarrow> ('s \<Rightarrow> nat) \<Rightarrow> 's partition_reader \<Rightarrow> bool" where
  "partition_inv lawful pos r \<longleftrightarrow>
     lawful (pr_inner r) \<and> base_offset r + pr_size r < 2 ^ 63
     \<and> (\<forall>p. inner_position r = Some p \<longrightarrow> pos (pr_inner r) = p)"

text \<open>The partition lies within the disk.\<close>

definition partition_within :: "('s \<Rightarrow> bytes) \<Rightarrow> 's partition_reader \<Rightarrow> bool" where
  "partition_within content r \<longleftrightarrow> base_offset r + pr_size r \<le> length (content (pr_inner r))"

lemma length_partition_content:
  "partition_within content r \<Longrightarrow> length (partition_content content r) = pr_size r"
  by (simp add: partition_within_def partition_content_def)

lemma partition_new_inv:
  "lawful s \<Longrightarrow> base + sz < 2 ^ 63 \<Longrightarrow> partition_inv lawful pos (partition_new s base sz)"
  by (simp add: partition_inv_def partition_new_def)

lemma partition_seek_start:
  "p < 2 ^ 63 \<Longrightarrow> partition_seek r (Start p) = (Ok p, r\<lparr>pr_position := p\<rparr>)"
  by (simp add: partition_seek_def)

lemma partition_seek_end:
  "pr_size r < 2 ^ 63 \<Longrightarrow> partition_seek r (End 0) = (Ok (pr_size r), r\<lparr>pr_position := pr_size r\<rparr>)"
  by (simp add: partition_seek_def is_i64_def)

context sector_source
begin

text \<open>Before the inner read, the inner reader stands at the absolute position.\<close>

lemma partition_positioned:
  assumes "partition_inv lawful pos r" and "abs_pos < 2 ^ 63" and "ss dvd abs_pos"
  shows "\<exists>s. (if inner_position r \<noteq> Some abs_pos
      then apsnd (\<lambda>s. r\<lparr>pr_inner := s\<rparr>) (do_seek src (pr_inner r) (Start abs_pos))
      else (Ok abs_pos, r)) = (Ok abs_pos, r\<lparr>pr_inner := s\<rparr>)
    \<and> lawful s \<and> pos s = abs_pos \<and> content s = content (pr_inner r)"
proof (cases "inner_position r = Some abs_pos")
  case True
  with assms show ?thesis by (intro exI [of _ "pr_inner r"]) (auto simp: partition_inv_def)
next
  case False
  from assms have "lawful (pr_inner r)" by (simp add: partition_inv_def)
  from seek_sector [OF this assms(3,2)] False show ?thesis by auto
qed

lemma partition_read_sectors:
  assumes inv: "partition_inv lawful pos r"
    and al: "ss dvd base_offset r" "ss dvd pr_size r" "ss dvd pr_position r" "ss dvd n"
  shows "\<exists>k r'. partition_read src r n = (Ok (slice (partition_content content r) (pr_position r) k), r')
    \<and> partition_inv lawful pos r' \<and> ss dvd k \<and> k \<le> n
    \<and> k \<le> length (partition_content content r) - pr_position r
    \<and> pr_position r' = pr_position r + k \<and> partition_content content r' = partition_content content r
    \<and> (k = 0 \<longrightarrow> n = 0 \<or> length (partition_content content r) \<le> pr_position r)
    \<and> base_offset r' = base_offset r \<and> pr_size r' = pr_size r
    \<and> content (pr_inner r') = content (pr_inner r)"
proof (cases "min (pr_size r - pr_position r) n = 0")
  case True
  then have "n = 0 \<or> pr_size r \<le> pr_position r" by auto
  moreover have "length (partition_content content r) \<le> pr_size r"
    by (simp add: partition_content_def)
  ultimately show ?thesis using True inv
    by (intro exI [of _ 0] exI [of _ r]) (auto simp: partition_read_def Let_def)
next
  case False
  let ?abs = "base_offset r + pr_position r" and ?max = "min (pr_size r - pr_position r) n"
  let ?c = "content (pr_inner r)"
  have lt: "pr_position r < pr_size r" "0 < n" using False by auto
  then have small: "?abs < 2 ^ 63" "?abs < 2 ^ 64" using inv by (auto simp: partition_inv_def)
  have al': "ss dvd ?abs" "ss dvd ?max" using al by (auto simp: min_def dvd_diff_nat)
  from partition_positioned [OF inv small(1) al'(1)] obtain s where s:
    "(if inner_position r \<noteq> Some ?abs
      then apsnd (\<lambda>s. r\<lparr>pr_inner := s\<rparr>) (do_seek src (pr_inner r) (Start ?abs))
      else (Ok ?abs, r)) = (Ok ?abs, r\<lparr>pr_inner := s\<rparr>)"
    "lawful s" "pos s = ?abs" "content s = ?c" by blast
  then have "ss dvd pos s" using al'(1) by simp
  from read_sectors [OF s(2) this al'(2)] obtain k s' where
    k: "do_read src s ?max = (Ok (slice ?c ?abs k), s')" "lawful s'" "k \<le> ?max"
      "k \<le> length ?c - ?abs" "pos s' = ?abs + k" "content s' = ?c"
      "k = 0 \<longrightarrow> ?max = 0 \<or> length ?c \<le> ?abs" "ss dvd k"
    using s(3,4) by auto
  have len: "length (slice ?c ?abs k) = k" using k(4) by simp
  have sums: "pr_position r + k < 2 ^ 64" "?abs + k < 2 ^ 64"
    using k(3) inv lt by (auto simp: partition_inv_def)
  have "slice (partition_content content r) (pr_position r) k = slice ?c ?abs k"
    using k(3) by (simp add: partition_content_def slice_window min_absorb1)
  moreover have "partition_read src r n = (Ok (slice ?c ?abs k),
      r\<lparr>pr_inner := s', pr_position := pr_position r + k, inner_position := Some (?abs + k)\<rparr>)"
    using s(1) k(1) len sums small(2)
    by (simp add: partition_read_def Let_def checked_add64_small if_not_P [OF False])
  ultimately show ?thesis
    using k inv False
    by (intro exI [of _ k] exI [of _ "r\<lparr>pr_inner := s', pr_position := pr_position r + k,
          inner_position := Some (?abs + k)\<rparr>"])
      (auto simp: partition_inv_def partition_content_def)
qed

text \<open>A partition at sector boundaries of a raw device is again a sector device.\<close>

lemma partition_sector_source:
  "sector_source (partition_source src)
     (\<lambda>r. partition_inv lawful pos r \<and> ss dvd base_offset r \<and> ss dvd pr_size r)
     pr_position (partition_content content) ss"
proof unfold_locales
  fix r :: "'s partition_reader" and n
  assume "partition_inv lawful pos r \<and> ss dvd base_offset r \<and> ss dvd pr_size r"
    and "ss dvd pr_position r" and "ss dvd n"
  with partition_read_sectors [of r n] show "\<exists>k s'. do_read (partition_source src) r n
      = (Ok (slice (partition_content content r) (pr_position r) k), s')
      \<and> (partition_inv lawful pos s' \<and> ss dvd base_offset s' \<and> ss dvd pr_size s') \<and> ss dvd k
      \<and> k \<le> n \<and> k \<le> length (partition_content content r) - pr_position r
      \<and> pr_position s' = pr_position r + k
      \<and> partition_content content s' = partition_content content r
      \<and> (k = 0 \<longrightarrow> n = 0 \<or> length (partition_content content r) \<le> pr_position r)"
    by auto
next
  fix r :: "'s partition_reader"
  assume "partition_inv lawful pos r \<and> ss dvd base_offset r \<and> ss dvd pr_size r"
  with content_sectors [of "pr_inner r"] show "0 < ss \<and> ss dvd length (partition_content content r)
      \<and> length (partition_content content r) < 2 ^ 63"
    by (auto simp: partition_inv_def partition_content_def min_def dvd_diff_nat)
qed (auto simp: partition_seek_start partition_inv_def partition_content_def)

end

context byte_reader
begin

lemma partition_byte_reader:
  "byte_reader (partition_source src) (partition_inv lawful pos) pr_position (partition_content content)"
  using partition_sector_source by (simp add: byte_reader_def)

text \<open>Inside the disk, the end of the window is found by seeking.\<close>

lemma partition_byte_source:
  "byte_source (partition_source src)
     (\<lambda>r. partition_inv lawful pos r \<and> partition_within content r)
     pr_position (partition_content content)"
proof unfold_locales
  fix r :: "'s partition_reader" and n
  assume "partition_inv lawful pos r \<and> partition_within content r"
  with partition_read_sectors [of r n] show "\<exists>k s'. do_read (partition_source src) r n
      = (Ok (slice (partition_content content r) (pr_position r) k), s')
      \<and> (partition_inv lawful pos s' \<and> partition_within content s') \<and> 1 dvd k \<and> k \<le> n
      \<and> k \<le> length (partition_content content r) - pr_position r
      \<and> pr_position s' = pr_position r + k
      \<and> partition_content content s' = partition_content content r
      \<and> (k = 0 \<longrightarrow> n = 0 \<or> length (partition_content content r) \<le> pr_position r)"
    by (auto simp: partition_within_def)
qed (auto simp: partition_seek_start partition_seek_end partition_inv_def partition_within_def
       partition_content_def)

end

interpretation disk_partition: byte_source "partition_source cursor_source"
  "\<lambda>r. partition_inv cursor_inv cur_pos r \<and> partition_within cur_bytes r"
  pr_position "partition_content cur_bytes"
  by (rule cursor.partition_byte_source)

text \<open>
  C4: reading a range of a partition returns the bytes of the disk at the partition's offset
  plus the range's offset, whatever reads and seeks came before and however short the reads of
  the disk are; a range that reaches past the partition's end is refused with an end of file
  and yields no byte of a neighbouring partition.
\<close>

theorem partition_reads_its_window:
  assumes "byte_reader src lawful pos content"
    and "partition_inv lawful pos r" and "partition_within content r" and "p < 2 ^ 63"
  shows "fst (read_exact_from (partition_source src) r p n) =
    (if n = 0 \<or> p + n \<le> pr_size r
     then Ok (slice (content (pr_inner r)) (base_offset r + p) n)
     else Err UnexpectedEof)"
proof -
  note window = byte_reader.partition_byte_reader [OF assms(1)]
  have len: "length (partition_content content r) = pr_size r"
    using assms(3) by (rule length_partition_content)
  show ?thesis
  proof (cases "n = 0 \<or> p + n \<le> pr_size r")
    case True
    then have "n = 0 \<or> p + n \<le> length (partition_content content r)" by (simp add: len)
    from byte_reader.read_exact_from_ok [OF window assms(2,4) this] True show ?thesis
      by (auto simp: partition_content_def slice_slice)
  next
    case False
    then have "0 < n" "length (partition_content content r) < p + n" by (simp_all add: len)
    from byte_reader.read_exact_from_eof [OF window assms(2,4) this] False show ?thesis by auto
  qed
qed

definition demo_disk :: cursor where
  "demo_disk = \<lparr>cur_bytes = [10, 11, 12, 13, 14, 15, 16, 17], cur_pos = 0\<rparr>"

theorem partition_reads_its_window_witness:
  "fst (read_exact_from (partition_source cursor_source) (partition_new demo_disk 2 4) 1 2) = Ok [13, 14]
   \<and> fst (read_exact_from (partition_source cursor_source) (partition_new demo_disk 2 4) 3 2)
       = Err UnexpectedEof"
proof -
  have h: "partition_inv cursor_inv cur_pos (partition_new demo_disk 2 4)"
    "partition_within cur_bytes (partition_new demo_disk 2 4)"
    by (simp_all add: partition_inv_def partition_within_def partition_new_def demo_disk_def
        cursor_inv_def)
  note cb = cursor.byte_reader_axioms
  show ?thesis
    using partition_reads_its_window [OF cb h, of 1 2] partition_reads_its_window [OF cb h, of 3 2]
    by (simp add: partition_new_def demo_disk_def slice_def)
qed


section \<open>After a failed read\<close>

text \<open>
  \<open>partition_inv\<close> is kept by every read that returns bytes. A failed inner read breaks it: the
  inner reader has been moved, but \<open>inner_position\<close> still holds the position from before.

  C35: let a partition reader have read up to offset \<open>p0\<close>. When the disk is unreadable at another
  offset \<open>p\<close> of the partition, a read there fails; and when the caller then goes back to \<open>p0\<close> and
  reads, the reader does not seek the disk. If the disk is readable again, the read returns the bytes
  at \<open>p\<close> as those at \<open>p0\<close>; if it is not, the read fails with the error of \<open>p\<close>. This holds on every
  disk and for every such pair of offsets.
\<close>

theorem partition_read_after_failure_is_misplaced:
  assumes "byte_reader src lawful pos content"
    and "partition_inv lawful pos r" and "partition_within content r"
    and "inner_position r = Some (base_offset r + p0)"
    and "p0 < pr_size r" and "p < pr_size r" and "p \<noteq> p0" and "0 < m" and "0 < n"
  shows "\<exists>r1 k r2.
    partition_read (bad_sector src pos (base_offset r + p) e) (snd (partition_seek r (Start p))) m = (Err e, r1)
    \<and> partition_read src (snd (partition_seek r1 (Start p0))) n
        = (Ok (slice (content (pr_inner r)) (base_offset r + p) k), r2)
    \<and> 0 < k \<and> k \<le> n \<and> pr_position r2 = p0 + k
    \<and> fst (partition_read (bad_sector src pos (base_offset r + p) e) (snd (partition_seek r1 (Start p0))) n) = Err e"
proof -
  let ?q = "base_offset r + p"
  have l: "lawful (pr_inner r)" and small: "base_offset r + pr_size r < 2 ^ 63"
    using assms(2) by (simp_all add: partition_inv_def)
  then have b: "?q < 2 ^ 63" "p < 2 ^ 63" "p0 < 2 ^ 63" using assms(5,6) by linarith+
  have seek: "partition_seek r' (Start x) = (Ok x, r'\<lparr>pr_position := x\<rparr>)" if "x < 2 ^ 63" for r' :: "'a partition_reader" and x
    using that by (simp add: partition_seek_def)
  obtain s where s: "do_seek src (pr_inner r) (Start ?q) = (Ok ?q, s)" "lawful s" "pos s = ?q"
    "content s = content (pr_inner r)"
    using byte_reader.seek_start [OF assms(1) l b(1)] by blast
  let ?r1 = "r\<lparr>pr_position := p, pr_inner := s\<rparr>" and ?n = "min (pr_size r - p0) n"
  have "partition_read (bad_sector src pos ?q e) (r\<lparr>pr_position := p\<rparr>) m = (Err e, ?r1)"
    using assms(4,6,7,8) s b(1) by (simp add: partition_read_def Let_def checked_add64_def)
  moreover obtain k s' where k: "do_read src s ?n = (Ok (slice (content (pr_inner r)) ?q k), s')" "k \<le> ?n"
      "k \<le> length (content s) - ?q" "k = 0 \<longrightarrow> ?n = 0 \<or> length (content s) \<le> ?q"
    using byte_reader.read_prefix [OF assms(1) s(2), of ?n] s(3,4) by metis
  have "?q < length (content s)" using assms(3,6) s(4) by (auto simp: partition_within_def)
  then have "0 < k" using k(4) assms(5,9) by auto
  moreover have "k \<le> pr_size r - p0" using k(2) by simp
  then have "base_offset r + p0 + k \<le> base_offset r + pr_size r" using assms(5) by linarith
  then have "base_offset r + p0 + k < 2 ^ 64" using small by simp
  then have "partition_read src (?r1\<lparr>pr_position := p0\<rparr>) n
      = (Ok (slice (content (pr_inner r)) ?q k),
         ?r1\<lparr>pr_inner := s', pr_position := p0 + k, inner_position := Some (base_offset r + p0 + k)\<rparr>)"
    using assms(4,5,9) k(1-3) s(4) small
    by (simp add: partition_read_def Let_def checked_add64_def)
  moreover have "fst (partition_read (bad_sector src pos ?q e) (?r1\<lparr>pr_position := p0\<rparr>) n) = Err e"
    using assms(4,5,9) s(3) small by (simp add: partition_read_def Let_def checked_add64_def)
  ultimately show ?thesis using k(2) seek [OF b(2)] seek [OF b(3)] by (simp add: exI)
qed

theorem partition_read_after_failure_is_misplaced_witness:
  "let r = \<lparr>pr_inner = demo_disk\<lparr>cur_pos := 2\<rparr>, base_offset = 0, pr_size = 8, pr_position = 2,
      inner_position = Some 2\<rparr>
   in snd (partition_read cursor_source (partition_new demo_disk 0 8) 2) = r
    \<and> (\<exists>r1 k r2. partition_read (bad_sector cursor_source cur_pos 6 (Device 5)) (snd (partition_seek r (Start 6))) 1
          = (Err (Device 5), r1)
        \<and> partition_read cursor_source (snd (partition_seek r1 (Start 2))) 1 = (Ok [16], r2))
    \<and> slice (cur_bytes demo_disk) 2 1 = [12]"
proof -
  let ?r = "\<lparr>pr_inner = demo_disk\<lparr>cur_pos := 2\<rparr>, base_offset = 0, pr_size = 8, pr_position = 2,
    inner_position = Some 2\<rparr>"
  have "snd (partition_read cursor_source (partition_new demo_disk 0 8) 2) = ?r"
    by (simp add: partition_read_def partition_new_def demo_disk_def cursor_seek_def cursor_read_def
        checked_add64_def slice_def)
  moreover have "partition_inv cursor_inv cur_pos ?r" "partition_within cur_bytes ?r"
    by (simp_all add: partition_inv_def partition_within_def demo_disk_def cursor_inv_def)
  note h = partition_read_after_failure_is_misplaced [OF cursor.byte_reader_axioms this, of 2 6 1 1 "Device 5"]
  obtain r1 k r2 where "partition_read (bad_sector cursor_source cur_pos 6 (Device 5)) (snd (partition_seek ?r (Start 6))) 1
      = (Err (Device 5), r1)" "partition_read cursor_source (snd (partition_seek r1 (Start 2))) 1
        = (Ok (slice (cur_bytes demo_disk) 6 k), r2)" "0 < k" "k \<le> 1"
    using h by auto
  moreover from this have "k = 1" by simp
  ultimately show ?thesis by (auto simp: Let_def demo_disk_def slice_def)
qed

end
