(* ===== verification/Sector_Reader.thy ===== *)
theory Sector_Reader
  imports Partition_Reader
begin

text \<open>
  \<open>fsmnt-device/src/sector_reader.rs\<close>: arbitrary byte reads over a device that serves whole
  sectors only. The contract of the inner reader is \<open>sector_source\<close>, which promises nothing for
  an unaligned request, so the refinement below also shows that the adapter never makes one.

  When a device read fails half way, the adapter's sector buffer holds bytes the standard
  library does not specify; the model keeps the old ones. They cannot be observed: the cached
  sector number is cleared before the read.
\<close>

record 's sector_reader =
  sr_inner :: 's
  sr_length :: nat
  sr_position :: nat
  sector_size :: nat
  sector :: bytes
  cached_sector :: "nat option"

definition sector_new :: "'s \<Rightarrow> nat \<Rightarrow> nat \<Rightarrow> ('s sector_reader, io_error) outcome" where
  "sector_new inner len ss =
     (if ss = 0 \<or> \<not> is_power_of_two ss then Err InvalidInput
      else if len mod ss \<noteq> 0 then Err InvalidInput
      else Ok \<lparr>sr_inner = inner, sr_length = len, sr_position = 0, sector_size = ss,
               sector = replicate ss 0, cached_sector = None\<rparr>)"

definition load_sector ::
  "'s source \<Rightarrow> 's sector_reader \<Rightarrow> nat \<Rightarrow> (unit, io_error) outcome \<times> 's sector_reader" where
  "load_sector src r sector_start =
     (if cached_sector r = Some sector_start then (Ok (), r)
      else and_do (ok_or InvalidInput (checked_add64 sector_start (sector_size r)), r) (\<lambda>sector_end r.
        if sector_start mod sector_size r \<noteq> 0 \<or> sector_end > sr_length r then (Err InvalidInput, r)
        else
          let r = r\<lparr>cached_sector := None\<rparr> in
          and_do (apsnd (\<lambda>s. r\<lparr>sr_inner := s\<rparr>)
                   (read_exact_from src (sr_inner r) sector_start (length (sector r)))) (\<lambda>bs r.
            (Ok (), r\<lparr>sector := bs, cached_sector := Some sector_start\<rparr>))))"

definition advance :: "'s sector_reader \<Rightarrow> nat \<Rightarrow> (unit, io_error) outcome \<times> 's sector_reader" where
  "advance r amount =
     (case checked_add64 (sr_position r) amount of
        Some p \<Rightarrow> (Ok (), r\<lparr>sr_position := p\<rparr>)
      | None \<Rightarrow> (Err InvalidData, r))"

text \<open>
  The three phases of \<open>read\<close>: the rest of the sector the position lies in, the whole sectors
  after it straight from the device, and the head of the last sector.
\<close>

definition read_head ::
  "'s source \<Rightarrow> nat \<Rightarrow> 's sector_reader \<Rightarrow> (bytes, io_error) outcome \<times> 's sector_reader" where
  "read_head src wanted r =
     (let head_offset = sr_position r mod sector_size r
      in if head_offset \<noteq> 0
         then and_do (load_sector src r (sr_position r - head_offset)) (\<lambda>_ r.
           let count = min (sector_size r - head_offset) wanted in
           and_do (subslice (sector r) head_offset (head_offset + count), r) (\<lambda>bs r.
           and_do (advance r count) (\<lambda>_ r. (Ok bs, r))))
         else (Ok [], r))"

definition read_middle ::
  "'s source \<Rightarrow> nat \<Rightarrow> 's sector_reader \<Rightarrow> (bytes, io_error) outcome \<times> 's sector_reader" where
  "read_middle src aligned_length r =
     (if aligned_length \<noteq> 0
      then and_do (apsnd (\<lambda>s. r\<lparr>sr_inner := s\<rparr>)
                    (read_exact_from src (sr_inner r) (sr_position r) aligned_length)) (\<lambda>bs r.
           and_do (advance r aligned_length) (\<lambda>_ r. (Ok bs, r)))
      else (Ok [], r))"

definition read_tail ::
  "'s source \<Rightarrow> nat \<Rightarrow> 's sector_reader \<Rightarrow> (bytes, io_error) outcome \<times> 's sector_reader" where
  "read_tail src tail_length r =
     (if tail_length \<noteq> 0
      then and_do (load_sector src r (sr_position r)) (\<lambda>_ r.
           and_do (subslice (sector r) 0 tail_length, r) (\<lambda>bs r.
           and_do (advance r tail_length) (\<lambda>_ r. (Ok bs, r))))
      else (Ok [], r))"

definition sector_read ::
  "'s source \<Rightarrow> 's sector_reader \<Rightarrow> nat \<Rightarrow> (bytes, io_error) outcome \<times> 's sector_reader" where
  "sector_read src r n =
     (if n = 0 \<or> sr_length r \<le> sr_position r then (Ok [], r)
      else
        let wanted = min (sr_length r - sr_position r) n in
        and_do (read_head src wanted r) (\<lambda>head r.
          let remaining = wanted - length head;
              aligned_length = remaining - remaining mod sector_size r in
          and_do (read_middle src aligned_length r) (\<lambda>middle r.
            let tail_length = wanted - (length head + length middle) in
            and_do (read_tail src tail_length r) (\<lambda>tail r.
              (Ok (head @ middle @ tail), r)))))"

definition offset_position :: "nat \<Rightarrow> int \<Rightarrow> nat option" where
  "offset_position base offset =
     (if offset < 0 then checked_sub base (nat (- offset))
      else checked_add64 base (nat offset))"

definition sector_seek ::
  "'s sector_reader \<Rightarrow> seek_from \<Rightarrow> (nat, io_error) outcome \<times> 's sector_reader" where
  "sector_seek r w =
     (case (case w of Start p \<Rightarrow> Some p
            | End offset \<Rightarrow> offset_position (sr_length r) offset
            | Current offset \<Rightarrow> offset_position (sr_position r) offset) of
        None \<Rightarrow> (Err InvalidInput, r)
      | Some p \<Rightarrow> (Ok p, r\<lparr>sr_position := p\<rparr>))"

definition sector_reader_source :: "'s source \<Rightarrow> 's sector_reader source" where
  "sector_reader_source src = \<lparr>do_seek = sector_seek, do_read = sector_read src\<rparr>"

lemma sector_reader_source_ops [simp]:
  "do_seek (sector_reader_source src) = sector_seek"
  "do_read (sector_reader_source src) = sector_read src"
  by (simp_all add: sector_reader_source_def)


section \<open>The refinement\<close>

definition sector_content :: "('s \<Rightarrow> bytes) \<Rightarrow> 's sector_reader \<Rightarrow> bytes" where
  "sector_content content r = take (sr_length r) (content (sr_inner r))"

text \<open>A cached sector is a copy of the device's.\<close>

definition sector_inv ::
  "('s \<Rightarrow> bool) \<Rightarrow> ('s \<Rightarrow> bytes) \<Rightarrow> nat \<Rightarrow> 's sector_reader \<Rightarrow> bool" where
  "sector_inv lawful content ss r \<longleftrightarrow>
     lawful (sr_inner r) \<and> sector_size r = ss \<and> length (sector r) = ss \<and> ss dvd sr_length r
     \<and> sr_length r \<le> length (content (sr_inner r))
     \<and> (\<forall>p. cached_sector r = Some p \<longrightarrow> sector r = slice (content (sr_inner r)) p ss)"

lemma offset_position_signed:
  "base < 2 ^ 64 \<Longrightarrow> offset_position base offset = checked_add_signed64 base offset"
  by (auto simp: offset_position_def checked_add_signed64_def checked_sub_def checked_add64_def)

lemma advance_ok: "sr_position r + n < 2 ^ 64 \<Longrightarrow> advance r n = (Ok (), r\<lparr>sr_position := sr_position r + n\<rparr>)"
  by (simp add: advance_def checked_add64_def)

lemma aligned_room:
  "(ss :: nat) dvd l \<Longrightarrow> p < l \<Longrightarrow> (p - p mod ss) + ss \<le> l"
proof -
  assume "ss dvd l" and "p < l"
  then obtain q where q: "l = ss * q" by (elim dvdE)
  have "0 < ss" using q \<open>p < l\<close> by (cases ss) auto
  have "p div ss < q" using \<open>p < l\<close> q by (simp add: less_mult_imp_div_less mult.commute)
  then have "ss * Suc (p div ss) \<le> ss * q" by (intro mult_le_mono2) simp
  moreover have "p - p mod ss = ss * (p div ss)" by (simp add: minus_mod_eq_mult_div)
  ultimately show ?thesis using q by simp
qed

context sector_source
begin

definition advanced :: "nat \<Rightarrow> 's sector_reader \<Rightarrow> 's sector_reader \<Rightarrow> bool" where
  "advanced k r r' \<longleftrightarrow> sector_inv lawful content ss r' \<and> sr_position r' = sr_position r + k
     \<and> sr_length r' = sr_length r \<and> content (sr_inner r') = content (sr_inner r)"

lemma sector_inv_bounds:
  assumes "sector_inv lawful content ss r"
  shows "0 < ss" "sr_length r < 2 ^ 63" "ss dvd sr_length r"
  using assms content_sectors [of "sr_inner r"] by (auto simp: sector_inv_def)

lemma load_sector_ok:
  assumes inv: "sector_inv lawful content ss r" and al: "ss dvd p" "p + ss \<le> sr_length r"
  shows "\<exists>r'. load_sector src r p = (Ok (), r') \<and> advanced 0 r r'
    \<and> sector r' = slice (content (sr_inner r)) p ss"
proof (cases "cached_sector r = Some p")
  case True
  with inv show ?thesis by (auto simp: load_sector_def advanced_def sector_inv_def)
next
  case False
  note b = sector_inv_bounds [OF inv]
  have l: "lawful (sr_inner r)" and le: "p + ss \<le> length (content (sr_inner r))" "p < 2 ^ 63"
    using inv al b by (auto simp: sector_inv_def)
  obtain s' where s': "read_exact_from src (sr_inner r) p ss = (Ok (slice (content (sr_inner r)) p ss), s')"
    "lawful s'" "content s' = content (sr_inner r)"
    using sectors_from_ok [OF l al(1) dvd_refl le(2)] le(1) by blast
  moreover have "p mod ss = 0" "p + ss < 2 ^ 64" using al b by auto
  ultimately show ?thesis
    using False inv al le
    by (auto simp: load_sector_def Let_def advanced_def sector_inv_def checked_add64_def)
qed

lemma read_head_ok:
  assumes inv: "sector_inv lawful content ss r" and lt: "sr_position r < sr_length r"
    and w: "0 < wanted" "sr_position r + wanted \<le> sr_length r"
  shows "\<exists>k r'. read_head src wanted r = (Ok (slice (content (sr_inner r)) (sr_position r) k), r')
    \<and> advanced k r r' \<and> k \<le> wanted \<and> (ss dvd sr_position r + k \<or> k = wanted)
    \<and> (sr_position r mod ss \<noteq> 0 \<longrightarrow> k = min (ss - sr_position r mod ss) wanted)"
proof (cases "sr_position r mod ss = 0")
  case True
  with inv show ?thesis
    by (intro exI [of _ 0] exI [of _ r])
      (auto simp: read_head_def advanced_def sector_inv_def Let_def)
next
  case False
  let ?p = "sr_position r" and ?h = "sr_position r mod ss"
  let ?k = "min (ss - ?h) wanted"
  note b = sector_inv_bounds [OF inv]
  have al: "ss dvd ?p - ?h" by (simp add: dvd_minus_mod)
  have room: "?p - ?h + ss \<le> sr_length r" by (rule aligned_room [OF b(3) lt])
  obtain r1 where r1: "load_sector src r (?p - ?h) = (Ok (), r1)" "advanced 0 r r1"
    "sector r1 = slice (content (sr_inner r)) (?p - ?h) ss"
    using load_sector_ok [OF inv al room] by blast
  have hs: "?h < ss" using b(1) by simp
  have hp: "?h \<le> ?p" by simp
  have len: "length (sector r1) = ss" using r1(2) by (simp add: advanced_def sector_inv_def)
  have "slice (sector r1) ?h ?k = slice (content (sr_inner r)) ?p ?k"
    using r1(3) hs hp by (simp add: slice_slice)
  moreover have "(subslice (sector r1) ?h (?h + ?k) :: (bytes, io_error) outcome)
      = Ok (slice (sector r1) ?h ?k)"
    using len hs by (simp add: subslice_def)
  moreover have "advance r1 ?k = (Ok (), r1\<lparr>sr_position := ?p + ?k\<rparr>)"
    using r1(2) w(2) b(2) by (intro advance_ok [THEN trans]) (auto simp: advanced_def)
  moreover have "sector_size r = ss" "sector_size r1 = ss"
    using inv r1(2) by (simp_all add: sector_inv_def advanced_def)
  ultimately have "read_head src wanted r
      = (Ok (slice (content (sr_inner r)) ?p ?k), r1\<lparr>sr_position := ?p + ?k\<rparr>)"
    using False r1(1) by (simp add: read_head_def Let_def)
  moreover have "ss dvd ?p + ?k \<or> ?k = wanted"
  proof (cases "ss - ?h \<le> wanted")
    case True
    then have "?p + ?k = (?p - ?h) + ss" using hs hp by simp
    then show ?thesis using dvd_add [OF al dvd_refl] by (intro disjI1) metis
  qed simp
  ultimately show ?thesis
    using r1(2) by (intro exI [of _ ?k]) (auto simp: advanced_def sector_inv_def)
qed

lemma read_middle_ok:
  assumes inv: "sector_inv lawful content ss r" and al: "m = 0 \<or> ss dvd sr_position r" "ss dvd m"
    and le: "sr_position r + m \<le> sr_length r"
  shows "\<exists>r'. read_middle src m r = (Ok (slice (content (sr_inner r)) (sr_position r) m), r')
    \<and> advanced m r r'"
proof (cases "m = 0")
  case True
  with inv show ?thesis by (auto simp: read_middle_def advanced_def)
next
  case False
  note b = sector_inv_bounds [OF inv]
  have l: "lawful (sr_inner r)" and le': "sr_position r + m \<le> length (content (sr_inner r))"
    "sr_position r < 2 ^ 63"
    using inv le b by (auto simp: sector_inv_def)
  obtain s' where s': "read_exact_from src (sr_inner r) (sr_position r) m
      = (Ok (slice (content (sr_inner r)) (sr_position r) m), s')"
    "lawful s'" "content s' = content (sr_inner r)"
    using sectors_from_ok [OF l _ al(2) le'(2)] le'(1) al(1) False by blast
  then show ?thesis
    using False inv le b(2) by (auto simp: read_middle_def advance_ok advanced_def sector_inv_def)
qed

lemma read_tail_ok:
  assumes inv: "sector_inv lawful content ss r" and al: "t = 0 \<or> ss dvd sr_position r" "t < ss"
    and le: "sr_position r + t \<le> sr_length r"
  shows "\<exists>r'. read_tail src t r = (Ok (slice (content (sr_inner r)) (sr_position r) t), r')
    \<and> advanced t r r'"
proof (cases "t = 0")
  case True
  with inv show ?thesis by (auto simp: read_tail_def advanced_def)
next
  case False
  note b = sector_inv_bounds [OF inv]
  have "sr_position r < sr_length r" and al': "ss dvd sr_position r" using le al(1) False by auto
  then have "sr_position r + ss \<le> sr_length r"
    using aligned_room [OF b(3), of "sr_position r"] by simp
  from load_sector_ok [OF inv al' this] obtain r1 where
    r1: "load_sector src r (sr_position r) = (Ok (), r1)" "advanced 0 r r1"
      "sector r1 = slice (content (sr_inner r)) (sr_position r) ss" by blast
  have "length (sector r1) = ss" using r1(2) by (simp add: advanced_def sector_inv_def)
  then have "(subslice (sector r1) 0 t :: (bytes, io_error) outcome)
      = Ok (slice (content (sr_inner r)) (sr_position r) t)"
    using r1(3) al(2) by (simp add: subslice_def slice_slice)
  moreover have "advance r1 t = (Ok (), r1\<lparr>sr_position := sr_position r + t\<rparr>)"
    using r1(2) le b(2) by (intro advance_ok [THEN trans]) (auto simp: advanced_def)
  ultimately show ?thesis
    using False r1 by (auto simp: read_tail_def advanced_def sector_inv_def)
qed

text \<open>A read inside the device returns everything that was asked for.\<close>

lemma sector_read_ok:
  fixes n :: nat and r :: "'s sector_reader"
  assumes inv: "sector_inv lawful content ss r"
  defines "wanted \<equiv> min n (sr_length r - sr_position r)"
  shows "\<exists>r'. sector_read src r n = (Ok (slice (content (sr_inner r)) (sr_position r) wanted), r')
    \<and> advanced wanted r r'"
proof (cases "n = 0 \<or> sr_length r \<le> sr_position r")
  case True
  with inv show ?thesis by (auto simp: sector_read_def advanced_def wanted_def)
next
  case False
  let ?c = "content (sr_inner r)" and ?p = "sr_position r"
  have lt: "?p < sr_length r" and w: "0 < wanted" "?p + wanted \<le> sr_length r"
    using False by (auto simp: wanted_def)
  obtain k r1 where h: "read_head src wanted r = (Ok (slice ?c ?p k), r1)" "advanced k r r1"
    "k \<le> wanted" "ss dvd ?p + k \<or> k = wanted"
    using read_head_ok [OF inv lt w] by blast
  let ?rem = "wanted - k"
  let ?m = "?rem - ?rem mod ss"
  have i1: "sector_inv lawful content ss r1" "sr_position r1 = ?p + k" "sr_length r1 = sr_length r"
    "content (sr_inner r1) = ?c" using h(2) by (auto simp: advanced_def)
  have "?m = 0 \<or> ss dvd sr_position r1" "sr_position r1 + ?m \<le> sr_length r1"
    using h(3,4) i1 w(2) by auto
  from read_middle_ok [OF i1(1) this(1) dvd_minus_mod this(2)] obtain r2 where
    m: "read_middle src ?m r1 = (Ok (slice ?c (?p + k) ?m), r2)" "advanced ?m r1 r2"
    using i1(2,4) by metis
  let ?t = "?rem mod ss"
  have i2: "sector_inv lawful content ss r2" "sr_position r2 = ?p + k + ?m"
    "sr_length r2 = sr_length r" "content (sr_inner r2) = ?c"
    using m(2) i1 by (auto simp: advanced_def)
  have sum: "k + ?m + ?t = wanted"
    using h(3) mod_less_eq_dividend [of "wanted - k" ss] by linarith
  have "?t = 0 \<or> ss dvd sr_position r2"
    unfolding i2(2) using h(4) dvd_add [OF _ dvd_minus_mod] by (metis diff_self_eq_0 mod_0)
  moreover have "?t < ss" using sector_inv_bounds [OF inv] by simp
  moreover have "sr_position r2 + ?t \<le> sr_length r2" using i2 sum w(2) by simp
  ultimately obtain r3 where t: "read_tail src ?t r2 = (Ok (slice ?c (?p + k + ?m) ?t), r3)"
    "advanced ?t r2 r3"
    using read_tail_ok [OF i2(1)] i2 by metis
  have len: "length (slice ?c ?p k) = k" "length (slice ?c (?p + k) ?m) = ?m"
    using w(2) h(3) inv by (auto simp: sector_inv_def)
  have whole: "slice ?c ?p k @ slice ?c (?p + k) ?m @ slice ?c (?p + k + ?m) ?t = slice ?c ?p wanted"
    using slice_append_slice [of ?c "?p + k" ?m ?t] slice_append_slice [of ?c ?p k "?m + ?t"] sum
    by (simp add: add.assoc)
  have ss1: "sector_size r1 = ss" using i1(1) by (simp add: sector_inv_def)
  have tl: "wanted - (k + ?m) = ?t" using sum by simp
  have "sector_read src r n = (Ok (slice ?c ?p wanted), r3)"
    using False h(1) m(1) t(1) len ss1 tl whole
    by (simp add: sector_read_def Let_def wanted_def [symmetric] min.commute)
  moreover have "advanced wanted r r3"
    using t(2) i2 sum by (auto simp: advanced_def)
  ultimately show ?thesis by blast
qed

lemma sector_seek_start: "sector_seek r (Start p) = (Ok p, r\<lparr>sr_position := p\<rparr>)"
  by (simp add: sector_seek_def)

lemma sector_byte_source:
  "byte_source (sector_reader_source src) (sector_inv lawful content ss) sr_position
     (sector_content content)"
proof unfold_locales
  fix r :: "'s sector_reader" and n
  assume inv: "sector_inv lawful content ss r"
  let ?k = "min n (sr_length r - sr_position r)"
  obtain r' where r': "sector_read src r n
      = (Ok (slice (content (sr_inner r)) (sr_position r) ?k), r')" "advanced ?k r r'"
    using sector_read_ok [OF inv] by blast
  have "slice (sector_content content r) (sr_position r) ?k
      = slice (content (sr_inner r)) (sr_position r) ?k"
    by (simp add: sector_content_def slice_def drop_take min_def)
  moreover have "length (sector_content content r) = sr_length r"
    using inv by (simp add: sector_inv_def sector_content_def)
  ultimately show "\<exists>k s'. do_read (sector_reader_source src) r n
      = (Ok (slice (sector_content content r) (sr_position r) k), s')
      \<and> sector_inv lawful content ss s' \<and> 1 dvd k \<and> k \<le> n
      \<and> k \<le> length (sector_content content r) - sr_position r
      \<and> sr_position s' = sr_position r + k \<and> sector_content content s' = sector_content content r
      \<and> (k = 0 \<longrightarrow> n = 0 \<or> length (sector_content content r) \<le> sr_position r)"
    using r' by (intro exI [of _ ?k] exI [of _ r']) (auto simp: advanced_def sector_content_def)
qed (use content_sectors in \<open>force simp: sector_seek_start sector_seek_def sector_inv_def
       sector_content_def offset_position_def checked_add64_def\<close>)+

lemma read_exact_any_range:
  assumes "sector_inv lawful content ss r" and "p < 2 ^ 63"
  shows "fst (read_exact_from (sector_reader_source src) r p n) =
    (if n = 0 \<or> p + n \<le> sr_length r then Ok (slice (content (sr_inner r)) p n)
     else Err UnexpectedEof)"
proof -
  have src: "byte_reader (sector_reader_source src) (sector_inv lawful content ss) sr_position
      (sector_content content)"
    using sector_byte_source by (simp add: byte_source_def)
  have len: "length (sector_content content r) = sr_length r"
    using assms(1) by (simp add: sector_inv_def sector_content_def)
  show ?thesis
  proof (cases "n = 0 \<or> p + n \<le> sr_length r")
    case True
    then have "n = 0 \<or> p + n \<le> length (sector_content content r)" by (simp add: len)
    from byte_reader.read_exact_from_ok [OF src assms this] True show ?thesis
      by (auto simp: sector_content_def slice_def drop_take min_def)
  next
    case False
    then have "0 < n" "length (sector_content content r) < p + n" by (simp_all add: len)
    from byte_reader.read_exact_from_eof [OF src assms this] False show ?thesis by auto
  qed
qed

end


section \<open>A device that insists on alignment\<close>

text \<open>\<open>StrictSectorDevice\<close> of the module's tests: a cursor that rejects unaligned reads.\<close>

record strict_device =
  sd_inner :: cursor
  sd_sector_size :: nat

definition strict_read :: "strict_device \<Rightarrow> nat \<Rightarrow> (bytes, io_error) outcome \<times> strict_device" where
  "strict_read d n =
     (if cur_pos (sd_inner d) mod sd_sector_size d \<noteq> 0 \<or> n mod sd_sector_size d \<noteq> 0
      then (Err InvalidInput, d)
      else apsnd (\<lambda>c. d\<lparr>sd_inner := c\<rparr>) (cursor_read (sd_inner d) n))"

definition strict_seek :: "strict_device \<Rightarrow> seek_from \<Rightarrow> (nat, io_error) outcome \<times> strict_device" where
  "strict_seek d w = apsnd (\<lambda>c. d\<lparr>sd_inner := c\<rparr>) (cursor_seek (sd_inner d) w)"

definition strict_source :: "strict_device source" where
  "strict_source = \<lparr>do_seek = strict_seek, do_read = strict_read\<rparr>"

definition strict_lawful :: "nat \<Rightarrow> strict_device \<Rightarrow> bool" where
  "strict_lawful ss d \<longleftrightarrow> sd_sector_size d = ss \<and> 0 < ss \<and> ss dvd length (cur_bytes (sd_inner d))
     \<and> length (cur_bytes (sd_inner d)) < 2 ^ 63"

abbreviation strict_pos :: "strict_device \<Rightarrow> nat" where
  "strict_pos d \<equiv> cur_pos (sd_inner d)"

abbreviation strict_bytes :: "strict_device \<Rightarrow> bytes" where
  "strict_bytes d \<equiv> cur_bytes (sd_inner d)"

lemma strict_source_ops [simp]:
  "do_seek strict_source = strict_seek" "do_read strict_source = strict_read"
  by (simp_all add: strict_source_def)

interpretation strict: sector_source strict_source "strict_lawful ss" strict_pos strict_bytes ss
proof unfold_locales
  fix d n
  assume l: "strict_lawful ss d" and al: "ss dvd strict_pos d" "ss dvd n"
  let ?k = "min n (length (strict_bytes d) - strict_pos d)"
  have "ss dvd ?k" using l al by (auto simp: strict_lawful_def min_def dvd_diff_nat)
  then show "\<exists>k s'. do_read strict_source d n = (Ok (slice (strict_bytes d) (strict_pos d) k), s')
      \<and> strict_lawful ss s' \<and> ss dvd k \<and> k \<le> n \<and> k \<le> length (strict_bytes d) - strict_pos d
      \<and> strict_pos s' = strict_pos d + k \<and> strict_bytes s' = strict_bytes d
      \<and> (k = 0 \<longrightarrow> n = 0 \<or> length (strict_bytes d) \<le> strict_pos d)"
    using l al
    by (intro exI [of _ ?k])
      (auto simp: strict_read_def strict_lawful_def cursor_read_def Let_def slice_min_length)
qed (auto simp: strict_lawful_def strict_seek_def cursor_seek_def)

interpretation strict_reader: byte_source "sector_reader_source strict_source"
  "sector_inv (strict_lawful ss) strict_bytes ss" sr_position "sector_content strict_bytes"
  by (rule strict.sector_byte_source)

text \<open>
  C9: over any device that serves aligned requests only, the adapter answers a request for any
  byte range with exactly the device's bytes, and a range that crosses the declared length with
  an end of file. In particular it never makes an unaligned request, which the device would be
  free to refuse.
\<close>

theorem sector_reader_serves_any_range:
  assumes "sector_source src lawful pos content ss" and "sector_inv lawful content ss r"
    and "p < 2 ^ 63"
  shows "fst (read_exact_from (sector_reader_source src) r p n) =
    (if n = 0 \<or> p + n \<le> sr_length r then Ok (slice (content (sr_inner r)) p n)
     else Err UnexpectedEof)"
  using sector_source.read_exact_any_range [OF assms] .

definition demo_device :: strict_device where
  "demo_device = \<lparr>sd_inner = demo_disk, sd_sector_size = 4\<rparr>"

definition demo_sector_reader :: "strict_device sector_reader" where
  "demo_sector_reader =
     \<lparr>sr_inner = demo_device, sr_length = 8, sr_position = 0, sector_size = 4,
      sector = [0, 0, 0, 0], cached_sector = None\<rparr>"

lemma demo_sector_reader_new: "sector_new demo_device 8 4 = Ok demo_sector_reader"
proof -
  have "replicate 4 (0 :: u8) = [0, 0, 0, 0]" by (simp add: numeral_eq_Suc)
  moreover have "is_power_of_two 4" by (auto simp: is_power_of_two_def image_iff intro!: bexI [of _ 2])
  ultimately show ?thesis by (simp add: sector_new_def demo_sector_reader_def)
qed

lemma length_demo_device: "length (strict_bytes demo_device) = 8"
  by (simp add: demo_device_def demo_disk_def)

lemma demo_device_lawful: "strict_lawful 4 demo_device"
  unfolding strict_lawful_def length_demo_device by (simp add: demo_device_def)

lemma demo_sector_reader_inv: "sector_inv (strict_lawful 4) strict_bytes 4 demo_sector_reader"
  using demo_device_lawful length_demo_device by (simp add: sector_inv_def demo_sector_reader_def)

theorem sector_reader_serves_any_range_witness:
  "fst (read_exact_from (sector_reader_source strict_source) demo_sector_reader 3 4)
     = Ok [13, 14, 15, 16]
   \<and> fst (read_exact_from (sector_reader_source strict_source) demo_sector_reader 6 3)
     = Err UnexpectedEof"
  using sector_reader_serves_any_range [OF strict.sector_source_axioms demo_sector_reader_inv, of 3 4]
    sector_reader_serves_any_range [OF strict.sector_source_axioms demo_sector_reader_inv, of 6 3]
  by (simp add: demo_sector_reader_def demo_device_def demo_disk_def slice_def)

text \<open>The stack of a sector reader over a partition reader, as a reader of the partition's bytes.\<close>

lemma partition_stack:
  assumes dev: "sector_source src lawful pos content ss" and dl: "lawful dev"
    and al: "ss dvd base" "ss dvd sz" and within: "base + sz \<le> length (content dev)"
    and new: "sector_new (partition_new dev base sz) sz ss = Ok r"
  defines "part \<equiv> \<lambda>r. partition_inv lawful pos r \<and> ss dvd base_offset r \<and> ss dvd pr_size r"
  shows "sector_inv part (partition_content content) ss r"
    and "sr_length r = sz" and "sr_inner r = partition_new dev base sz"
    and "partition_content content (sr_inner r) = slice (content dev) base sz"
    and "sector_content (partition_content content) r = slice (content dev) base sz"
proof -
  let ?w = "partition_new dev base sz"
  have fields: "base_offset ?w = base" "pr_size ?w = sz" "pr_inner ?w = dev"
    by (simp_all add: partition_new_def)
  have pc: "partition_content content ?w = slice (content dev) base sz"
    by (simp add: partition_content_def fields)
  have "base + sz < 2 ^ 63"
    using within sector_source.content_sectors [OF dev dl] by linarith
  then have "part ?w"
    using dl al by (simp add: part_def partition_new_inv fields)
  then show "sector_inv part (partition_content content) ss r"
    using new al(2) within pc
    by (auto simp: sector_new_def sector_inv_def split: if_splits)
  show r: "sr_length r = sz" "sr_inner r = ?w"
    using new by (auto simp: sector_new_def split: if_splits)
  show "partition_content content (sr_inner r) = slice (content dev) base sz" using pc r by simp
  then show "sector_content (partition_content content) r = slice (content dev) base sz"
    using r(1) by (simp add: sector_content_def slice_def)
qed

text \<open>
  C2: the stack the program mounts a device partition through, a sector reader over a partition
  reader over the raw device, serves the device's bytes at the partition's offset for any byte
  range, provided the partition starts and ends at sector boundaries and lies on the device.
\<close>

theorem device_partition_stack:
  assumes dev: "sector_source src lawful pos content ss" and dl: "lawful dev"
    and al: "ss dvd base" "ss dvd sz" and within: "base + sz \<le> length (content dev)"
    and new: "sector_new (partition_new dev base sz) sz ss = Ok r" and p: "p < 2 ^ 63"
  shows "fst (read_exact_from (sector_reader_source (partition_source src)) r p n) =
    (if n = 0 \<or> p + n \<le> sz then Ok (slice (content dev) (base + p) n) else Err UnexpectedEof)"
  using sector_source.read_exact_any_range [OF sector_source.partition_sector_source [OF dev]
      partition_stack(1) [OF dev dl al within new] p, of n]
  by (auto simp: partition_stack(2,4) [OF dev dl al within new] slice_slice)

theorem device_partition_stack_witness:
  "\<exists>r. sector_new (partition_new demo_device 4 4) 4 4 = Ok r
     \<and> fst (read_exact_from (sector_reader_source (partition_source strict_source)) r 1 2) = Ok [15, 16]"
proof -
  obtain r where r: "sector_new (partition_new demo_device 4 4) 4 4 = Ok r"
    using demo_sector_reader_new by (auto simp: sector_new_def split: if_splits)
  have "4 dvd (4 :: nat)" and len: "4 + 4 \<le> length (strict_bytes demo_device)"
    by (simp_all add: length_demo_device)
  from device_partition_stack [OF strict.sector_source_axioms demo_device_lawful this(1) this(1) len r, of 1 2]
  have "fst (read_exact_from (sector_reader_source (partition_source strict_source)) r 1 2) = Ok [15, 16]"
    by (simp add: demo_device_def demo_disk_def slice_def)
  with r show ?thesis by blast
qed


section \<open>A read that fails after its head\<close>

context sector_source
begin

text \<open>A sector other than the unreadable one is loaded as from a healthy device.\<close>

lemma load_sector_bad:
  assumes inv: "sector_inv lawful content ss r" and al: "ss dvd p" "p + ss \<le> sr_length r" and "p \<noteq> q"
  shows "load_sector (bad_sector src pos q e) r p = load_sector src r p"
proof -
  note b = sector_inv_bounds [OF inv]
  have l: "lawful (sr_inner r)" "p < 2 ^ 63" "p + ss \<le> length (content (sr_inner r))" "length (sector r) = ss"
    using inv al b by (auto simp: sector_inv_def)
  obtain s where s: "do_seek src (sr_inner r) (Start p) = (Ok p, s)" "lawful s" "pos s = p" "content s = content (sr_inner r)"
    using seek_sector [OF l(1) al(1) l(2)] by blast
  obtain k s' where k: "do_read src s ss = (Ok (slice (content s) p k), s')" "ss dvd k" "k \<le> ss"
      "k \<le> length (content s) - p" "k = 0 \<longrightarrow> ss = 0 \<or> length (content s) \<le> p"
    using read_sectors [OF s(2), of ss] s(3) al(1) by auto
  have "k = ss" using k(2,3,5) b(1) l(3) s(4) by (auto dest: dvd_imp_le)
  then have "length (slice (content s) p k) = ss" using k(4) by simp
  then have "read_exact src' s ss = (Ok (slice (content s) p k), s')"
    if "do_read src' s ss = (Ok (slice (content s) p k), s')" for src' :: "'s source"
    using that b(1) by (intro read_exact_whole)
  from this [of src] this [of "bad_sector src pos q e"] show ?thesis
    using s k(1) assms(4) l(4)
    by (cases "p + sector_size r < 2 ^ 64")
      (simp_all add: load_sector_def read_exact_from_def Let_def checked_add64_def)
qed

lemma read_head_bad:
  assumes inv: "sector_inv lawful content ss r" and "sr_position r < sr_length r"
    and "sr_position r - sr_position r mod ss \<noteq> q"
  shows "read_head (bad_sector src pos q e) wanted r = read_head src wanted r"
proof -
  have "sector_size r = ss" using inv by (simp add: sector_inv_def)
  moreover have "sr_position r - sr_position r mod ss + ss \<le> sr_length r"
    by (rule aligned_room [OF sector_inv_bounds(3) [OF inv] assms(2)])
  ultimately show ?thesis
    using load_sector_bad [OF inv dvd_minus_mod _ assms(3)] by (simp add: read_head_def Let_def)
qed

lemma sector_read_fails_after_head:
  assumes inv: "sector_inv lawful content ss r" and off: "sr_position r mod ss \<noteq> 0"
    and q: "q = sr_position r - sr_position r mod ss + ss"
    and room: "q + ss \<le> sr_length r" "q + ss \<le> sr_position r + n" and e: "e \<noteq> Interrupted"
  shows "\<exists>r'. sector_read (bad_sector src pos q e) r n = (Err e, r') \<and> advanced (q - sr_position r) r r'"
proof -
  let ?p = "sr_position r"
  define w where "w = min (sr_length r - sr_position r) n"
  note b = sector_inv_bounds [OF inv]
  have lt: "?p mod ss < ss" "?p mod ss \<le> ?p" using b(1) by simp_all
  moreover have "p < p - h + ss \<and> p - h + ss \<le> p + ss \<and> p - h + ss - p = ss - h" if "h < ss" "h \<le> p" for p h
    using that by auto
  ultimately have pq: "?p < q" "q \<le> ?p + ss" "q - ?p = ss - ?p mod ss" unfolding q by blast+
  then have w: "?p < sr_length r" "q + ss \<le> ?p + w" "q - ?p \<le> w" "0 < w" "?p + w \<le> sr_length r"
    using room by (auto simp: w_def min_def)
  obtain k r1 where h: "read_head src w r = (Ok (slice (content (sr_inner r)) ?p k), r1)" "advanced k r r1"
      "k = min (ss - ?p mod ss) w"
    using read_head_ok [OF inv w(1,4,5)] off by blast
  moreover have k: "k = q - ?p" using h(3) pq(3) w(3) by simp
  ultimately have h: "read_head src w r = (Ok (slice (content (sr_inner r)) ?p (q - ?p)), r1)"
      "advanced (q - ?p) r r1" by simp_all
  then have i1: "sector_inv lawful content ss r1" "sr_position r1 = q" "sector_size r1 = ss" "lawful (sr_inner r1)"
    using pq(1) by (auto simp: advanced_def sector_inv_def)
  have ne: "?p - ?p mod ss \<noteq> q" using pq(1) by (metis diff_le_self not_le)
  have head: "read_head (bad_sector src pos q e) w r = (Ok (slice (content (sr_inner r)) ?p (q - ?p)), r1)"
    using read_head_bad [OF inv w(1) ne, of e w] h(1) by simp
  have "ss dvd q" unfolding q by (intro dvd_add dvd_minus_mod dvd_refl)
  moreover have "q < 2 ^ 63" using room b(2) by linarith
  ultimately obtain s where s: "do_seek src (sr_inner r1) (Start q) = (Ok q, s)" "lawful s" "pos s = q"
      "content s = content (sr_inner r1)"
    using seek_sector [OF i1(4)] by blast
  let ?m = "(w - (q - ?p)) - (w - (q - ?p)) mod ss"
  have "ss \<le> w - (q - ?p)" using pq(1) w(2) by linarith
  then have "0 < ?m" using b(1) by (metis div_greater_zero_iff minus_mod_eq_mult_div nat_0_less_mult_iff)
  then have "read_exact (bad_sector src pos q e) s ?m = (Err e, s)"
    using e s(3) by (intro read_exact_fails) simp_all
  then have "read_middle (bad_sector src pos q e) ?m r1 = (Err e, r1\<lparr>sr_inner := s\<rparr>)"
    using s(1) i1(2) \<open>0 < ?m\<close> by (simp add: read_middle_def read_exact_from_def)
  moreover have "length (slice (content (sr_inner r)) ?p (q - ?p)) = q - ?p"
    using inv room b(1) by (auto simp: sector_inv_def)
  ultimately have "sector_read (bad_sector src pos q e) r n = (Err e, r1\<lparr>sr_inner := s\<rparr>)"
    using head i1(3) w(1) pq(1) room b(1) by (simp add: sector_read_def Let_def flip: w_def)
  moreover have "advanced (q - ?p) r (r1\<lparr>sr_inner := s\<rparr>)"
    using h(2) s by (auto simp: advanced_def sector_inv_def)
  ultimately show ?thesis by blast
qed

end



end
