(* ===== verification/Ranges.thy ===== *)
theory Ranges
  imports Prelude
begin

text \<open>
  \<open>Ranges\<close> of \<open>fsmnt-device/src/tolerant_reader.rs\<close>: the coalesced set of half-open byte ranges
  a report is made from. The ordered map of the source is the list of its entries in key order.
  The abstraction is the set of bytes covered; the invariant is that entries are nonempty, in
  order and do not touch, so that every byte is counted once.
\<close>

type_synonym ranges = "(nat \<times> nat) list"

section \<open>The ordered map\<close>

text \<open>\<open>range(..=k).next_back()\<close> and \<open>range(k..).next()\<close>.\<close>

definition last_upto :: "nat \<Rightarrow> ranges \<Rightarrow> (nat \<times> nat) option" where
  "last_upto k m = (case filter (\<lambda>e. fst e \<le> k) m of [] \<Rightarrow> None | x # xs \<Rightarrow> Some (last (x # xs)))"

definition first_from :: "nat \<Rightarrow> ranges \<Rightarrow> (nat \<times> nat) option" where
  "first_from k m = (case filter (\<lambda>e. k \<le> fst e) m of [] \<Rightarrow> None | x # xs \<Rightarrow> Some x)"

definition map_remove :: "nat \<Rightarrow> ranges \<Rightarrow> ranges" where
  "map_remove k m = filter (\<lambda>e. fst e \<noteq> k) m"

definition map_insert :: "nat \<Rightarrow> nat \<Rightarrow> ranges \<Rightarrow> ranges" where
  "map_insert k v m = filter (\<lambda>e. fst e < k) m @ (k, v) # filter (\<lambda>e. k < fst e) m"

lemma first_from_in_set: "first_from k m = Some (a, b) \<Longrightarrow> (a, b) \<in> set m \<and> k \<le> a"
  by (auto simp: first_from_def split: list.splits dest: filter_eq_ConsD)

lemma map_remove_shorter: "(a, b) \<in> set m \<Longrightarrow> length (map_remove a m) < length m"
  unfolding map_remove_def by (rule length_filter_less) auto


section \<open>Adding a range\<close>

text \<open>Absorb every successor the range reaches, which may make it reach further.\<close>

function absorb_successors :: "nat \<Rightarrow> nat \<Rightarrow> ranges \<Rightarrow> nat \<times> ranges" where
  "absorb_successors start stop m =
     (case first_from start m of
        Some (next_start, next_end) \<Rightarrow>
          (if next_start \<le> stop
           then absorb_successors start (max stop next_end) (map_remove next_start m)
           else (stop, m))
      | None \<Rightarrow> (stop, m))"
  by pat_completeness auto
termination
  by (relation "measure (\<lambda>(start, stop, m). length m)")
    (auto dest!: first_from_in_set intro: map_remove_shorter)

declare absorb_successors.simps [simp del]

definition ranges_add :: "ranges \<Rightarrow> nat \<Rightarrow> nat \<Rightarrow> ranges" where
  "ranges_add m start stop =
     (if stop \<le> start then m
      else
        let (start, stop, m) =
          (case last_upto start m of
             Some (prev_start, prev_end) \<Rightarrow>
               (if start \<le> prev_end then (prev_start, max stop prev_end, map_remove prev_start m)
                else (start, stop, m))
           | None \<Rightarrow> (start, stop, m));
          (stop, m) = absorb_successors start stop m
        in map_insert start stop m)"

definition ranges_total :: "ranges \<Rightarrow> nat" where
  "ranges_total m = sum_list (map (\<lambda>(s, e). e - s) m)"


section \<open>The set of bytes covered\<close>

definition covered :: "ranges \<Rightarrow> nat set" where
  "covered m = (\<Union>(s, e) \<in> set m. {s..<e})"

definition ranges_inv :: "ranges \<Rightarrow> bool" where
  "ranges_inv m \<longleftrightarrow> sorted_wrt (\<lambda>x y. snd x < fst y) m \<and> (\<forall>x \<in> set m. fst x < snd x)"

lemma covered_simps [simp]:
  "covered [] = {}"
  "covered (x # m) = {fst x..<snd x} \<union> covered m"
  "covered (m @ m') = covered m \<union> covered m'"
  by (auto simp: covered_def)

lemma finite_covered [simp]: "finite (covered m)"
  by (induction m) auto

lemma ranges_inv_Nil [simp]: "ranges_inv []"
  by (simp add: ranges_inv_def)

lemma ranges_inv_Cons:
  "ranges_inv (x # m) \<longleftrightarrow> fst x < snd x \<and> (\<forall>y \<in> set m. snd x < fst y) \<and> ranges_inv m"
  by (auto simp: ranges_inv_def)

lemma ranges_inv_append:
  "ranges_inv (m @ m') \<longleftrightarrow>
     ranges_inv m \<and> ranges_inv m' \<and> (\<forall>x \<in> set m. \<forall>y \<in> set m'. snd x < fst y)"
  by (auto simp: ranges_inv_def sorted_wrt_append)

text \<open>Every byte is counted once.\<close>

lemma ranges_total_card: "ranges_inv m \<Longrightarrow> ranges_total m = card (covered m)"
proof (induction m)
  case (Cons x m)
  then have "\<forall>y \<in> set m. snd x < fst y" and i: "ranges_inv m" by (auto simp: ranges_inv_Cons)
  then have "{fst x..<snd x} \<inter> covered m = {}" by (fastforce simp: covered_def)
  then have "card (covered (x # m)) = snd x - fst x + card (covered m)"
    by (simp add: card_Un_disjoint)
  with Cons.IH [OF i] show ?case by (cases x) (simp add: ranges_total_def)
qed (simp add: ranges_total_def)

text \<open>
  The entries at or after the start of the range are the tail of the list, and absorbing walks
  down that tail.
\<close>

fun absorb_list :: "nat \<Rightarrow> ranges \<Rightarrow> nat \<times> ranges" where
  "absorb_list stop [] = (stop, [])"
| "absorb_list stop ((a, b) # m) = (if a \<le> stop then absorb_list (max stop b) m else (stop, (a, b) # m))"

lemma absorb_successors_list:
  assumes "ranges_inv post" and "\<forall>x \<in> set pre. fst x < start" and "\<forall>x \<in> set post. start \<le> fst x"
  shows "absorb_successors start stop (pre @ post) = apsnd ((@) pre) (absorb_list stop post)"
  using assms
proof (induction stop post rule: absorb_list.induct)
  case (1 stop)
  then have "filter (\<lambda>e. start \<le> fst e) (pre @ []) = []" by (auto simp: filter_empty_conv)
  then have "first_from start (pre @ []) = None" by (simp add: first_from_def)
  then show ?case by (simp add: absorb_successors.simps [of start stop])
next
  case (2 stop a b m)
  have "filter (\<lambda>e. start \<le> fst e) pre = []" using "2.prems"(2) by (auto simp: filter_empty_conv)
  then have ff: "first_from start (pre @ (a, b) # m) = Some (a, b)"
    using "2.prems"(3) by (simp add: first_from_def)
  have "map_remove a pre = pre" "map_remove a m = m"
    using "2.prems" by (auto simp: map_remove_def ranges_inv_Cons intro!: filter_True)
  then have "map_remove a (pre @ (a, b) # m) = pre @ m" by (simp add: map_remove_def)
  with ff "2.IH" "2.prems" show ?case
    by (subst absorb_successors.simps) (auto simp: ranges_inv_Cons)
qed

lemma absorb_list_props:
  assumes "absorb_list stop m = (stop', m')" and "ranges_inv m" and "start < stop"
    and "\<forall>x \<in> set m. start \<le> fst x"
  shows "stop \<le> stop' \<and> ranges_inv ((start, stop') # m')
    \<and> {start..<stop'} \<union> covered m' = {start..<stop} \<union> covered m"
  using assms
proof (induction stop m arbitrary: stop' m' rule: absorb_list.induct)
  case (1 stop)
  then show ?case by (simp add: ranges_inv_Cons)
next
  case (2 stop a b m)
  show ?case
  proof (cases "a \<le> stop")
    case True
    with "2.prems" have ih: "max stop b \<le> stop' \<and> ranges_inv ((start, stop') # m')
        \<and> {start..<stop'} \<union> covered m' = {start..<max stop b} \<union> covered m"
      by (intro "2.IH") (auto simp: ranges_inv_Cons)
    have "{start..<max stop b} = {start..<stop} \<union> {a..<b}"
      using True "2.prems"(3,4) by (auto simp: max_def)
    with ih show ?thesis by (auto simp: max_def split: if_splits)
  next
    case False
    with "2.prems" show ?thesis by (fastforce simp: ranges_inv_Cons)
  qed
qed

text \<open>Absorbing and inserting, for a range that touches no entry before it.\<close>

lemma absorb_insert:
  assumes inv: "ranges_inv (pre @ post)" and pre: "\<forall>x \<in> set pre. snd x < start"
    and post: "\<forall>x \<in> set post. start \<le> fst x" and lt: "start < stop"
    and eq: "absorb_successors start stop (pre @ post) = (stop', m')"
  shows "ranges_inv (map_insert start stop' m')
    \<and> covered (map_insert start stop' m') = {start..<stop} \<union> covered (pre @ post)"
proof -
  have i: "ranges_inv pre" "ranges_inv post" using inv by (auto simp: ranges_inv_append)
  have pre': "\<forall>x \<in> set pre. fst x < start"
    using pre i(1) by (fastforce simp: ranges_inv_def)
  obtain post' where al: "absorb_list stop post = (stop', post')" and m': "m' = pre @ post'"
    using eq absorb_successors_list [OF i(2) pre' post, of stop]
    by (cases "absorb_list stop post") auto
  note p = absorb_list_props [OF al i(2) lt post]
  have gt: "\<forall>x \<in> set post'. start < fst x"
    using p lt by (fastforce simp: ranges_inv_Cons)
  have "filter (\<lambda>e. fst e < start) m' = pre" "filter (\<lambda>e. start < fst e) m' = post'"
    using pre' gt by (auto simp: m' filter_empty_conv intro!: filter_True)
  then have mi: "map_insert start stop' m' = pre @ (start, stop') # post'"
    by (simp add: map_insert_def)
  have "\<forall>x \<in> set pre. \<forall>y \<in> set ((start, stop') # post'). snd x < fst y"
    using pre gt by fastforce
  with p i(1) show ?thesis by (auto simp: mi ranges_inv_append)
qed

lemma ranges_inv_split:
  assumes "ranges_inv m"
  obtains pre post where "m = pre @ post" "\<forall>x \<in> set pre. fst x \<le> k" "\<forall>x \<in> set post. k < fst x"
proof -
  have "sorted_wrt (\<lambda>x y. fst x < fst y) m"
    using assms by (fastforce simp: ranges_inv_def elim!: sorted_wrt_mono_rel [rotated] intro: less_trans)
  then have "\<exists>pre post. m = pre @ post \<and> (\<forall>x \<in> set pre. fst x \<le> k) \<and> (\<forall>x \<in> set post. k < fst x)"
  proof (induction m)
    case (Cons x m)
    show ?case
    proof (cases "fst x \<le> k")
      case True
      with Cons obtain pre post where "m = pre @ post" "\<forall>x \<in> set pre. fst x \<le> k"
        "\<forall>x \<in> set post. k < fst x" by auto
      with True show ?thesis by (intro exI [of _ "x # pre"] exI [of _ post]) auto
    next
      case False
      with Cons.prems show ?thesis by (intro exI [of _ "[]"] exI [of _ "x # m"]) fastforce
    qed
  qed auto
  with that show ?thesis by blast
qed

theorem ranges_add_correct:
  assumes inv: "ranges_inv m"
  shows "ranges_inv (ranges_add m start stop)
    \<and> covered (ranges_add m start stop) = covered m \<union> {start..<stop}"
proof (cases "stop \<le> start")
  case True
  with inv show ?thesis by (simp add: ranges_add_def)
next
  case False
  obtain pre post where m: "m = pre @ post" and pre: "\<forall>x \<in> set pre. fst x \<le> start"
    and post: "\<forall>x \<in> set post. start < fst x"
    using ranges_inv_split [OF inv] by blast
  have fl: "filter (\<lambda>e. fst e \<le> start) m = pre"
    using pre post by (auto simp: m filter_empty_conv intro!: filter_True)
  show ?thesis
  proof (cases pre rule: rev_cases)
    case Nil
    then have "last_upto start m = None" using fl by (simp add: last_upto_def)
    moreover obtain stop' m' where eq: "absorb_successors start stop m = (stop', m')" by fastforce
    ultimately have "ranges_add m start stop = map_insert start stop' m'"
      using False by (simp add: ranges_add_def)
    with absorb_insert [of "[]" post start stop stop' m'] inv post eq m Nil False show ?thesis
      by (auto simp: less_imp_le)
  next
    case (snoc pre' y)
    obtain ps pe where y: "y = (ps, pe)" by fastforce
    have lu: "last_upto start m = Some (ps, pe)"
      unfolding last_upto_def fl snoc y by (cases pre') auto
    have i: "ranges_inv (pre' @ (ps, pe) # post)" using inv m snoc y by simp
    then have bnd: "\<forall>x \<in> set pre'. snd x < ps" "ps < pe" "\<forall>x \<in> set post. pe < fst x"
      by (auto simp: ranges_inv_append ranges_inv_Cons)
    show ?thesis
    proof (cases "start \<le> pe")
      case True
      have "map_remove ps m = pre' @ post"
      proof -
        have "\<forall>x \<in> set pre'. fst x < snd x" using i by (auto simp: ranges_inv_append ranges_inv_def)
        then have "\<forall>x \<in> set pre'. fst x \<noteq> ps" "\<forall>x \<in> set post. fst x \<noteq> ps"
          using bnd by fastforce+
        then show ?thesis by (auto simp: map_remove_def m snoc y intro!: filter_True)
      qed
      moreover obtain stop' m' where
        eq: "absorb_successors ps (max stop pe) (pre' @ post) = (stop', m')" by fastforce
      ultimately have "ranges_add m start stop = map_insert ps stop' m'"
        using False lu True by (simp add: ranges_add_def)
      moreover have "ranges_inv (pre' @ post)" using i by (auto simp: ranges_inv_append ranges_inv_Cons)
      moreover have "\<forall>x \<in> set post. ps \<le> fst x" "ps < max stop pe" using bnd by fastforce+
      ultimately have "ranges_inv (ranges_add m start stop)
          \<and> covered (ranges_add m start stop) = {ps..<max stop pe} \<union> covered (pre' @ post)"
        using absorb_insert [of pre' post ps "max stop pe" stop' m'] bnd(1) eq by simp
      moreover have "ps \<le> start" using pre snoc y by simp
      then have "{ps..<max stop pe} = {ps..<pe} \<union> {start..<stop}" using True bnd False by auto
      ultimately show ?thesis by (auto simp: m snoc y)
    next
      case False': False
      obtain stop' m' where eq: "absorb_successors start stop m = (stop', m')" by fastforce
      have "ranges_add m start stop = map_insert start stop' m'"
        using False lu False' eq by (simp add: ranges_add_def)
      moreover have "\<forall>x \<in> set pre. snd x < start"
        using bnd False' snoc y i by (fastforce simp: ranges_inv_append)
      ultimately show ?thesis
        using absorb_insert [of pre post start stop stop' m'] inv post eq m False
        by (auto simp: less_imp_le)
    qed
  qed
qed

end
