(* ===== verification/Leading_Gap_Reader.thy ===== *)
theory Leading_Gap_Reader
  imports Byte_Source
begin

text \<open>
  \<open>fsmnt-device/src/leading_gap_reader.rs\<close>: a volume whose first bytes the medium never
  carried. Over a lawful reader it is a medium that fails reads of the absent head, and only
  those, with the marker \<open>AbsentHead\<close>.
\<close>

record 's gap_reader =
  gr_inner :: 's
  gap :: nat
  gr_inner_len :: nat
  gr_position :: nat

definition gap_new :: "'s source \<Rightarrow> 's \<Rightarrow> nat \<Rightarrow> ('s gap_reader, io_error) outcome" where
  "gap_new src inner g =
     (case do_seek src inner (End 0) of (r, inner) \<Rightarrow>
        and_then r (\<lambda>inner_len.
          case do_seek src inner (Start 0) of (r, inner) \<Rightarrow>
            and_then r (\<lambda>_.
              Ok \<lparr>gr_inner = inner, gap = g, gr_inner_len = inner_len, gr_position = 0\<rparr>)))"

definition gap_len :: "'s gap_reader \<Rightarrow> nat" where
  "gap_len r = saturating_add64 (gap r) (gr_inner_len r)"

definition gap_read ::
  "'s source \<Rightarrow> 's gap_reader \<Rightarrow> nat \<Rightarrow> (bytes, io_error) outcome \<times> 's gap_reader" where
  "gap_read src r n =
     (let total = gap_len r
      in if n = 0 \<or> total \<le> gr_position r then (Ok [], r)
         else
           let want = min (total - gr_position r) n
           in if gr_position r < gap r
              then (Err (Absent (AbsentHead (gap r) (gr_position r) want)), r)
              else
                and_do (apsnd (\<lambda>s. r\<lparr>gr_inner := s\<rparr>)
                  (do_seek src (gr_inner r) (Start (gr_position r - gap r)))) (\<lambda>_ r.
                and_do (apsnd (\<lambda>s. r\<lparr>gr_inner := s\<rparr>) (do_read src (gr_inner r) want)) (\<lambda>bs r.
                  (Ok bs, r\<lparr>gr_position := gr_position r + length bs\<rparr>))))"

definition gap_seek ::
  "'s gap_reader \<Rightarrow> seek_from \<Rightarrow> (nat, io_error) outcome \<times> 's gap_reader" where
  "gap_seek r w =
     (case (case w of Start p \<Rightarrow> Some p
            | Current d \<Rightarrow> checked_add_signed64 (gr_position r) d
            | End d \<Rightarrow> checked_add_signed64 (gap_len r) d) of
        None \<Rightarrow> (Err InvalidInput, r)
      | Some new \<Rightarrow> (Ok new, r\<lparr>gr_position := new\<rparr>))"

definition gap_source :: "'s source \<Rightarrow> 's gap_reader source" where
  "gap_source src = \<lparr>do_seek = gap_seek, do_read = gap_read src\<rparr>"

lemma gap_source_ops [simp]:
  "do_seek (gap_source src) = gap_seek" "do_read (gap_source src) = gap_read src"
  by (simp_all add: gap_source_def)


section \<open>The volume\<close>

text \<open>
  The volume's bytes: the absent head, for which any value will do since no read returns it,
  and the medium.
\<close>

definition gap_content :: "('s \<Rightarrow> bytes) \<Rightarrow> 's gap_reader \<Rightarrow> bytes" where
  "gap_content content r = replicate (gap r) 0 @ content (gr_inner r)"

definition gap_inv :: "('s \<Rightarrow> bool) \<Rightarrow> ('s \<Rightarrow> bytes) \<Rightarrow> 's gap_reader \<Rightarrow> bool" where
  "gap_inv lawful content r \<longleftrightarrow>
     lawful (gr_inner r) \<and> gr_inner_len r = length (content (gr_inner r))
     \<and> gap r + gr_inner_len r < 2 ^ 63"

lemma gap_len_inv: "gap_inv lawful content r \<Longrightarrow> gap_len r = length (gap_content content r)"
  by (simp add: gap_inv_def gap_len_def gap_content_def saturating_add64_def)

lemma gap_inv_update [simp]:
  "gap_inv lawful content (r\<lparr>gr_position := p\<rparr>) = gap_inv lawful content r"
  by (simp add: gap_inv_def)

lemma slice_gap_content:
  "gap r \<le> p \<Longrightarrow> slice (gap_content content r) p n = slice (content (gr_inner r)) (p - gap r) n"
  by (simp add: gap_content_def slice_def)

context byte_source
begin

lemma gap_new_ok:
  assumes "lawful s" and "g + length (content s) < 2 ^ 63"
  shows "\<exists>r. gap_new src s g = Ok r \<and> gap_inv lawful content r \<and> gap r = g
    \<and> content (gr_inner r) = content s \<and> gr_position r = 0"
proof -
  from seek_end [OF assms(1)] obtain s1 where s1: "do_seek src s (End 0) = (Ok (length (content s)), s1)"
    "lawful s1" "content s1 = content s" by blast
  from seek_start [OF s1(2), of 0] obtain s2 where
    "do_seek src s1 (Start 0) = (Ok 0, s2)" "lawful s2" "content s2 = content s1" by auto
  with s1 assms(2) show ?thesis by (simp add: gap_new_def gap_inv_def)
qed

text \<open>A read in the head fails whole, also where it reaches into the medium.\<close>

lemma gap_read_absent:
  assumes "gap_inv lawful content r" and "gr_position r < gap r" and "0 < n"
  shows "gap_read src r n = (Err (Absent (AbsentHead (gap r) (gr_position r)
    (min (length (gap_content content r) - gr_position r) n))), r)"
proof -
  have "gr_position r < length (gap_content content r)"
    using assms(2) by (simp add: gap_content_def)
  with assms show ?thesis by (simp add: gap_read_def gap_len_inv [OF assms(1)] Let_def)
qed

lemma gap_read_present:
  assumes inv: "gap_inv lawful content r" and "gap r \<le> gr_position r"
  shows "\<exists>k r'. gap_read src r n = (Ok (slice (gap_content content r) (gr_position r) k), r')
    \<and> gap_inv lawful content r' \<and> k \<le> n \<and> k \<le> length (gap_content content r) - gr_position r
    \<and> gr_position r' = gr_position r + k \<and> gap_content content r' = gap_content content r
    \<and> gap r' = gap r
    \<and> (k = 0 \<longrightarrow> n = 0 \<or> length (gap_content content r) \<le> gr_position r)"
proof (cases "n = 0 \<or> length (gap_content content r) \<le> gr_position r")
  case True
  with inv show ?thesis
    by (intro exI [of _ 0] exI [of _ r]) (auto simp: gap_read_def gap_len_inv [OF inv])
next
  case False
  let ?q = "gr_position r - gap r" and ?c = "content (gr_inner r)"
  let ?want = "min (length (gap_content content r) - gr_position r) n"
  have q: "?q < length ?c" "?q < 2 ^ 63" "lawful (gr_inner r)"
    using False inv assms(2) by (auto simp: gap_content_def gap_inv_def)
  have len: "length (gap_content content r) - gr_position r = length ?c - ?q"
    using assms(2) by (simp add: gap_content_def)
  from seek_start [OF q(3,2)] obtain s where
    s: "do_seek src (gr_inner r) (Start ?q) = (Ok ?q, s)" "lawful s" "pos s = ?q" "content s = ?c"
    by blast
  from read_prefix [OF s(2), of ?want] s obtain k s' where
    k: "do_read src s ?want = (Ok (slice ?c ?q k), s')" "lawful s'" "k \<le> ?want"
      "k \<le> length ?c - ?q" "content s' = ?c" "k = 0 \<longrightarrow> ?want = 0 \<or> length ?c \<le> ?q"
    by auto
  have "length (slice ?c ?q k) = k" using k(4) by simp
  then have "gap_read src r n = (Ok (slice ?c ?q k),
      r\<lparr>gr_inner := s', gr_position := gr_position r + k\<rparr>)"
    using s(1) k(1) False assms(2) by (simp add: gap_read_def gap_len_inv [OF inv] Let_def)
  moreover have "gap_inv lawful content (r\<lparr>gr_inner := s', gr_position := gr_position r + k\<rparr>)"
    using inv k by (simp add: gap_inv_def)
  moreover have "gap_content content (r\<lparr>gr_inner := s', gr_position := gr_position r + k\<rparr>)
      = gap_content content r"
    using k by (simp add: gap_content_def)
  moreover have "0 < k" using k(6) q(1) len False by auto
  ultimately show ?thesis
    using k len
    by (intro exI [of _ k] exI [of _ "r\<lparr>gr_inner := s', gr_position := gr_position r + k\<rparr>"])
      (simp add: slice_gap_content [OF assms(2)])
qed

lemma gap_faulty_source:
  "faulty_source (gap_source src) (gap_inv lawful content) gr_position (gap_content content)"
proof unfold_locales
  fix r :: "'s gap_reader" and n
  assume inv: "gap_inv lawful content r"
  show "\<exists>x r'. do_read (gap_source src) r n = (x, r') \<and> gap_inv lawful content r'
      \<and> gap_content content r' = gap_content content r
      \<and> ((\<exists>e. x = Err e)
        \<or> (\<exists>k. x = Ok (slice (gap_content content r) (gr_position r) k) \<and> k \<le> n
             \<and> k \<le> length (gap_content content r) - gr_position r
             \<and> (k = 0 \<longrightarrow> n = 0 \<or> length (gap_content content r) \<le> gr_position r)))"
  proof (cases "gap r \<le> gr_position r")
    case True
    from gap_read_present [OF inv True, of n] show ?thesis by (elim exE) auto
  next
    case False
    show ?thesis
    proof (cases "n = 0")
      case True
      with inv show ?thesis
        by (intro exI [of _ "Ok []"] exI [of _ r]) (auto simp: gap_read_def intro: exI [of _ 0])
    next
      case False': False
      with gap_read_absent [OF inv, of n] inv False show ?thesis by simp
    qed
  qed
next
  fix r :: "'s gap_reader"
  assume "gap_inv lawful content r"
  then show "\<exists>r'. do_seek (gap_source src) r (End 0) = (Ok (length (gap_content content r)), r')
      \<and> gap_inv lawful content r' \<and> gap_content content r' = gap_content content r"
    by (auto simp: gap_seek_def gap_len_inv checked_add_signed64_def gap_content_def gap_inv_def)
qed (auto simp: gap_seek_def gap_inv_def gap_content_def)

end

interpretation gap_cursor: faulty_source "gap_source cursor_source" "gap_inv cursor_inv cur_bytes"
  gr_position "gap_content cur_bytes"
  by (rule cursor.gap_faulty_source)

end
