(* ===== verification/Tolerant_Reader.thy ===== *)
theory Tolerant_Reader
  imports Ranges Leading_Gap_Reader
begin

text \<open>
  \<open>fsmnt-device/src/tolerant_reader.rs\<close>: best-effort reads over damaged or truncated media.
  Zeros stand for what the source cannot give, and every substitution is reported. The contract
  of the medium is \<open>faulty_source\<close>: any read may fail, with any error.
\<close>

section \<open>The report\<close>

record read_substitutions =
  missing :: ranges
  errored :: ranges
  absent :: ranges
  read_errors :: nat

definition no_substitutions :: read_substitutions where
  "no_substitutions = \<lparr>missing = [], errored = [], absent = [], read_errors = 0\<rparr>"

datatype substituted = Missing | Errored | Absent_before

fun record_range :: "read_substitutions \<Rightarrow> substituted \<Rightarrow> nat \<Rightarrow> nat \<Rightarrow> read_substitutions" where
  "record_range st Missing a b = st\<lparr>missing := ranges_add (missing st) a b\<rparr>"
| "record_range st Errored a b = st\<lparr>errored := ranges_add (errored st) a b\<rparr>"
| "record_range st Absent_before a b = st\<lparr>absent := ranges_add (absent st) a b\<rparr>"

definition missing_bytes :: "read_substitutions \<Rightarrow> nat" where
  "missing_bytes st = ranges_total (missing st)"

definition errored_bytes :: "read_substitutions \<Rightarrow> nat" where
  "errored_bytes st = ranges_total (errored st)"

definition absent_bytes :: "read_substitutions \<Rightarrow> nat" where
  "absent_bytes st = ranges_total (absent st)"

definition any_substituted :: "read_substitutions \<Rightarrow> bool" where
  "any_substituted st \<longleftrightarrow> missing_bytes st > 0 \<or> errored_bytes st > 0 \<or> absent_bytes st > 0"

definition report_inv :: "read_substitutions \<Rightarrow> bool" where
  "report_inv st \<longleftrightarrow> ranges_inv (missing st) \<and> ranges_inv (errored st) \<and> ranges_inv (absent st)"

definition reported :: "read_substitutions \<Rightarrow> nat set" where
  "reported st = covered (missing st) \<union> covered (errored st) \<union> covered (absent st)"

lemma report_inv_no_substitutions [simp]: "report_inv no_substitutions"
  by (simp add: report_inv_def no_substitutions_def)

lemma record_range_inv:
  "report_inv st \<Longrightarrow> report_inv (record_range st why a b)"
  by (cases why) (simp_all add: report_inv_def ranges_add_correct)

lemma record_range_reported:
  "report_inv st \<Longrightarrow> reported (record_range st why a b) = reported st \<union> {a..<b}"
  by (cases why) (auto simp: report_inv_def reported_def ranges_add_correct)


section \<open>The reader\<close>

record 's tolerant_reader =
  tr_inner :: 's
  tr_inner_len :: nat
  tr_length :: nat
  tr_position :: nat
  tr_stats :: read_substitutions
  tr_substituted :: bool

definition error_zero_fill_granule :: nat where
  "error_zero_fill_granule = 512"

definition with_stats ::
  "'s source \<Rightarrow> 's \<Rightarrow> nat \<Rightarrow> read_substitutions \<Rightarrow> ('s tolerant_reader, io_error) outcome" where
  "with_stats src inner declared_length st =
     (case do_seek src inner (End 0) of (r, inner) \<Rightarrow>
        and_then r (\<lambda>inner_len.
          case do_seek src inner (Start 0) of (r, inner) \<Rightarrow>
            and_then r (\<lambda>_.
              Ok \<lparr>tr_inner = inner, tr_inner_len = inner_len,
                  tr_length = max declared_length inner_len, tr_position = 0,
                  tr_stats = st, tr_substituted = False\<rparr>)))"

definition tolerant_new :: "'s source \<Rightarrow> 's \<Rightarrow> nat \<Rightarrow> ('s tolerant_reader, io_error) outcome" where
  "tolerant_new src inner declared_length = with_stats src inner declared_length no_substitutions"

text \<open>The position after a substitution is at most \<open>length\<close>, so the sum does not overflow.\<close>

definition zero_fill :: "'s tolerant_reader \<Rightarrow> nat \<Rightarrow> substituted \<Rightarrow> bytes \<times> 's tolerant_reader" where
  "zero_fill r count why =
     (let fin = tr_position r + count
      in (replicate count 0,
          r\<lparr>tr_substituted := True, tr_stats := record_range (tr_stats r) why (tr_position r) fin,
            tr_position := fin\<rparr>))"

fun in_error :: "io_error \<Rightarrow> absent_head option" where
  "in_error (Absent h) = Some h"
| "in_error _ = None"

definition absent_prefix :: "'s tolerant_reader \<Rightarrow> io_error \<Rightarrow> nat \<Rightarrow> nat option" where
  "absent_prefix r e n =
     (case in_error e of None \<Rightarrow> None
      | Some h \<Rightarrow>
          (case checked_sub (ah_gap h) (tr_position r) of None \<Rightarrow> None
           | Some ab \<Rightarrow> (let count = min ab n in if count > 0 then Some count else None)))"

definition tolerant_read ::
  "'s source \<Rightarrow> 's tolerant_reader \<Rightarrow> nat \<Rightarrow> (bytes, io_error) outcome \<times> 's tolerant_reader" where
  "tolerant_read src r len =
     (if len = 0 \<or> tr_length r \<le> tr_position r then (Ok [], r)
      else
        let want = min (tr_length r - tr_position r) len
        in if tr_inner_len r \<le> tr_position r then apfst Ok (zero_fill r want Missing)
           else
             let n = min want (tr_inner_len r - tr_position r)
             in and_do (apsnd (\<lambda>s. r\<lparr>tr_inner := s\<rparr>)
                  (do_seek src (tr_inner r) (Start (tr_position r)))) (\<lambda>_ r.
                  case do_read src (tr_inner r) n of (res, s) \<Rightarrow>
                    let r = r\<lparr>tr_inner := s\<rparr>
                    in case res of
                         Ok bs \<Rightarrow>
                           (if bs = [] then apfst Ok (zero_fill (r\<lparr>tr_inner_len := tr_position r\<rparr>) n Missing)
                            else (Ok bs, r\<lparr>tr_position := tr_position r + length bs\<rparr>))
                       | Err e \<Rightarrow>
                           (if e = Interrupted then (Ok [], r)
                            else case absent_prefix r e n of
                              Some count \<Rightarrow> apfst Ok (zero_fill r count Absent_before)
                            | None \<Rightarrow>
                                apfst Ok (zero_fill
                                  (r\<lparr>tr_stats := (tr_stats r)\<lparr>read_errors :=
                                      (read_errors (tr_stats r) + 1) mod 2 ^ 64\<rparr>\<rparr>)
                                  (min error_zero_fill_granule n) Errored))
                       | Panic \<Rightarrow> (Panic, r)
                       | Diverge \<Rightarrow> (Diverge, r)))"

definition tolerant_seek ::
  "'s tolerant_reader \<Rightarrow> seek_from \<Rightarrow> (nat, io_error) outcome \<times> 's tolerant_reader" where
  "tolerant_seek r w =
     (case (case w of Start p \<Rightarrow> Some p
            | Current d \<Rightarrow> checked_add_signed64 (tr_position r) d
            | End d \<Rightarrow> checked_add_signed64 (tr_length r) d) of
        None \<Rightarrow> (Err InvalidInput, r)
      | Some new \<Rightarrow> (Ok new, r\<lparr>tr_position := new\<rparr>))"

definition tolerant_source :: "'s source \<Rightarrow> 's tolerant_reader source" where
  "tolerant_source src = \<lparr>do_seek = tolerant_seek, do_read = tolerant_read src\<rparr>"

lemma tolerant_source_ops [simp]:
  "do_seek (tolerant_source src) = tolerant_seek" "do_read (tolerant_source src) = tolerant_read src"
  by (simp_all add: tolerant_source_def)


section \<open>Honest reads\<close>

definition tolerant_inv :: "('s \<Rightarrow> bool) \<Rightarrow> ('s \<Rightarrow> bytes) \<Rightarrow> 's tolerant_reader \<Rightarrow> bool" where
  "tolerant_inv lawful content r \<longleftrightarrow>
     lawful (tr_inner r) \<and> tr_inner_len r = length (content (tr_inner r))
     \<and> tr_inner_len r \<le> tr_length r \<and> report_inv (tr_stats r)"

text \<open>
  Bytes served from position \<open>p\<close>: each is the medium's byte, or a zero at a position in the
  report.
\<close>

definition honest :: "bytes \<Rightarrow> nat \<Rightarrow> bytes \<Rightarrow> nat set \<Rightarrow> bool" where
  "honest c p bs rep \<longleftrightarrow>
     (\<forall>i < length bs. p + i < length c \<and> bs ! i = c ! (p + i) \<or> bs ! i = 0 \<and> p + i \<in> rep)"

lemma honest_slice: "k \<le> length c - p \<Longrightarrow> honest c p (slice c p k) rep"
  by (auto simp: honest_def)

lemma honest_zeros: "{p..<p + k} \<subseteq> rep \<Longrightarrow> honest c p (replicate k 0) rep"
  unfolding honest_def by (intro allI impI disjI2) (auto simp: subset_iff)

lemma honest_append:
  assumes "honest c p bs rep" and "honest c (p + length bs) bs' rep'" and "rep \<subseteq> rep'"
  shows "honest c p (bs @ bs') rep'"
  unfolding honest_def
proof (intro allI impI)
  fix i
  assume i: "i < length (bs @ bs')"
  show "p + i < length c \<and> (bs @ bs') ! i = c ! (p + i) \<or> (bs @ bs') ! i = 0 \<and> p + i \<in> rep'"
  proof (cases "i < length bs")
    case True
    with assms(1,3) show ?thesis by (auto simp: honest_def nth_append)
  next
    case False
    then have "i - length bs < length bs'" "p + length bs + (i - length bs) = p + i" using i by auto
    with assms(2) False show ?thesis by (auto simp: honest_def nth_append)
  qed
qed

text \<open>What one read does to the reader, whichever branch it takes.\<close>

definition served ::
  "('s \<Rightarrow> bool) \<Rightarrow> ('s \<Rightarrow> bytes) \<Rightarrow> 's tolerant_reader \<Rightarrow> bytes \<Rightarrow> 's tolerant_reader \<Rightarrow> bool" where
  "served lawful content r bs r' \<longleftrightarrow>
     tolerant_inv lawful content r' \<and> content (tr_inner r') = content (tr_inner r)
     \<and> tr_length r' = tr_length r \<and> tr_position r' = tr_position r + length bs
     \<and> reported (tr_stats r) \<subseteq> reported (tr_stats r')
     \<and> reported (tr_stats r') \<subseteq> reported (tr_stats r) \<union> {tr_position r..<tr_position r + length bs}
     \<and> honest (content (tr_inner r)) (tr_position r) bs (reported (tr_stats r'))"

lemma served_zero_fill:
  assumes "tolerant_inv lawful content r"
  shows "served lawful content r (fst (zero_fill r k why)) (snd (zero_fill r k why))"
proof -
  have "report_inv (tr_stats r)" using assms by (simp add: tolerant_inv_def)
  with assms show ?thesis
    by (auto simp: served_def zero_fill_def Let_def tolerant_inv_def record_range_inv
        record_range_reported intro: honest_zeros)
qed

lemma served_after:
  assumes "served lawful content r1 bs r'" and "content (tr_inner r1) = content (tr_inner r)"
    and "tr_length r1 = tr_length r" and "tr_position r1 = tr_position r"
    and "reported (tr_stats r1) = reported (tr_stats r)"
  shows "served lawful content r bs r'"
  using assms by (simp add: served_def)

lemma served_trans:
  assumes 1: "served lawful content r bs r1" and 2: "served lawful content r1 bs' r2"
  shows "served lawful content r (bs @ bs') r2"
proof -
  have "honest (content (tr_inner r)) (tr_position r) (bs @ bs') (reported (tr_stats r2))"
    using 1 2 by (intro honest_append [where rep = "reported (tr_stats r1)"]) (simp_all add: served_def)
  moreover have "reported (tr_stats r2)
      \<subseteq> reported (tr_stats r) \<union> {tr_position r..<tr_position r + length (bs @ bs')}"
  proof -
    let ?p = "tr_position r + length bs"
    have "reported (tr_stats r2) \<subseteq> reported (tr_stats r1) \<union> {?p..<?p + length bs'}"
      "reported (tr_stats r1) \<subseteq> reported (tr_stats r) \<union> {tr_position r..<?p}"
      using 1 2 by (simp_all add: served_def)
    then show ?thesis by fastforce
  qed
  moreover have "reported (tr_stats r) \<subseteq> reported (tr_stats r2)"
    using 1 2 by (meson served_def subset_trans)
  ultimately show ?thesis using 1 2 by (simp add: served_def)
qed

lemma serves_zero_fill:
  assumes "read = apfst Ok (zero_fill r1 k why)" and "tolerant_inv lawful content r1"
    and "content (tr_inner r1) = content (tr_inner r)" and "tr_length r1 = tr_length r"
    and "tr_position r1 = tr_position r" and "reported (tr_stats r1) = reported (tr_stats r)"
    and k: "0 < k" "k \<le> n" "k \<le> tr_length r - tr_position r"
  shows "\<exists>bs r'. read = (Ok bs, r') \<and> 0 < length bs \<and> length bs \<le> n
    \<and> length bs \<le> tr_length r - tr_position r \<and> served lawful content r bs r'"
proof -
  let ?z = "zero_fill r1 k why"
  have "served lawful content r (fst ?z) (snd ?z)"
    using served_zero_fill [OF assms(2)] assms(3-6) by (rule served_after)
  moreover have "length (fst ?z) = k" by (simp add: zero_fill_def Let_def)
  moreover have "read = (Ok (fst ?z), snd ?z)" by (simp add: assms(1) apfst_def map_prod_def split_beta)
  ultimately show ?thesis using k by (intro exI conjI) auto
qed

lemma absent_prefix_bounds:
  "absent_prefix r e n = Some k \<Longrightarrow> 0 < k \<and> k \<le> n"
  by (auto simp: absent_prefix_def Let_def split: option.splits if_splits)

context faulty_source
begin

text \<open>The reader stopped at position \<open>p\<close> because the medium's read there was interrupted.\<close>

definition stopped :: "nat \<Rightarrow> 's tolerant_reader \<Rightarrow> bool" where
  "stopped p r \<longleftrightarrow> (\<exists>s m. lawful s \<and> pos s = p \<and> do_read src s m = (Err Interrupted, tr_inner r))"

lemma tolerant_read_serves:
  assumes inv: "tolerant_inv lawful content r" and "tr_position r < tr_length r" and "0 < n"
  shows "\<exists>bs r'. tolerant_read src r n = (Ok bs, r') \<and> (0 < length bs \<or> stopped (tr_position r) r')
    \<and> length bs \<le> n \<and> length bs \<le> tr_length r - tr_position r \<and> served lawful content r bs r'"
proof (cases "tr_inner_len r \<le> tr_position r")
  case True
  then have "tolerant_read src r n
      = apfst Ok (zero_fill r (min (tr_length r - tr_position r) n) Missing)"
    using assms by (simp add: tolerant_read_def Let_def)
  then have "\<exists>bs r'. tolerant_read src r n = (Ok bs, r') \<and> 0 < length bs \<and> length bs \<le> n
      \<and> length bs \<le> tr_length r - tr_position r \<and> served lawful content r bs r'"
    using inv by (rule serves_zero_fill) (use assms in simp_all)
  then show ?thesis by blast
next
  case False
  let ?p = "tr_position r"
  define m where "m = min (min (tr_length r - ?p) n) (tr_inner_len r - ?p)"
  have m: "0 < m" "m \<le> n" "m \<le> tr_length r - ?p" using assms False by (auto simp: m_def)
  have l: "lawful (tr_inner r)" "tr_inner_len r = length (content (tr_inner r))"
    using inv by (auto simp: tolerant_inv_def)
  then have "?p < 2 ^ 63" using faulty_bound [OF l(1)] False by linarith
  from faulty_seek [OF l(1) this] obtain s where s: "do_seek src (tr_inner r) (Start ?p) = (Ok ?p, s)"
    "lawful s" "pos s = ?p" "content s = content (tr_inner r)" by blast
  from faulty_read [OF s(2), of m] obtain x s' where x: "do_read src s m = (x, s')" "lawful s'"
    "content s' = content (tr_inner r)"
    and cases: "(\<exists>e. x = Err e)
      \<or> (\<exists>k. x = Ok (slice (content s) (pos s) k) \<and> k \<le> m \<and> k \<le> length (content s) - pos s
           \<and> (k = 0 \<longrightarrow> m = 0 \<or> length (content s) \<le> pos s))"
    using s(4) by auto
  let ?r = "r\<lparr>tr_inner := s'\<rparr>"
  have inv': "tolerant_inv lawful content ?r" using inv x by (simp add: tolerant_inv_def)
  from cases show ?thesis
  proof (elim disjE exE conjE)
    fix e
    assume e: "x = Err e"
    consider "e = Interrupted" | "e \<noteq> Interrupted" "absent_prefix ?r e m = None"
      | k where "e \<noteq> Interrupted" "absent_prefix ?r e m = Some k" by blast
    then show ?thesis
    proof cases
      case 1
      have "tolerant_read src r n = (Ok [], ?r)"
        using assms False s(1) x(1) e 1 by (simp add: tolerant_read_def Let_def flip: m_def)
      moreover have "stopped ?p ?r" using s x(1) e 1 by (auto simp: stopped_def)
      moreover have "served lawful content r [] ?r"
        using inv' x(3) by (simp add: served_def honest_def)
      ultimately show ?thesis by auto
    next
      case 2
      let ?r' = "?r\<lparr>tr_stats := (tr_stats r)\<lparr>read_errors := (read_errors (tr_stats r) + 1) mod 2 ^ 64\<rparr>\<rparr>"
      have "tolerant_read src r n = apfst Ok (zero_fill ?r' (min error_zero_fill_granule m) Errored)"
        using assms False s(1) x(1) e 2 by (simp add: tolerant_read_def Let_def flip: m_def)
      moreover have "tolerant_inv lawful content ?r'"
        using inv' by (simp add: tolerant_inv_def report_inv_def)
      ultimately have "\<exists>bs r'. tolerant_read src r n = (Ok bs, r') \<and> 0 < length bs \<and> length bs \<le> n
          \<and> length bs \<le> tr_length r - tr_position r \<and> served lawful content r bs r'"
        by (rule serves_zero_fill) (use m x(3) in \<open>simp_all add: reported_def error_zero_fill_granule_def\<close>)
      then show ?thesis by blast
    next
      case (3 k)
      have "tolerant_read src r n = apfst Ok (zero_fill ?r k Absent_before)"
        using assms False s(1) x(1) e 3 by (simp add: tolerant_read_def Let_def flip: m_def)
      then have "\<exists>bs r'. tolerant_read src r n = (Ok bs, r') \<and> 0 < length bs \<and> length bs \<le> n
          \<and> length bs \<le> tr_length r - tr_position r \<and> served lawful content r bs r'"
        using inv' by (rule serves_zero_fill) (use m x(3) absent_prefix_bounds [OF 3(2)] in simp_all)
      then show ?thesis by blast
    qed
  next
    fix k
    assume k: "x = Ok (slice (content s) (pos s) k)" "k \<le> m" "k \<le> length (content s) - pos s"
      "k = 0 \<longrightarrow> m = 0 \<or> length (content s) \<le> pos s"
    let ?bs = "slice (content (tr_inner r)) ?p k"
    have len: "length ?bs = k" using k(3) s by simp
    have "0 < k" using k(4) m(1) s l(2) False by auto
    then have ne: "?bs \<noteq> []" using len by (metis less_irrefl list.size(3))
    have "tolerant_read src r n = (Ok ?bs, ?r\<lparr>tr_position := ?p + k\<rparr>)"
      using assms False s x(1) k(1) ne len
      by (simp add: tolerant_read_def Let_def flip: m_def)
    moreover have "served lawful content r ?bs (?r\<lparr>tr_position := ?p + k\<rparr>)"
      using inv' len x(3) k(3) s by (auto simp: served_def tolerant_inv_def intro: honest_slice)
    ultimately show ?thesis using \<open>0 < k\<close> k(2) m len
      by (intro exI [of _ ?bs] exI [of _ "?r\<lparr>tr_position := ?p + k\<rparr>"]) simp
  qed
qed

lemma tolerant_read_exact_loop:
  assumes "tolerant_inv lawful content r" and "n = 0 \<or> tr_position r + n \<le> tr_length r"
  shows "\<exists>bs r'. served lawful content r bs r'
    \<and> (read_exact_loop (tolerant_source src) r n acc = Some (Ok (acc @ bs), r') \<and> length bs = n
      \<or> read_exact_loop (tolerant_source src) r n acc = Some (Err UnexpectedEof, r') \<and> length bs < n
        \<and> stopped (tr_position r + length bs) r')"
  using assms
proof (induction n arbitrary: r acc rule: less_induct)
  case (less n)
  consider "n = 0" | bs r1 where "0 < n" "tolerant_read src r n = (Ok bs, r1)"
    "0 < length bs \<or> stopped (tr_position r) r1" "length bs \<le> n" "served lawful content r bs r1"
    using tolerant_read_serves [OF less.prems(1), of n] less.prems(2) by fastforce
  then show ?case
  proof cases
    case 1
    with less.prems show ?thesis
      by (subst (1 2) read_exact_loop.simps) (auto simp: served_def honest_def)
  next
    case (2 bs r1)
    show ?thesis
    proof (cases "bs = []")
      case True
      then have "read_exact_loop (tolerant_source src) r n acc = Some (Err UnexpectedEof, r1)"
        using 2 by (subst read_exact_loop.simps) simp
      with True 2 show ?thesis by (intro exI [of _ "[]"] exI [of _ r1]) simp
    next
      case False
      have "n - length bs < n" "tolerant_inv lawful content r1"
        "n - length bs = 0 \<or> tr_position r1 + (n - length bs) \<le> tr_length r1"
        using 2 less.prems False by (auto simp: served_def)
      from less.IH [OF this, of "acc @ bs"] obtain bs' r2 where r2: "served lawful content r1 bs' r2"
        "read_exact_loop (tolerant_source src) r1 (n - length bs) (acc @ bs) = Some (Ok ((acc @ bs) @ bs'), r2)
            \<and> length bs' = n - length bs
          \<or> read_exact_loop (tolerant_source src) r1 (n - length bs) (acc @ bs) = Some (Err UnexpectedEof, r2)
            \<and> length bs' < n - length bs \<and> stopped (tr_position r1 + length bs') r2"
        by blast
      have "read_exact_loop (tolerant_source src) r n acc
          = read_exact_loop (tolerant_source src) r1 (n - length bs) (acc @ bs)"
        using 2 False by (subst read_exact_loop.simps) (simp add: leD)
      moreover have "tr_position r1 = tr_position r + length bs" using 2 by (simp add: served_def)
      ultimately show ?thesis using r2 2 served_trans [OF 2(5) r2(1)]
        by (intro exI [of _ "bs @ bs'"] exI [of _ r2]) (auto simp: add.assoc)
    qed
  qed
qed

lemma tolerant_new_ok:
  assumes "lawful s"
  shows "\<exists>r. tolerant_new src s d = Ok r \<and> tolerant_inv lawful content r
    \<and> content (tr_inner r) = content s \<and> tr_length r = max d (length (content s))
    \<and> tr_stats r = no_substitutions \<and> tr_position r = 0"
proof -
  from faulty_end [OF assms] obtain s1 where s1: "do_seek src s (End 0) = (Ok (length (content s)), s1)"
    "lawful s1" "content s1 = content s" by blast
  from faulty_seek [OF s1(2), of 0] obtain s2 where
    "do_seek src s1 (Start 0) = (Ok 0, s2)" "lawful s2" "content s2 = content s1" by auto
  with s1 show ?thesis by (simp add: tolerant_new_def with_stats_def tolerant_inv_def)
qed

end

text \<open>
  C3: reading any range of the length a tolerant reader presents, on a medium that may fail any of
  its reads with any error and that may be shorter than declared, always returns. Each byte is the
  medium's byte, or a zero at a position the report holds, and the report gains no other
  position. The read returns all the bytes asked for, unless a read of the medium is interrupted:
  it then stops at that position with an end of file, and has nothing substituted there.
\<close>

theorem tolerant_reads_are_total_and_honest:
  assumes "faulty_source src lawful pos content"
    and "tolerant_inv lawful content r" and "n = 0 \<or> p + n \<le> tr_length r"
  shows "\<exists>bs r'. tolerant_inv lawful content r' \<and> content (tr_inner r') = content (tr_inner r)
    \<and> honest (content (tr_inner r)) p bs (reported (tr_stats r'))
    \<and> reported (tr_stats r) \<subseteq> reported (tr_stats r')
    \<and> reported (tr_stats r') \<subseteq> reported (tr_stats r) \<union> {p..<p + length bs}
    \<and> (read_exact_from (tolerant_source src) r p n = (Ok bs, r') \<and> length bs = n
      \<or> read_exact_from (tolerant_source src) r p n = (Err UnexpectedEof, r') \<and> length bs < n
        \<and> (\<exists>s m. lawful s \<and> pos s = p + length bs \<and> do_read src s m = (Err Interrupted, tr_inner r')))"
proof -
  let ?r = "r\<lparr>tr_position := p\<rparr>"
  have "tolerant_inv lawful content ?r" "n = 0 \<or> tr_position ?r + n \<le> tr_length ?r"
    using assms by (simp_all add: tolerant_inv_def)
  from faulty_source.tolerant_read_exact_loop [OF assms(1) this, of "[]"] obtain bs r' where
    "served lawful content ?r bs r'" and
    "read_exact_loop (tolerant_source src) ?r n [] = Some (Ok bs, r') \<and> length bs = n
      \<or> read_exact_loop (tolerant_source src) ?r n [] = Some (Err UnexpectedEof, r') \<and> length bs < n
        \<and> (\<exists>s m. lawful s \<and> pos s = p + length bs \<and> do_read src s m = (Err Interrupted, tr_inner r'))"
    by (auto simp: faulty_source.stopped_def [OF assms(1)])
  then show ?thesis
    by (intro exI [of _ bs] exI [of _ r'])
      (auto simp: read_exact_from_def read_exact_def tolerant_seek_def served_def)
qed

definition demo_late :: "cursor gap_reader" where
  "demo_late = \<lparr>gr_inner = \<lparr>cur_bytes = [10, 11, 12], cur_pos = 0\<rparr>, gap = 3, gr_inner_len = 3,
     gr_position = 0\<rparr>"

definition demo_tolerant :: "cursor gap_reader tolerant_reader" where
  "demo_tolerant = \<lparr>tr_inner = demo_late, tr_inner_len = 6, tr_length = 9, tr_position = 0,
     tr_stats = no_substitutions, tr_substituted = False\<rparr>"

lemma demo_tolerant_inv: "tolerant_inv (gap_inv cursor_inv cur_bytes) (gap_content cur_bytes) demo_tolerant"
  by (simp add: tolerant_inv_def demo_tolerant_def demo_late_def gap_inv_def cursor_inv_def
      gap_content_def)

lemma gap_cursor_uninterrupted: "gap_read cursor_source r m \<noteq> (Err Interrupted, r')"
  by (auto simp: gap_read_def Let_def cursor_seek_def cursor_read_def)

theorem tolerant_reads_are_total_and_honest_witness:
  "\<exists>bs r'. read_exact_from (tolerant_source (gap_source cursor_source)) demo_tolerant 1 8 = (Ok bs, r')
     \<and> length bs = 8
     \<and> honest (replicate 3 0 @ [10, 11, 12]) 1 bs (reported (tr_stats r'))"
  using tolerant_reads_are_total_and_honest [OF gap_cursor.faulty_source_axioms demo_tolerant_inv,
      of 8 1]
  by (auto simp: demo_tolerant_def demo_late_def gap_content_def gap_cursor_uninterrupted)

text \<open>
  C13: the total a report gives is the number of distinct bytes substituted, however often and in
  whichever order and overlap the ranges were recorded.
\<close>

theorem recorded_bytes_counted_once:
  "ranges_total (fold (\<lambda>(a, b) m. ranges_add m a b) rs []) = card (\<Union>(a, b) \<in> set rs. {a..<b})"
proof -
  have "ranges_inv (fold (\<lambda>(a, b) m. ranges_add m a b) rs m)
      \<and> covered (fold (\<lambda>(a, b) m. ranges_add m a b) rs m) = covered m \<union> covered rs"
    if "ranges_inv m" for m
    using that by (induction rs arbitrary: m) (simp_all add: ranges_add_correct split_beta Un_assoc)
  from this [of "[]"] show ?thesis by (simp add: ranges_total_card covered_def)
qed

text \<open>
  C14: on a medium that begins inside its volume, a read in the absent head returns zeros up to
  the medium's first byte at most, charges exactly those bytes to the absent head, and reports
  no missing byte, no unreadable byte and no read error.
\<close>

theorem absent_head_is_not_an_error:
  assumes "byte_source src lawful pos content"
    and "tolerant_inv (gap_inv lawful content) (gap_content content) r"
    and "tr_position r < gap (tr_inner r)" and "0 < n"
  shows "\<exists>r'. tolerant_read (gap_source src) r n
      = (Ok (replicate (min (gap (tr_inner r) - tr_position r) n) 0), r')
    \<and> covered (absent (tr_stats r'))
        = covered (absent (tr_stats r))
          \<union> {tr_position r..<tr_position r + min (gap (tr_inner r) - tr_position r) n}
    \<and> missing (tr_stats r') = missing (tr_stats r) \<and> errored (tr_stats r') = errored (tr_stats r)
    \<and> read_errors (tr_stats r') = read_errors (tr_stats r)"
proof -
  let ?g = "tr_inner r\<lparr>gr_position := tr_position r\<rparr>"
  let ?m = "min (min (tr_length r - tr_position r) n) (tr_inner_len r - tr_position r)"
  have inv: "gap_inv lawful content (tr_inner r)" "gap (tr_inner r) \<le> tr_inner_len r"
    "tr_inner_len r \<le> tr_length r" "ranges_inv (absent (tr_stats r))"
    using assms(2) by (auto simp: tolerant_inv_def gap_content_def report_inv_def)
  have m: "0 < ?m" "min (gap (tr_inner r) - tr_position r) ?m = min (gap (tr_inner r) - tr_position r) n"
    using inv assms(3,4) by (auto simp: min_def)
  have "\<exists>off l. gap_read src ?g ?m = (Err (Absent (AbsentHead (gap (tr_inner r)) off l)), ?g)"
    using byte_source.gap_read_absent [OF assms(1), of ?g ?m] inv assms(3) m(1) by auto
  moreover have "absent_prefix (r\<lparr>tr_inner := ?g\<rparr>) (Absent (AbsentHead (gap (tr_inner r)) off l)) ?m
      = Some (min (gap (tr_inner r) - tr_position r) n)" for off l
    using m(2) assms(3,4) by (simp add: absent_prefix_def checked_sub_def Let_def)
  ultimately show ?thesis
    using inv assms(3,4)
    by (auto simp: tolerant_read_def Let_def gap_seek_def zero_fill_def ranges_add_correct)
qed

theorem absent_head_is_not_an_error_witness:
  "\<exists>r'. tolerant_read (gap_source cursor_source) demo_tolerant 5 = (Ok [0, 0, 0], r')
     \<and> covered (absent (tr_stats r')) = {0..<3} \<and> read_errors (tr_stats r') = 0"
  using absent_head_is_not_an_error [OF cursor.byte_source_axioms demo_tolerant_inv, of 5]
  by (auto simp: demo_tolerant_def demo_late_def no_substitutions_def numeral_3_eq_3)


section \<open>Interrupted reads\<close>

text \<open>
  C37: on every medium, a range that \<open>read_exact\<close> reads from the medium itself although its first
  read is interrupted cannot be read through a tolerant reader over the same medium: the
  interruption comes back as an end of file, with no byte reported as substituted.
\<close>

theorem interrupted_read_reads_as_eof:
  assumes "byte_source src lawful pos content" and "lawful s"
    and "0 < n" and "p + n \<le> length (content s)"
  shows "fst (read_exact_from (interrupting src) (True, s) p n) = Ok (slice (content s) p n)
    \<and> (\<exists>r r'. tolerant_new (interrupting src) (True, s) d = Ok r \<and> length (content s) \<le> tr_length r
      \<and> read_exact_from (tolerant_source (interrupting src)) r p n = (Err UnexpectedEof, r')
      \<and> reported (tr_stats r') = {})"
proof -
  note reader = byte_source.axioms(1) [OF assms(1)]
  have p: "p < 2 ^ 63" using byte_reader.content_bound [OF reader assms(2)] assms(3,4) by linarith
  obtain s1 where s1: "do_seek src s (End 0) = (Ok (length (content s)), s1)" "lawful s1" "content s1 = content s"
    using byte_source.seek_end [OF assms(1,2)] by blast
  obtain s2 where s2: "do_seek src s1 (Start 0) = (Ok 0, s2)" "lawful s2" using byte_reader.seek_start [OF reader s1(2), of 0] by auto
  obtain s3 where s3: "do_seek src s2 (Start p) = (Ok p, s3)" using byte_reader.seek_start [OF reader s2(2) p] by blast
  let ?r = "\<lparr>tr_inner = (True, s2), tr_inner_len = length (content s), tr_length = max d (length (content s)),
    tr_position = 0, tr_stats = no_substitutions, tr_substituted = False\<rparr>"
  have "tolerant_new (interrupting src) (True, s) d = Ok ?r"
    using s1 s2 by (simp add: tolerant_new_def with_stats_def)
  moreover have "read_exact_loop (tolerant_source (interrupting src)) (?r\<lparr>tr_position := p\<rparr>) n []
      = Some (Err UnexpectedEof, ?r\<lparr>tr_position := p, tr_inner := (False, s3)\<rparr>)"
    using assms(3,4) s3 by (subst read_exact_loop.simps) (simp add: tolerant_read_def Let_def)
  ultimately show ?thesis using byte_source.interrupting_read_exact_from [OF assms(1,2) p] assms(4)
    by (auto simp: read_exact_from_def read_exact_def tolerant_seek_def reported_def no_substitutions_def covered_def)
qed

definition demo_medium :: cursor where
  "demo_medium = \<lparr>cur_bytes = [10, 11, 12], cur_pos = 0\<rparr>"

theorem interrupted_read_reads_as_eof_witness:
  "fst (read_exact_from (interrupting cursor_source) (True, demo_medium) 0 2) = Ok [10, 11]
   \<and> (\<exists>r. tolerant_new (interrupting cursor_source) (True, demo_medium) 3 = Ok r
        \<and> fst (read_exact_from (tolerant_source (interrupting cursor_source)) r 0 2) = Err UnexpectedEof)"
proof -
  have "cursor_inv demo_medium" "0 + 2 \<le> length (cur_bytes demo_medium)"
    by (simp_all add: demo_medium_def cursor_inv_def)
  from interrupted_read_reads_as_eof [OF cursor.byte_source_axioms this(1) _ this(2), of 3] show ?thesis
    by (auto simp: demo_medium_def slice_def)
qed

end
