(* ===== verification/Compression.thy ===== *)
theory Compression
  imports Prelude
begin

text \<open>
  What the codecs of \<open>nt-compression\<close> share: the errors of \<open>error.rs\<close>, the lenient result, and
  the byte-by-byte copy of a match inside the output buffer. The output buffer of the source is a
  slice of fixed length that the codec writes into; here it is a list that keeps its length, and
  an operation returns it also when it fails.
\<close>

datatype codec_error =
    InputTruncated nat nat nat
  | OutputTooSmall nat nat
  | InvalidData nat
  | InvalidHuffmanTable

record lenient_result =
  bytes_written :: nat
  had_errors :: bool

text \<open>\<open>for i in 0..length { output[wp + i] = output[src + i] }\<close>\<close>

primrec copy_within :: "bytes \<Rightarrow> nat \<Rightarrow> nat \<Rightarrow> nat \<Rightarrow> bytes" where
  "copy_within out src dst 0 = out"
| "copy_within out src dst (Suc n) = copy_within (out[dst := out ! src]) (Suc src) (Suc dst) n"

text \<open>\<open>output[pos..pos + data.len()].copy_from_slice(data)\<close>, where the range is in bounds\<close>

definition write_at :: "bytes \<Rightarrow> nat \<Rightarrow> bytes \<Rightarrow> bytes" where
  "write_at out p data = take p out @ data @ drop (p + length data) out"

lemma length_copy_within [simp]: "length (copy_within out src dst n) = length out"
  by (induction n arbitrary: out src dst) simp_all

lemma length_write_at [simp]: "p + length data \<le> length out \<Longrightarrow> length (write_at out p data) = length out"
  by (simp add: write_at_def)

lemma take_write_at: "p \<le> length out \<Longrightarrow> take p (write_at out p data) = take p out"
  by (simp add: write_at_def)

lemma take_write_at_end:
  "p + length data \<le> length out \<Longrightarrow> take (p + length data) (write_at out p data) = take p out @ data"
  by (simp add: write_at_def)

lemma drop_write_at:
  "p + length data \<le> length out \<Longrightarrow> drop (p + length data) (write_at out p data) = drop (p + length data) out"
  by (simp add: write_at_def)

text \<open>
  Copying a match whose source bytes repeat the target's extends a prefix of the target, also
  when source and destination overlap.
\<close>

lemma take_Suc_update: "k < length xs \<Longrightarrow> take (Suc k) (xs[k := v]) = take k xs @ [v]"
  by (simp add: take_Suc_conv_app_nth)

lemma copy_within_prefix:
  assumes "take dst out = take dst target" and "src < dst" and "dst + n \<le> length out"
    and "dst + n \<le> length target" and "\<And>i. i < n \<Longrightarrow> target ! (src + i) = target ! (dst + i)"
  shows "take (dst + n) (copy_within out src dst n) = take (dst + n) target"
  using assms
proof (induction n arbitrary: out src dst)
  case (Suc n)
  let ?out = "out[dst := out ! src]"
  have "out ! src = target ! src"
    using Suc.prems(1,2) by (metis nth_take)
  also have "\<dots> = target ! dst" using Suc.prems(5) [of 0] by simp
  finally have "take (Suc dst) ?out = take (Suc dst) target"
    using Suc.prems by (simp add: take_Suc_update take_Suc_conv_app_nth)
  moreover have "target ! (Suc src + i) = target ! (Suc dst + i)" if "i < n" for i
    using Suc.prems(5) [of "Suc i"] that by simp
  ultimately have "take (Suc dst + n) (copy_within ?out (Suc src) (Suc dst) n) = take (Suc dst + n) target"
    using Suc.prems by (intro Suc.IH) simp_all
  then show ?case by simp
qed simp

lemma drop_copy_within: "dst + n \<le> k \<Longrightarrow> drop k (copy_within out src dst n) = drop k out"
  by (induction n arbitrary: out src dst) simp_all


section \<open>The contract of a codec\<close>

text \<open>
  A codec whose compressor always succeeds in an output of its declared bound, and whose
  decompressor returns the input and leaves the rest of the buffer alone.
\<close>

locale lossless_codec =
  fixes compress :: "bytes \<Rightarrow> bytes \<Rightarrow> (nat, codec_error) outcome \<times> bytes"
    and decompress :: "bytes \<Rightarrow> bytes \<Rightarrow> (nat, codec_error) outcome \<times> bytes"
    and bound :: "nat \<Rightarrow> nat"
  assumes roundtrip: "bound (length input) \<le> length out \<Longrightarrow> length input \<le> length buf \<Longrightarrow>
    \<exists>n out'. compress input out = (Ok n, out') \<and> n \<le> bound (length input)
      \<and> length out' = length out
      \<and> decompress (take n out') buf = (Ok (length input), input @ drop (length input) buf)"
begin

lemma compress_injective:
  assumes "compress a out1 = (Ok n, out1')" and "compress b out2 = (Ok m, out2')"
    and "take n out1' = take m out2'"
    and "bound (length a) \<le> length out1" and "bound (length b) \<le> length out2"
  shows "a = b"
proof -
  let ?buf = "replicate (length a + length b) 0"
  have "decompress (take n out1') ?buf = (Ok (length a), a @ drop (length a) ?buf)"
    using roundtrip [OF assms(4), of ?buf] assms(1) by simp
  moreover have "decompress (take m out2') ?buf = (Ok (length b), b @ drop (length b) ?buf)"
    using roundtrip [OF assms(5), of ?buf] assms(2) by simp
  ultimately show ?thesis
    using assms(3) by (metis Pair_inject append_eq_append_conv outcome.inject(1))
qed

end

end
