(* ===== verification/Lznt1.thy ===== *)
theory Lznt1
  imports Compression
begin

text \<open>
  LZNT1, NTFS's native compression: \<open>nt-compression/src/lznt1/{mod,decompress,compress}.rs\<close>.
  Positions and lengths are natural numbers; header and match words are 16-bit words and flag
  bytes 8-bit words, with the shifts and masks of the source. The \<open>u32\<close> shift count that
  \<open>bit_widths\<close> decrements can underflow, and the \<open>expect\<close>s can fail: these are the panics of
  the model.
\<close>

definition CHUNK_SIZE :: nat where
  "CHUNK_SIZE = 4096"

definition CHUNK_SIGNATURE :: u16 where
  "CHUNK_SIGNATURE = 3"

section \<open>Bit widths\<close>

fun bit_widths_loop :: "nat \<Rightarrow> nat \<Rightarrow> nat \<Rightarrow> (nat, codec_error) outcome" where
  "bit_widths_loop shift threshold pos_in_chunk =
     (if threshold < pos_in_chunk
      then (case shift of 0 \<Rightarrow> Panic
            | Suc shift' \<Rightarrow> bit_widths_loop shift' (2 * threshold) pos_in_chunk)
      else Ok shift)"

definition bit_widths :: "nat \<Rightarrow> (nat \<times> nat, codec_error) outcome" where
  "bit_widths pos_in_chunk =
     and_then (bit_widths_loop 12 16 pos_in_chunk) (\<lambda>shift. Ok (shift, 16 - shift))"


section \<open>Decompression\<close>

definition read_chunk_header :: "bytes \<Rightarrow> nat \<Rightarrow> u16 option" where
  "read_chunk_header input offset =
     (if offset + 2 > length input then None
      else let header = from_le_bytes [input ! offset, input ! (offset + 1)]
           in if header = 0 then None else Some header)"

definition validate_chunk_signature :: "u16 \<Rightarrow> nat \<Rightarrow> (unit, codec_error) outcome" where
  "validate_chunk_signature header header_offset =
     (if drop_bit 12 header AND 7 \<noteq> CHUNK_SIGNATURE then Err (InvalidData header_offset) else Ok ())"

definition copy_uncompressed_chunk :: "bytes \<Rightarrow> bytes \<Rightarrow> nat \<Rightarrow> (nat, codec_error) outcome \<times> bytes" where
  "copy_uncompressed_chunk chunk_data out out_pos =
     (let len = length chunk_data
      in if out_pos + len > length out then (Err (OutputTooSmall (out_pos + len) (length out)), out)
         else (Ok (out_pos + len), write_at out out_pos chunk_data))"

definition decode_match :: "u16 \<Rightarrow> nat \<Rightarrow> (nat \<times> nat, codec_error) outcome" where
  "decode_match w pos_in_chunk =
     and_then (bit_widths pos_in_chunk) (\<lambda>(length_bits, _).
       let length_mask = push_bit length_bits 1 - 1;
           displacement = unat (drop_bit length_bits w) + 1;
           len = unat (w AND length_mask) + 3
       in Ok (displacement, len))"

text \<open>The inner loop over the bits of one flag byte; its result is \<open>(cp, wp)\<close>.\<close>

fun chunk_bits ::
  "bytes \<Rightarrow> nat \<Rightarrow> u8 \<Rightarrow> nat list \<Rightarrow> nat \<Rightarrow> nat \<Rightarrow> bytes \<Rightarrow> (nat \<times> nat, codec_error) outcome \<times> bytes" where
  "chunk_bits chunk_data chunk_start flags [] cp wp out = (Ok (cp, wp), out)"
| "chunk_bits chunk_data chunk_start flags (b # bs) cp wp out =
     (if cp \<ge> length chunk_data then (Ok (cp, wp), out)
      else if drop_bit b flags AND 1 = 0 then
        (if wp \<ge> length out then (Err (OutputTooSmall (wp + 1) (length out)), out)
         else chunk_bits chunk_data chunk_start flags bs (cp + 1) (wp + 1) (out[wp := chunk_data ! cp]))
      else if cp + 2 > length chunk_data then
        (Err (InputTruncated cp 2 (length chunk_data - cp)), out)
      else
        let w = from_le_bytes [chunk_data ! cp, chunk_data ! (cp + 1)];
            pos_in_chunk = wp - chunk_start
        in and_do (decode_match w pos_in_chunk, out) (\<lambda>(displacement, len) out.
             if displacement > pos_in_chunk then (Err (InvalidData cp), out)
             else if wp + len > length out then (Err (OutputTooSmall (wp + len) (length out)), out)
             else chunk_bits chunk_data chunk_start flags bs (cp + 2) (wp + len)
                    (copy_within out (wp - displacement) wp len)))"

text \<open>The cursor never moves back, so the outer loop ends.\<close>

lemma and_do_Ok_elim:
  assumes "and_do m f = (Ok b, s')"
  obtains a s where "m = (Ok a, s)" "f a s = (Ok b, s')"
  using assms by (cases m; cases "fst m") auto

lemma chunk_bits_cp_mono:
  "chunk_bits chunk_data chunk_start flags bs cp wp out = (Ok (cp', wp'), out') \<Longrightarrow> cp \<le> cp'"
  by (induction bs arbitrary: cp wp out)
    (fastforce simp: Let_def split: if_splits elim!: and_do_Ok_elim dest: Suc_leD)+

function chunk_groups ::
  "bytes \<Rightarrow> nat \<Rightarrow> nat \<Rightarrow> nat \<Rightarrow> bytes \<Rightarrow> (nat, codec_error) outcome \<times> bytes" where
  "chunk_groups chunk_data chunk_start cp wp out =
     (if cp < length chunk_data
      then case chunk_bits chunk_data chunk_start (chunk_data ! cp) [0..<8] (cp + 1) wp out of
             (Ok (cp', wp'), out') \<Rightarrow> chunk_groups chunk_data chunk_start cp' wp' out'
           | (Err e, out') \<Rightarrow> (Err e, out')
           | (Panic, out') \<Rightarrow> (Panic, out')
           | (Diverge, out') \<Rightarrow> (Diverge, out')
      else (Ok wp, out))"
  by pat_completeness auto
termination
  by (relation "measure (\<lambda>(chunk_data, chunk_start, cp, wp, out). length chunk_data - cp)")
    (auto dest!: chunk_bits_cp_mono [OF sym])

declare chunk_groups.simps [simp del]

definition decompress_chunk_strict :: "bytes \<Rightarrow> bytes \<Rightarrow> nat \<Rightarrow> (nat, codec_error) outcome \<times> bytes" where
  "decompress_chunk_strict chunk_data out out_pos = chunk_groups chunk_data out_pos 0 out_pos out"

definition header_data_size :: "u16 \<Rightarrow> nat" where
  "header_data_size header = unat (header AND 0x0FFF) + 1"

definition header_compressed :: "u16 \<Rightarrow> bool" where
  "header_compressed header \<longleftrightarrow> header AND 0x8000 \<noteq> 0"

definition decompress_chunk :: "u16 \<Rightarrow> bytes \<Rightarrow> bytes \<Rightarrow> nat \<Rightarrow> (nat, codec_error) outcome \<times> bytes" where
  "decompress_chunk header chunk_data out out_pos =
     (if header_compressed header then decompress_chunk_strict chunk_data out out_pos
      else copy_uncompressed_chunk chunk_data out out_pos)"

function decompress_loop :: "bytes \<Rightarrow> nat \<Rightarrow> nat \<Rightarrow> bytes \<Rightarrow> (nat, codec_error) outcome \<times> bytes" where
  "decompress_loop input in_pos out_pos out =
     (case read_chunk_header input in_pos of
        None \<Rightarrow> (Ok out_pos, out)
      | Some header \<Rightarrow>
          and_do (validate_chunk_signature header in_pos, out) (\<lambda>_ out.
            let chunk_data_size = header_data_size header
            in if in_pos + 2 + chunk_data_size > length input
               then (Err (InputTruncated (in_pos + 2) chunk_data_size (length input - (in_pos + 2))), out)
               else and_do (decompress_chunk header (slice input (in_pos + 2) chunk_data_size) out out_pos)
                      (\<lambda>out_pos out. decompress_loop input (in_pos + 2 + chunk_data_size) out_pos out)))"
  by pat_completeness auto
termination
  by (relation "measure (\<lambda>(input, in_pos, out_pos, out). length input - in_pos)")
    (auto simp: read_chunk_header_def split: if_splits)

declare decompress_loop.simps [simp del]

definition decompress :: "bytes \<Rightarrow> bytes \<Rightarrow> (nat, codec_error) outcome \<times> bytes" where
  "decompress input out = decompress_loop input 0 0 out"

text \<open>
  The lenient mode. A chunk that fails with an error is skipped over; the bytes its partial
  decoding wrote stay in the buffer.
\<close>

function lenient_loop ::
  "bytes \<Rightarrow> nat \<Rightarrow> nat \<Rightarrow> bool \<Rightarrow> bytes \<Rightarrow> (lenient_result, codec_error) outcome \<times> bytes" where
  "lenient_loop input in_pos out_pos errors out =
     (if in_pos + 2 > length input
      then (Ok \<lparr>bytes_written = out_pos, had_errors = errors \<or> in_pos < length input\<rparr>, out)
      else
        let header = from_le_bytes [input ! in_pos, input ! (in_pos + 1)] :: u16;
            chunk_data_size = header_data_size header
        in if header = 0 then (Ok \<lparr>bytes_written = out_pos, had_errors = errors\<rparr>, out)
           else if in_pos + 2 + chunk_data_size > length input
           then (Ok \<lparr>bytes_written = out_pos, had_errors = True\<rparr>, out)
           else if out_pos \<ge> length out then (Ok \<lparr>bytes_written = out_pos, had_errors = errors\<rparr>, out)
           else
             let in_pos' = in_pos + 2 + chunk_data_size
             in case decompress_chunk header (slice input (in_pos + 2) chunk_data_size) out out_pos of
                  (Ok new_pos, out') \<Rightarrow> lenient_loop input in_pos' new_pos errors out'
                | (Err e, out') \<Rightarrow>
                    let fill = (if header_compressed header then min CHUNK_SIZE (length out' - out_pos)
                                else min chunk_data_size (length out' - out_pos))
                    in lenient_loop input in_pos' (out_pos + fill) True out'
                | (Panic, out') \<Rightarrow> (Panic, out')
                | (Diverge, out') \<Rightarrow> (Diverge, out'))"
  by pat_completeness auto
termination
  by (relation "measure (\<lambda>(input, in_pos, out_pos, errors, out). length input - in_pos)") auto

declare lenient_loop.simps [simp del]

definition decompress_lenient :: "bytes \<Rightarrow> bytes \<Rightarrow> (lenient_result, codec_error) outcome \<times> bytes" where
  "decompress_lenient input out = lenient_loop input 0 0 False (replicate (length out) 0)"


section \<open>Compression\<close>

definition compress_bound :: "nat \<Rightarrow> nat" where
  "compress_bound input_len =
     (let num_chunks = max ((input_len + CHUNK_SIZE - 1) div CHUNK_SIZE) 1
      in input_len + num_chunks * 2 + 2)"

definition HASH_SIZE :: nat where
  "HASH_SIZE = 4096"

definition hash3 :: "bytes \<Rightarrow> nat \<Rightarrow> nat" where
  "hash3 data pos =
     (let b0 = ucast (data ! pos) :: u32;
          b1 = ucast (data ! (pos + 1)) :: u32;
          b2 = ucast (data ! (pos + 2)) :: u32;
          h = (b0 OR push_bit 8 b1 OR push_bit 16 b2) * 0x9E3779B1
      in unat (drop_bit 20 h AND 0xFFF))"

text \<open>The hash table holds positions as \<open>u16\<close>; a position that does not fit would panic.\<close>

definition update_hash :: "bytes \<Rightarrow> nat \<Rightarrow> u16 list \<Rightarrow> (u16 list, codec_error) outcome" where
  "update_hash chunk pos head =
     (if pos + 3 \<le> length chunk
      then (if pos < 2 ^ 16 then Ok (head[hash3 chunk pos := word_of_nat pos]) else Panic)
      else Ok head)"

function match_length :: "bytes \<Rightarrow> nat \<Rightarrow> nat \<Rightarrow> nat \<Rightarrow> nat \<Rightarrow> nat" where
  "match_length chunk candidate pos max_len len =
     (if len < max_len \<and> chunk ! (candidate + len) = chunk ! (pos + len)
      then match_length chunk candidate pos max_len (len + 1) else len)"
  by pat_completeness auto
termination
  by (relation "measure (\<lambda>(chunk, candidate, pos, max_len, len). max_len - len)") auto

declare match_length.simps [simp del]

definition find_chunk_match :: "bytes \<Rightarrow> nat \<Rightarrow> u16 list \<Rightarrow> ((nat \<times> nat) option, codec_error) outcome" where
  "find_chunk_match chunk pos head =
     (if pos + 3 > length chunk \<or> pos = 0 then Ok None
      else
        let candidate = unat (head ! hash3 chunk pos)
        in if candidate \<ge> pos then Ok None
           else
             let displacement = pos - candidate
             in and_then (bit_widths pos) (\<lambda>(length_bits, _).
                  let max_disp = 2 ^ (16 - length_bits)
                  in if displacement > max_disp then Ok None
                     else
                       let max_len_from_bits = 2 ^ length_bits - 1 + 3;
                           max_len = min max_len_from_bits (length chunk - pos);
                           len = match_length chunk candidate pos max_len 0
                       in if len \<ge> 3 then Ok (Some (displacement, len)) else Ok None))"

text \<open>\<open>for i in 0..length { update_hash(chunk, in_pos + i, &mut head); }\<close>\<close>

primrec update_hashes :: "bytes \<Rightarrow> nat \<Rightarrow> nat \<Rightarrow> u16 list \<Rightarrow> (u16 list, codec_error) outcome" where
  "update_hashes chunk pos 0 head = Ok head"
| "update_hashes chunk pos (Suc n) head =
     and_then (update_hash chunk pos head) (update_hashes chunk (Suc pos) n)"

record chunk_state =
  cs_in_pos :: nat
  cs_out_pos :: nat
  cs_head :: "u16 list"
  cs_out :: bytes

text \<open>
  Where the output is full, \<open>compress_chunk\<close> returns \<open>None\<close> at once: a step of the model then
  returns \<open>Inl\<close> with the state it stops in, and otherwise \<open>Inr\<close>. First the literal branch.
\<close>

definition emit_literal ::
  "bytes \<Rightarrow> u8 \<Rightarrow> chunk_state \<Rightarrow> (chunk_state + u8 \<times> chunk_state, codec_error) outcome" where
  "emit_literal chunk flags s =
     (if cs_out_pos s \<ge> length (cs_out s) then Ok (Inl s)
      else and_then (update_hash chunk (cs_in_pos s) (cs_head s)) (\<lambda>head.
        Ok (Inr (flags, s\<lparr>cs_head := head, cs_out := (cs_out s)[cs_out_pos s := chunk ! cs_in_pos s],
          cs_out_pos := cs_out_pos s + 1, cs_in_pos := cs_in_pos s + 1\<rparr>))))"

text \<open>The body of the loop over the bits of a flag byte.\<close>

definition emit_token ::
  "bytes \<Rightarrow> nat \<Rightarrow> u8 \<Rightarrow> chunk_state \<Rightarrow> (chunk_state + u8 \<times> chunk_state, codec_error) outcome" where
  "emit_token chunk b flags s =
     and_then (find_chunk_match chunk (cs_in_pos s) (cs_head s)) (\<lambda>best_match.
       case best_match of
         Some (displacement, len) \<Rightarrow>
           (let flags = flags OR push_bit b 1
            in and_then (bit_widths (cs_in_pos s)) (\<lambda>(length_bits, _).
                 let length_mask = push_bit length_bits 1 - 1 :: u16
                 in if displacement - 1 \<ge> 2 ^ 16 \<or> len - 3 \<ge> 2 ^ 16 then Panic
                    else
                      let encoded_disp = word_of_nat (displacement - 1);
                          encoded_len = word_of_nat (len - 3)
                      in if encoded_len > length_mask
                         then emit_literal chunk (flags AND NOT (push_bit b 1)) s
                         else
                           let w = push_bit length_bits encoded_disp OR encoded_len
                           in if cs_out_pos s + 2 > length (cs_out s) then Ok (Inl s)
                              else and_then (update_hashes chunk (cs_in_pos s) len (cs_head s)) (\<lambda>head.
                                Ok (Inr (flags, s\<lparr>cs_head := head,
                                  cs_out := write_at (cs_out s) (cs_out_pos s) (u16_to_le_bytes w),
                                  cs_out_pos := cs_out_pos s + 2,
                                  cs_in_pos := cs_in_pos s + len\<rparr>)))))
       | None \<Rightarrow> emit_literal chunk flags s)"

fun emit_bits ::
  "bytes \<Rightarrow> nat list \<Rightarrow> u8 \<Rightarrow> chunk_state \<Rightarrow> (chunk_state + u8 \<times> chunk_state, codec_error) outcome" where
  "emit_bits chunk [] flags s = Ok (Inr (flags, s))"
| "emit_bits chunk (b # bs) flags s =
     (if cs_in_pos s \<ge> length chunk then Ok (Inr (flags, s))
      else and_then (emit_token chunk b flags s) (\<lambda>r.
        case r of Inl s \<Rightarrow> Ok (Inl s) | Inr (flags, s) \<Rightarrow> emit_bits chunk bs flags s))"

text \<open>Every token advances, so the loop over the flag bytes ends.\<close>

lemma emit_literal_advances:
  "emit_literal chunk flags s = Ok (Inr (flags', s')) \<Longrightarrow> cs_in_pos s' = cs_in_pos s + 1"
  by (auto simp: emit_literal_def and_then_eq_Ok_iff split: if_splits)

lemma find_chunk_match_length:
  "find_chunk_match chunk pos head = Ok (Some (d, l)) \<Longrightarrow> 3 \<le> l"
  by (auto simp: find_chunk_match_def Let_def and_then_eq_Ok_iff split: if_splits)

lemma emit_token_advances:
  "emit_token chunk b flags s = Ok (Inr (flags', s')) \<Longrightarrow> cs_in_pos s < cs_in_pos s'"
  by (auto simp: emit_token_def Let_def and_then_eq_Ok_iff split: if_splits option.splits
      dest!: emit_literal_advances find_chunk_match_length)

lemma emit_bits_Cons:
  assumes "emit_bits chunk (b # bs) flags s = Ok (Inr r)" and "cs_in_pos s < length chunk"
  obtains flags1 s1 where "emit_token chunk b flags s = Ok (Inr (flags1, s1))"
    "emit_bits chunk bs flags1 s1 = Ok (Inr r)"
proof -
  from assms obtain x where x: "emit_token chunk b flags s = Ok x"
    and r: "(case x of Inl s \<Rightarrow> Ok (Inl s) | Inr (flags, s) \<Rightarrow> emit_bits chunk bs flags s) = Ok (Inr r)"
    by (auto simp: and_then_eq_Ok_iff)
  from r that x show thesis by (cases x) auto
qed

lemma emit_bits_mono:
  "emit_bits chunk bs flags s = Ok (Inr (flags', s')) \<Longrightarrow> cs_in_pos s \<le> cs_in_pos s'"
proof (induction bs arbitrary: flags s)
  case (Cons b bs)
  show ?case
  proof (cases "cs_in_pos s < length chunk")
    case True
    from Cons.prems True obtain flags1 s1 where "emit_token chunk b flags s = Ok (Inr (flags1, s1))"
      "emit_bits chunk bs flags1 s1 = Ok (Inr (flags', s'))" by (rule emit_bits_Cons)
    with Cons.IH emit_token_advances show ?thesis by fastforce
  qed (use Cons.prems in simp)
qed simp

lemma emit_bits_advances:
  assumes "emit_bits chunk (b # bs) flags s = Ok (Inr (flags', s'))" and "cs_in_pos s < length chunk"
  shows "cs_in_pos s < cs_in_pos s'"
  using assms by (rule emit_bits_Cons) (fastforce dest: emit_token_advances emit_bits_mono)

function compress_groups ::
  "bytes \<Rightarrow> chunk_state \<Rightarrow> (chunk_state + chunk_state, codec_error) outcome" where
  "compress_groups chunk s =
     (if cs_in_pos s < length chunk
      then
        if cs_out_pos s \<ge> length (cs_out s) then Ok (Inl s)
        else
          let flag_pos = cs_out_pos s
          in case emit_bits chunk [0..<8] 0
                    (s\<lparr>cs_out := (cs_out s)[flag_pos := 0], cs_out_pos := flag_pos + 1\<rparr>) of
               Ok (Inr (flags, s')) \<Rightarrow>
                 compress_groups chunk (s'\<lparr>cs_out := (cs_out s')[flag_pos := flags]\<rparr>)
             | Ok (Inl s') \<Rightarrow> Ok (Inl s')
             | Err e \<Rightarrow> Err e | Panic \<Rightarrow> Panic | Diverge \<Rightarrow> Diverge
      else Ok (Inr s))"
  by pat_completeness auto
termination
proof (relation "measure (\<lambda>(chunk, s). length chunk - cs_in_pos s)", goal_cases)
  case (2 chunk s flag_pos r x flags s')
  then have "emit_bits chunk (0 # [1..<8]) 0
      (s\<lparr>cs_out := (cs_out s)[flag_pos := 0], cs_out_pos := flag_pos + 1\<rparr>) = Ok (Inr (flags, s'))"
    by (simp add: upt_conv_Cons)
  from emit_bits_advances [OF this] 2 show ?case by simp
qed simp

declare compress_groups.simps [simp del]

text \<open>The result is the compressed length, where there is one, and the output buffer.\<close>

definition compress_chunk :: "bytes \<Rightarrow> bytes \<Rightarrow> (nat option \<times> bytes, codec_error) outcome" where
  "compress_chunk chunk out =
     and_then (compress_groups chunk
         \<lparr>cs_in_pos = 0, cs_out_pos = 0, cs_head = replicate HASH_SIZE 0, cs_out = out\<rparr>)
       (\<lambda>r. case r of Inl s \<Rightarrow> Ok (None, cs_out s) | Inr s \<Rightarrow> Ok (Some (cs_out_pos s), cs_out s))"

definition write_chunk_header :: "bytes \<Rightarrow> nat \<Rightarrow> nat \<Rightarrow> bool \<Rightarrow> (nat, codec_error) outcome \<times> bytes" where
  "write_chunk_header out out_pos data_size is_compressed =
     (if out_pos + 2 > length out then (Err (OutputTooSmall (out_pos + 2) (length out)), out)
      else if data_size \<ge> 2 ^ 16 \<or> data_size = 0 then (Panic, out)
      else
        let size_field = (word_of_nat data_size - 1) AND 0x0FFF :: u16;
            compressed_flag = (if is_compressed then 0x8000 else 0);
            header = size_field OR push_bit 12 CHUNK_SIGNATURE OR compressed_flag
        in (Ok (out_pos + 2), write_at out out_pos (u16_to_le_bytes header)))"

definition write_bytes :: "bytes \<Rightarrow> nat \<Rightarrow> bytes \<Rightarrow> (nat, codec_error) outcome \<times> bytes" where
  "write_bytes out out_pos data =
     (if out_pos + length data > length out
      then (Err (OutputTooSmall (out_pos + length data) (length out)), out)
      else (Ok (out_pos + length data), write_at out out_pos data))"

text \<open>
  The scratch buffer of a chunk is a prefix of one array that lives through all chunks; the
  result is the output position and that array.
\<close>

definition write_chunk ::
  "bytes \<Rightarrow> bytes \<Rightarrow> nat \<Rightarrow> bytes \<Rightarrow> (nat \<times> bytes, codec_error) outcome \<times> bytes" where
  "write_chunk chunk_data scratch out_pos out =
     and_do (compress_chunk chunk_data (take (length chunk_data) scratch), out) (\<lambda>(r, compressed) out.
       let scratch = compressed @ drop (length chunk_data) scratch;
           stored = and_do (write_chunk_header out out_pos (length chunk_data) False)
             (\<lambda>out_pos out. write_bytes out out_pos chunk_data)
       in and_do
            (case r of
               Some compressed_len \<Rightarrow>
                 (if compressed_len < length chunk_data
                  then and_do (write_chunk_header out out_pos compressed_len True)
                         (\<lambda>out_pos out. write_bytes out out_pos (take compressed_len scratch))
                  else stored)
             | None \<Rightarrow> stored)
            (\<lambda>out_pos out. (Ok (out_pos, scratch), out)))"

function compress_loop ::
  "bytes \<Rightarrow> nat \<Rightarrow> bytes \<Rightarrow> nat \<Rightarrow> bytes \<Rightarrow> (nat, codec_error) outcome \<times> bytes" where
  "compress_loop input in_pos scratch out_pos out =
     (if in_pos < length input
      then
        let chunk_end = min (in_pos + CHUNK_SIZE) (length input);
            chunk_data = slice input in_pos (chunk_end - in_pos)
        in and_do (write_chunk chunk_data scratch out_pos out)
             (\<lambda>(out_pos, scratch) out. compress_loop input chunk_end scratch out_pos out)
      else (Ok out_pos, out))"
  by pat_completeness auto
termination
  by (relation "measure (\<lambda>(input, in_pos, scratch, out_pos, out). length input - in_pos)")
    (auto simp: CHUNK_SIZE_def)

declare compress_loop.simps [simp del]

definition compress :: "bytes \<Rightarrow> bytes \<Rightarrow> (nat, codec_error) outcome \<times> bytes" where
  "compress input out =
     and_do (compress_loop input 0 (replicate CHUNK_SIZE 0) 0 out) (\<lambda>out_pos out.
       if out_pos + 2 > length out then (Err (OutputTooSmall (out_pos + 2) (length out)), out)
       else (Ok (out_pos + 2), write_at out out_pos [0, 0]))"

end
