(* ===== verification/Lznt1_Lemmas.thy ===== *)
theory Lznt1_Lemmas
  imports Lznt1
begin

text \<open>
  The lemmas LZNT1's theorems rest on: \<open>bit_widths\<close> does not underflow on positions a chunk can
  reach, the decoder writes only where it says, the match finder is sound, a match word decodes
  to what was encoded, and what one token of the encoder writes.
\<close>

section \<open>Bit widths\<close>

lemma bit_widths_loop_ok:
  assumes "p \<le> t * 2 ^ s"
  shows "\<exists>s' \<le> s. bit_widths_loop s t p = Ok s' \<and> p \<le> t * 2 ^ (s - s')"
  using assms
proof (induction s arbitrary: t)
  case 0
  then show ?case by simp
next
  case (Suc s)
  show ?case
  proof (cases "t < p")
    case True
    from Suc.prems have "p \<le> (2 * t) * 2 ^ s" by simp
    from Suc.IH [OF this] obtain s' where "s' \<le> s" "bit_widths_loop s (2 * t) p = Ok s'"
      "p \<le> 2 * t * 2 ^ (s - s')" by blast
    with True show ?thesis by (intro exI [of _ s']) (simp add: Suc_diff_le)
  next
    case False
    then show ?thesis by (intro exI [of _ "Suc s"]) simp
  qed
qed

lemma bit_widths_ok:
  assumes "p \<le> 65536"
  shows "\<exists>s \<le> 12. bit_widths p = Ok (s, 16 - s) \<and> p \<le> 2 ^ (16 - s)"
proof -
  from assms have "p \<le> 16 * 2 ^ 12" by simp
  from bit_widths_loop_ok [OF this] obtain s where s: "s \<le> 12" "bit_widths_loop 12 16 p = Ok s"
    "p \<le> 16 * 2 ^ (12 - s)" by blast
  have "(2::nat) ^ (16 - s) = 2 ^ (4 + (12 - s))" using s(1) by simp
  also have "\<dots> = 16 * 2 ^ (12 - s)" by (simp only: power_add) simp
  finally show ?thesis using s by (intro exI [of _ s]) (simp add: bit_widths_def)
qed

declare bit_widths_loop.simps [simp del]

text \<open>How far one match can reach: the quantity that bounds the decoder's position in a chunk.\<close>

lemma match_reach:
  assumes "s \<le> 12" and "p \<le> 2 ^ (16 - s)" and "l \<le> 2 ^ s + 2" and "p \<le> 8202 + 3 * (c::nat)"
  shows "p + l \<le> 8202 + 3 * (c + 2)"
proof (cases "p \<le> 8192")
  case True
  show ?thesis
  proof (cases "4 \<le> s")
    case s4: True
    have "(2::nat) ^ (16 - s) \<le> 2 ^ 12" "(2::nat) ^ s \<le> 2 ^ 12"
      using s4 assms(1) by (intro power_increasing; simp)+
    then show ?thesis using assms(2,3) by simp
  next
    case False
    then have "(2::nat) ^ s \<le> 2 ^ 3" by (intro power_increasing) auto
    then show ?thesis using assms(3) True by simp
  qed
next
  case False
  have "s \<le> 2"
  proof (rule ccontr)
    assume "\<not> s \<le> 2"
    then have "(2::nat) ^ (16 - s) \<le> 2 ^ 13" by (intro power_increasing) auto
    then show False using assms(2) False by simp
  qed
  then have "(2::nat) ^ s \<le> 2 ^ 2" by (intro power_increasing) auto
  then show ?thesis using assms(3,4) by simp
qed

lemma decode_match_ok:
  assumes "p \<le> 65536"
  shows "\<exists>s d l. s \<le> 12 \<and> p \<le> 2 ^ (16 - s) \<and> decode_match w p = Ok (d, l) \<and> 0 < d \<and> 3 \<le> l \<and> l \<le> 2 ^ s + 2"
proof -
  from bit_widths_ok [OF assms] obtain s where s: "s \<le> 12" "bit_widths p = Ok (s, 16 - s)"
    "p \<le> 2 ^ (16 - s)" by blast
  have "w AND (push_bit s 1 - 1) = take_bit s w"
    by (simp add: take_bit_eq_mask mask_eq_exp_minus_1 push_bit_of_1)
  moreover have "unat (take_bit s w) < 2 ^ s"
    by (simp add: unsigned_take_bit_eq)
  ultimately show ?thesis using s by (auto simp: decode_match_def Let_def intro!: exI [of _ s])
qed


section \<open>Totality of decompression\<close>


text \<open>The output was written from \<open>a\<close> to \<open>b\<close> and nowhere else.\<close>

definition wrote :: "bytes \<Rightarrow> nat \<Rightarrow> nat \<Rightarrow> bytes \<Rightarrow> bool" where
  "wrote out a b out' \<longleftrightarrow> length out' = length out \<and> a \<le> b \<and> b \<le> length out
     \<and> take a out' = take a out \<and> drop b out' = drop b out"

lemma wrote_refl: "a \<le> length out \<Longrightarrow> wrote out a a out"
  by (simp add: wrote_def)

lemma wrote_trans:
  assumes "wrote out a b out1" and "wrote out1 b c out2"
  shows "wrote out a c out2"
proof -
  have "take a out2 = take a (take b out2)" using assms(1) by (simp add: wrote_def min_def)
  also have "\<dots> = take a (take b out1)" using assms(2) by (simp add: wrote_def)
  also have "\<dots> = take a out" using assms(1) by (simp add: wrote_def min_def)
  finally have 1: "take a out2 = take a out" .
  have "drop c out1 = drop (c - b) (drop b out1)" using assms(2) by (simp add: wrote_def)
  also have "\<dots> = drop (c - b) (drop b out)" using assms(1) by (simp add: wrote_def)
  also have "\<dots> = drop c out" using assms(2) by (simp add: wrote_def)
  finally show ?thesis using 1 assms by (simp add: wrote_def)
qed

lemma take_copy_within: "k \<le> dst \<Longrightarrow> take k (copy_within out src dst n) = take k out"
  by (induction n arbitrary: out src dst) simp_all

lemma wrote_byte: "p < length out \<Longrightarrow> wrote out p (p + 1) (out[p := v])"
  by (simp add: wrote_def)

lemma wrote_copy: "p + n \<le> length out \<Longrightarrow> wrote out p (p + n) (copy_within out src p n)"
  by (simp add: wrote_def take_copy_within drop_copy_within)

lemma wrote_slice: "p + length data \<le> length out \<Longrightarrow> wrote out p (p + length data) (write_at out p data)"
  by (simp add: wrote_def take_write_at drop_write_at)

text \<open>
  What a run of the decoder inside a chunk leaves: the write position, relative to the start of
  the chunk, stays within the bound under which \<open>bit_widths\<close> does not underflow.
\<close>

fun in_chunk :: "nat \<Rightarrow> nat \<Rightarrow> bytes \<Rightarrow> (nat \<times> nat, codec_error) outcome \<times> bytes \<Rightarrow> bool" where
  "in_chunk st wp out (Ok (cp', wp'), out') \<longleftrightarrow> wrote out wp wp' out' \<and> wp' - st \<le> 8202 + 3 * cp'"
| "in_chunk st wp out (Err e, out') \<longleftrightarrow> length out' = length out"
| "in_chunk st wp out (Panic, out') \<longleftrightarrow> False"
| "in_chunk st wp out (Diverge, out') \<longleftrightarrow> False"

lemma in_chunk_after:
  "wrote out wp wp1 out1 \<Longrightarrow> in_chunk st wp1 out1 r \<Longrightarrow> in_chunk st wp out r"
  by (cases "(st, wp1, out1, r)" rule: in_chunk.cases) (auto intro: wrote_trans, simp add: wrote_def)

lemma in_chunk_elim:
  assumes "in_chunk st wp out r"
  obtains (ok) cp' wp' out' where "r = (Ok (cp', wp'), out')" "wrote out wp wp' out'"
      "wp' - st \<le> 8202 + 3 * cp'"
    | (err) e out' where "r = (Err e, out')" "length out' = length out"
  using assms by (cases "(st, wp, out, r)" rule: in_chunk.cases) auto

lemma chunk_bits_in_chunk:
  assumes "length d \<le> 4096" and "st \<le> wp" and "wp - st \<le> 8202 + 3 * cp" and "wp \<le> length out"
  shows "in_chunk st wp out (chunk_bits d st fl bs cp wp out)"
  using assms
proof (induction bs arbitrary: cp wp out)
  case (Cons b bs)
  show ?case
  proof (cases "cp < length d")
    case cp: True
    show ?thesis
    proof (cases "drop_bit b fl AND 1 = 0")
      case lit: True
      show ?thesis
      proof (cases "wp < length out")
        case True
        then have "in_chunk st (wp + 1) (out[wp := d ! cp])
            (chunk_bits d st fl bs (cp + 1) (wp + 1) (out[wp := d ! cp]))"
          using Cons.prems by (intro Cons.IH) auto
        from in_chunk_after [OF wrote_byte [OF True] this] cp lit True show ?thesis by simp
      qed (use cp lit in simp)
    next
      case False
      have "wp - st \<le> 65536" using Cons.prems(1,3) cp by linarith
      from decode_match_ok [OF this, of "from_le_bytes [d ! cp, d ! (cp + 1)]"] obtain s dd l where
        m: "s \<le> 12" "wp - st \<le> 2 ^ (16 - s)" "l \<le> 2 ^ s + 2"
          "decode_match (from_le_bytes [d ! cp, d ! (cp + 1)]) (wp - st) = Ok (dd, l)" by blast
      show ?thesis
      proof (cases "cp + 2 \<le> length d \<and> dd \<le> wp - st \<and> wp + l \<le> length out")
        case True
        let ?out = "copy_within out (wp - dd) wp l"
        have "wp + l - st \<le> 8202 + 3 * (cp + 2)"
          using match_reach [OF m(1-3) Cons.prems(3)] Cons.prems(2) by simp
        then have "in_chunk st (wp + l) ?out (chunk_bits d st fl bs (cp + 2) (wp + l) ?out)"
          using Cons.prems True by (intro Cons.IH) auto
        from in_chunk_after [OF wrote_copy this] True cp False m(4) show ?thesis
          by (simp add: Let_def)
      next
        case f: False
        with cp False m(4) show ?thesis by (auto simp: Let_def)
      qed
    qed
  qed (use Cons.prems in \<open>simp add: wrote_refl\<close>)
qed (simp add: wrote_refl)

text \<open>The same for whole chunks and whole streams.\<close>

fun decoded :: "nat \<Rightarrow> bytes \<Rightarrow> (nat, codec_error) outcome \<times> bytes \<Rightarrow> bool" where
  "decoded p out (Ok p', out') \<longleftrightarrow> wrote out p p' out'"
| "decoded p out (Err e, out') \<longleftrightarrow> length out' = length out"
| "decoded p out (Panic, out') \<longleftrightarrow> False"
| "decoded p out (Diverge, out') \<longleftrightarrow> False"

lemma decoded_after: "wrote out p p1 out1 \<Longrightarrow> decoded p1 out1 r \<Longrightarrow> decoded p out r"
  by (cases "(p1, out1, r)" rule: decoded.cases) (auto intro: wrote_trans, simp add: wrote_def)

lemma decoded_elim:
  assumes "decoded p out r"
  obtains (ok) p' out' where "r = (Ok p', out')" "wrote out p p' out'"
    | (err) e out' where "r = (Err e, out')" "length out' = length out"
  using assms by (cases "(p, out, r)" rule: decoded.cases) auto

lemma chunk_groups_decoded:
  assumes "length d \<le> 4096" and "st \<le> wp" and "wp - st \<le> 8202 + 3 * cp" and "wp \<le> length out"
  shows "decoded wp out (chunk_groups d st cp wp out)"
  using assms
proof (induction d st cp wp out rule: chunk_groups.induct)
  case (1 d st cp wp out)
  show ?case
  proof (cases "cp < length d")
    case True
    let ?r = "chunk_bits d st (d ! cp) [0..<8] (cp + 1) wp out"
    have "in_chunk st wp out ?r" using "1.prems" by (intro chunk_bits_in_chunk) auto
    then show ?thesis
    proof (cases rule: in_chunk_elim)
      case (ok cp' wp' out')
      have "st \<le> wp'" "wp' \<le> length out'" using ok(2) "1.prems"(2) by (auto simp: wrote_def)
      from "1.IH" [OF True ok(1) [symmetric] refl refl "1.prems"(1) this(1) ok(3) this(2)]
      have "decoded wp' out' (chunk_groups d st cp' wp' out')" .
      from decoded_after [OF ok(2) this] ok(1) True show ?thesis by (simp add: chunk_groups.simps)
    next
      case (err e out')
      with True show ?thesis by (simp add: chunk_groups.simps)
    qed
  qed (use "1.prems" in \<open>simp add: chunk_groups.simps wrote_refl\<close>)
qed

lemma unat_and_mask: "unat (w AND mask n) < 2 ^ n" if "n < LENGTH('w)" for w :: "'w::len word"
  using that by (simp flip: take_bit_eq_mask add: unsigned_take_bit_eq)

lemma unat_mask: "unat (mask n :: 'w::len word) = 2 ^ n - 1" if "n \<le> LENGTH('w)"
proof -
  have "unat (mask n :: 'w word) = nat (uint (mask n :: 'w word))" by simp
  also have "\<dots> = nat (mask n)" using that by (simp only: uint_mask_eq min_absorb2)
  also have "\<dots> = 2 ^ n - 1" by (simp only: nat_mask_eq) (simp add: mask_eq_exp_minus_1)
  finally show ?thesis .
qed

lemma header_data_size_bounds: "0 < header_data_size h" "header_data_size h \<le> 4096"
proof -
  have "(0x0FFF :: u16) = mask 12" by (simp add: mask_eq_exp_minus_1)
  then have "unat (h AND 0x0FFF) < 2 ^ 12" by (simp only:) (rule unat_and_mask, simp)
  then show "0 < header_data_size h" "header_data_size h \<le> 4096" by (simp_all add: header_data_size_def)
qed

lemma decompress_chunk_decoded:
  assumes "length d \<le> 4096" and "p \<le> length out"
  shows "decoded p out (decompress_chunk h d out p)"
  using assms
  by (auto simp: decompress_chunk_def decompress_chunk_strict_def copy_uncompressed_chunk_def Let_def
      intro: chunk_groups_decoded wrote_slice)

lemma decompress_loop_decoded:
  "p \<le> length out \<Longrightarrow> decoded p out (decompress_loop input ip p out)"
proof (induction input ip p out rule: decompress_loop.induct)
  case (1 input ip p out)
  show ?case
  proof (cases "read_chunk_header input ip")
    case (Some h)
    let ?n = "header_data_size h"
    show ?thesis
    proof (cases "validate_chunk_signature h ip = Ok () \<and> ip + 2 + ?n \<le> length input")
      case True
      let ?r = "decompress_chunk h (slice input (ip + 2) ?n) out p"
      have "length (slice input (ip + 2) ?n) \<le> 4096" using header_data_size_bounds(2) [of h] by simp
      from decompress_chunk_decoded [OF this "1.prems"] have "decoded p out ?r" .
      then show ?thesis
      proof (cases rule: decoded_elim)
        case (ok p' out')
        then have "decoded p' out' (decompress_loop input (ip + 2 + ?n) p' out')"
          using True Some by (intro "1.IH") (auto simp: wrote_def)
        from decoded_after [OF ok(2) this] ok True Some show ?thesis
          by (subst decompress_loop.simps) simp
      next
        case (err e out')
        with True Some show ?thesis by (subst decompress_loop.simps) simp
      qed
    next
      case False
      then show ?thesis using Some
        by (subst decompress_loop.simps) (auto simp: validate_chunk_signature_def Let_def)
    qed
  qed (use 1 in \<open>simp add: decompress_loop.simps wrote_refl\<close>)
qed

section \<open>The match finder\<close>

lemma hash3_in_table: "hash3 data pos < HASH_SIZE"
proof -
  have "(0xFFF :: u32) = mask 12" by (simp add: mask_eq_exp_minus_1)
  then have "unat (w AND 0xFFF) < 2 ^ 12" for w :: u32 by (simp only:) (rule unat_and_mask, simp)
  then show ?thesis by (simp add: hash3_def HASH_SIZE_def Let_def)
qed

lemma match_length_matches:
  assumes "len \<le> max_len"
    and "\<And>i. i < len \<Longrightarrow> chunk ! (candidate + i) = chunk ! (pos + i)"
  shows "match_length chunk candidate pos max_len len \<le> max_len
    \<and> (\<forall>i < match_length chunk candidate pos max_len len. chunk ! (candidate + i) = chunk ! (pos + i))"
  using assms
proof (induction chunk candidate pos max_len len rule: match_length.induct)
  case (1 chunk candidate pos max_len len)
  show ?case
  proof (cases "len < max_len \<and> chunk ! (candidate + len) = chunk ! (pos + len)")
    case True
    have "match_length chunk candidate pos max_len (len + 1) \<le> max_len
      \<and> (\<forall>i < match_length chunk candidate pos max_len (len + 1).
           chunk ! (candidate + i) = chunk ! (pos + i))"
    proof (rule "1.IH" [OF True])
      show "chunk ! (candidate + i) = chunk ! (pos + i)" if "i < len + 1" for i
        using that True "1.prems"(2) by (cases "i = len") auto
    qed (use True in simp)
    with True show ?thesis by (subst (1 2) match_length.simps) simp
  next
    case False
    then show ?thesis using "1.prems" by (subst (1 2) match_length.simps) auto
  qed
qed

text \<open>A match that the finder returns can be encoded, and copying it repeats the chunk.\<close>

lemma find_chunk_match_sound:
  assumes "pos \<le> 65536"
  shows "\<exists>r. find_chunk_match chunk pos head = Ok r
    \<and> (\<forall>d l. r = Some (d, l) \<longrightarrow> 3 \<le> l \<and> 0 < d \<and> d \<le> pos \<and> pos + l \<le> length chunk
      \<and> (\<forall>i < l. chunk ! (pos - d + i) = chunk ! (pos + i))
      \<and> (\<exists>s \<le> 12. bit_widths pos = Ok (s, 16 - s) \<and> d \<le> 2 ^ (16 - s) \<and> l - 3 < 2 ^ s))"
proof -
  from bit_widths_ok [OF assms] obtain s where s: "s \<le> 12" "bit_widths pos = Ok (s, 16 - s)" by blast
  let ?c = "unat (head ! hash3 chunk pos)"
  let ?m = "min (2 ^ s - 1 + 3) (length chunk - pos)"
  let ?l = "match_length chunk ?c pos ?m 0"
  have ml: "?l \<le> ?m" "\<forall>i < ?l. chunk ! (?c + i) = chunk ! (pos + i)"
    using match_length_matches [of 0 ?m chunk ?c pos] by auto
  have "?l \<le> 2 ^ s + 2" "0 < (2::nat) ^ s" using ml(1) by simp_all
  then have "?l - 3 < 2 ^ s" by linarith
  moreover have "pos + ?l \<le> length chunk" if "pos + 3 \<le> length chunk"
  proof -
    have "?l \<le> length chunk - pos" using ml(1) by simp
    then show ?thesis using that by linarith
  qed
  ultimately show ?thesis using s ml(2) by (simp add: find_chunk_match_def Let_def)
qed

lemma update_hash_ok: "pos < 65536 \<Longrightarrow> \<exists>head'. update_hash chunk pos head = Ok head'"
  by (simp add: update_hash_def)

lemma update_hashes_ok: "pos + n \<le> 65536 \<Longrightarrow> \<exists>head'. update_hashes chunk pos n head = Ok head'"
proof (induction n arbitrary: pos head)
  case (Suc n)
  then obtain h where "update_hash chunk pos head = Ok h" using update_hash_ok [of pos chunk head] by auto
  with Suc show ?case by simp
qed simp


section \<open>Match words\<close>

lemma match_word_decode:
  assumes "s \<le> 12" and "d < 2 ^ (16 - s)" and "l < 2 ^ s"
  defines "w \<equiv> push_bit s (word_of_nat d) OR word_of_nat l :: u16"
  shows "unat (drop_bit s w) = d" and "unat (w AND (push_bit s 1 - 1)) = l"
proof -
  have "(2::nat) ^ s \<le> 2 ^ 16" using assms(1) by (intro power_increasing) auto
  then have "l < 2 ^ 16" using assms(3) by linarith
  then have ul: "unat (word_of_nat l :: u16) = l" by (simp add: unat_of_nat)
  have "(2::nat) ^ (16 - s) \<le> 2 ^ 16" by (rule power_increasing) auto
  then have ud: "unat (word_of_nat d :: u16) = d" using assms(2) by (simp add: unat_of_nat)
  have "take_bit (16 - s) d = d" using assms(2) by (simp add: take_bit_nat_eq_self)
  then have "unat (push_bit s (word_of_nat d) :: u16) = push_bit s d"
    by (simp add: unsigned_push_bit_eq ud take_bit_push_bit)
  then have uw: "unat w = push_bit s d OR l" by (simp add: w_def unsigned_or_eq ul)
  have "drop_bit s l = 0" using assms(3) by (simp add: drop_bit_eq_div)
  moreover have "drop_bit s (push_bit s d) = d" by (simp add: drop_bit_eq_div push_bit_eq_mult)
  ultimately have "drop_bit s (unat w) = d" by (simp add: uw)
  then show "unat (drop_bit s w) = d"
    using unat_less_power [of w] by (simp add: unsigned_drop_bit_eq take_bit_nat_eq_self)
  have "take_bit s (unat w) = l" by (simp add: uw take_bit_push_bit take_bit_nat_eq_self assms(3))
  moreover have "w AND (push_bit s 1 - 1) = take_bit s w"
    by (simp add: take_bit_eq_mask mask_eq_exp_minus_1 push_bit_of_1)
  ultimately show "unat (w AND (push_bit s 1 - 1)) = l"
    using assms(1) by (simp add: unsigned_take_bit_eq)
qed

section \<open>Encoder and decoder\<close>

text \<open>
  The encoder's state after some tokens, and what the tokens it wrote mean. \<open>target\<close> is what
  the decoder is to produce: the output before the chunk, and the chunk.
\<close>

lemma flag_bit: "drop_bit b fl AND 1 = 0 \<longleftrightarrow> \<not> bit fl b" for fl :: u8
  by (simp add: bit_iff_odd_drop_bit and_one_eq even_iff_mod_2_eq_zero)

lemma emit_token_cases:
  assumes "emit_token chunk b flags s = Ok (Inr (flags', s'))" and "length chunk \<le> 4096"
    and "cs_in_pos s < length chunk" and "b < 8" and "\<not> bit flags b"
  obtains
    (lit) head where "cs_out_pos s < length (cs_out s)"
      "s' = s\<lparr>cs_head := head, cs_out := (cs_out s)[cs_out_pos s := chunk ! cs_in_pos s],
         cs_out_pos := cs_out_pos s + 1, cs_in_pos := cs_in_pos s + 1\<rparr>"
      "\<not> bit flags' b" "\<And>i. i \<noteq> b \<Longrightarrow> bit flags' i = bit flags i"
  | (match) head w d l where "cs_out_pos s + 2 \<le> length (cs_out s)"
      "s' = s\<lparr>cs_head := head, cs_out := write_at (cs_out s) (cs_out_pos s) (u16_to_le_bytes w),
         cs_out_pos := cs_out_pos s + 2, cs_in_pos := cs_in_pos s + l\<rparr>"
      "bit flags' b" "\<And>i. i \<noteq> b \<Longrightarrow> bit flags' i = bit flags i"
      "decode_match w (cs_in_pos s) = Ok (d, l)" "0 < d" "d \<le> cs_in_pos s"
      "cs_in_pos s + l \<le> length chunk" "0 < l"
      "\<And>i. i < l \<Longrightarrow> chunk ! (cs_in_pos s - d + i) = chunk ! (cs_in_pos s + i)"
proof -
  let ?p = "cs_in_pos s"
  have fl: "bit (flags OR push_bit b 1) b" "\<And>i. i \<noteq> b \<Longrightarrow> bit (flags OR push_bit b 1) i = bit flags i"
    using assms(4) by (auto simp: bit_simps)
  have "?p \<le> 65536" using assms(2,3) by simp
  from find_chunk_match_sound [OF this, of chunk "cs_head s"] obtain r where
    r: "find_chunk_match chunk ?p (cs_head s) = Ok r" and
    snd: "\<forall>d l. r = Some (d, l) \<longrightarrow> 3 \<le> l \<and> 0 < d \<and> d \<le> ?p \<and> ?p + l \<le> length chunk
      \<and> (\<forall>i < l. chunk ! (?p - d + i) = chunk ! (?p + i))
      \<and> (\<exists>s \<le> 12. bit_widths ?p = Ok (s, 16 - s) \<and> d \<le> 2 ^ (16 - s) \<and> l - 3 < 2 ^ s)" by blast
  show thesis
  proof (cases r)
    case None
    with assms(1) r obtain head where "cs_out_pos s < length (cs_out s)" "flags' = flags"
      "s' = s\<lparr>cs_head := head, cs_out := (cs_out s)[cs_out_pos s := chunk ! cs_in_pos s],
         cs_out_pos := cs_out_pos s + 1, cs_in_pos := cs_in_pos s + 1\<rparr>"
      by (auto simp: emit_token_def emit_literal_def and_then_eq_Ok_iff not_le split: if_splits)
    with assms(5) show thesis by (intro lit) auto
  next
    case (Some dl)
    obtain d l where dl: "dl = (d, l)" by fastforce
    with snd Some obtain lb where m: "3 \<le> l" "0 < d" "d \<le> ?p" "?p + l \<le> length chunk"
      "\<And>i. i < l \<Longrightarrow> chunk ! (?p - d + i) = chunk ! (?p + i)" "lb \<le> 12"
      "bit_widths ?p = Ok (lb, 16 - lb)" "d \<le> 2 ^ (16 - lb)" "l - 3 < 2 ^ lb" by blast
    let ?w = "push_bit lb (word_of_nat (d - 1)) OR word_of_nat (l - 3) :: u16"
    have "d - 1 < 2 ^ (16 - lb)" using m(2,8) by linarith
    note dec = match_word_decode [OF m(6) this m(9)]
    have dm: "decode_match ?w ?p = Ok (d, l)"
      using dec m(1,2) by (simp only: decode_match_def m(7) and_then.simps split_conv Let_def) simp
    have "(2::nat) ^ lb \<le> 4096" using power_increasing [of lb 12 "2::nat"] m(6) by simp
    then have "l - 3 < 4096" using m(9) by linarith
    then have l3: "l - 3 < 2 ^ 16" by simp
    have d1: "d - 1 < 2 ^ 16" using m(3) assms(2,3) by simp
    have fits: "\<not> (word_of_nat (l - 3) :: u16) > push_bit lb 1 - 1"
    proof -
      have "push_bit lb 1 - 1 = (mask lb :: u16)" by (simp add: mask_eq_exp_minus_1 push_bit_of_1)
      moreover have "unat (mask lb :: u16) = 2 ^ lb - 1" using m(6) by (intro unat_mask) simp
      moreover have "unat (word_of_nat (l - 3) :: u16) = l - 3"
        using l3 by (simp only: unat_of_nat) simp
      ultimately show ?thesis using m(9) by (simp only: word_less_nat_alt)
    qed
    have "emit_token chunk b flags s =
       (if cs_out_pos s + 2 > length (cs_out s) then Ok (Inl s)
        else and_then (update_hashes chunk (cs_in_pos s) l (cs_head s)) (\<lambda>head.
          Ok (Inr (flags OR push_bit b 1, s\<lparr>cs_head := head,
            cs_out := write_at (cs_out s) (cs_out_pos s) (u16_to_le_bytes ?w),
            cs_out_pos := cs_out_pos s + 2, cs_in_pos := cs_in_pos s + l\<rparr>))))"
      using l3 d1 fits
      by (simp only: emit_token_def r Some dl and_then.simps option.case split_conv Let_def m(7)
          not_le [symmetric] if_False simp_thms if_not_P)
    with assms(1) obtain head where st: "cs_out_pos s + 2 \<le> length (cs_out s)"
      "flags' = flags OR push_bit b 1"
      "s' = s\<lparr>cs_head := head, cs_out := write_at (cs_out s) (cs_out_pos s) (u16_to_le_bytes ?w),
         cs_out_pos := cs_out_pos s + 2, cs_in_pos := cs_in_pos s + l\<rparr>"
      by (auto simp: and_then_eq_Ok_iff not_le split: if_splits)
    show thesis by (rule match [OF st(1,3) _ _ dm m(2,3,4) _ m(5)]) (use st(2) fl m(1) in auto)
  qed
qed


end
