(* ===== verification/Lznt1_Simulation.thy ===== *)
theory Lznt1_Simulation
  imports Lznt1_Lemmas
begin

text \<open>
  The simulation between LZNT1's encoder and decoder, from one token to a stored chunk: what the
  encoder writes, the decoder turns back into the chunk. The encoder does not panic.
\<close>

section \<open>Tokens\<close>

text \<open>
  The bits \<open>bs\<close> up to \<open>bs'\<close> of a flag byte, read from the compressed data between the second
  components of \<open>from\<close> and \<open>to\<close>, decode to the chunk's bytes between the first components. \<open>d\<close> is
  the compressed data, \<open>st\<close> the start of the chunk in the decoder's output, \<open>target\<close> what this output is to be.
\<close>

definition decodes_to ::
  "bytes \<Rightarrow> nat \<Rightarrow> u8 \<Rightarrow> nat list \<Rightarrow> nat list \<Rightarrow> bytes \<Rightarrow> nat \<times> nat \<Rightarrow> nat \<times> nat \<Rightarrow> bool" where
  "decodes_to d st fl bs bs' target from to \<longleftrightarrow>
     (\<forall>out. length target \<le> length out \<longrightarrow> take (st + fst from) out = take (st + fst from) target \<longrightarrow>
       (\<exists>out'. chunk_bits d st fl bs (snd from) (st + fst from) out
            = chunk_bits d st fl bs' (snd to) (st + fst to) out'
          \<and> length out' = length out \<and> take (st + fst to) out' = take (st + fst to) target))"

abbreviation positions :: "chunk_state \<Rightarrow> nat \<times> nat" where
  "positions s \<equiv> (cs_in_pos s, cs_out_pos s)"

text \<open>What the decoder needs to know of the compressed data and of the target.\<close>

definition same_bytes :: "bytes \<Rightarrow> bytes \<Rightarrow> nat \<Rightarrow> nat \<Rightarrow> bool" where
  "same_bytes d out a b \<longleftrightarrow> b \<le> length d \<and> (\<forall>i. a \<le> i \<longrightarrow> i < b \<longrightarrow> d ! i = out ! i)"

definition target_of :: "bytes \<Rightarrow> nat \<Rightarrow> bytes \<Rightarrow> bool" where
  "target_of target st chunk \<longleftrightarrow> length target = st + length chunk \<and> drop st target = chunk"

lemma target_nth: "target_of target st chunk \<Longrightarrow> i < length chunk \<Longrightarrow> target ! (st + i) = chunk ! i"
  unfolding target_of_def by (metis le_add1 nth_drop)

lemma nth_write_at:
  "p + length data \<le> length out \<Longrightarrow> i < length data \<Longrightarrow> write_at out p data ! (p + i) = data ! i"
  by (simp add: write_at_def nth_append)

lemma chunk_bits_literal:
  assumes "cp < length d" and "\<not> bit fl b" and "wp < length out"
  shows "chunk_bits d st fl (b # bs) cp wp out
    = chunk_bits d st fl bs (cp + 1) (wp + 1) (out[wp := d ! cp])"
  using assms flag_bit [of b fl] by (simp only: chunk_bits.simps if_False if_True not_le [symmetric] simp_thms)

lemma chunk_bits_match:
  assumes "cp + 2 \<le> length d" and "bit fl b"
    and "decode_match (from_le_bytes [d ! cp, d ! (cp + 1)]) (wp - st) = Ok (dd, l)"
    and "dd \<le> wp - st" and "wp + l \<le> length out"
  shows "chunk_bits d st fl (b # bs) cp wp out
    = chunk_bits d st fl bs (cp + 2) (wp + l) (copy_within out (wp - dd) wp l)"
proof -
  have "\<not> length d \<le> cp" "\<not> length d < cp + 2" "\<not> wp - st < dd" "\<not> length out < wp + l"
    "\<not> drop_bit b fl AND 1 = 0"
    using assms(1,4,5) flag_bit [of b fl] assms(2) by auto
  then show ?thesis
    using assms(3) by (simp only: chunk_bits.simps if_False Let_def and_do.simps split_conv)
qed

lemma emit_token_sim:
  assumes t: "emit_token chunk b flags s = Ok (Inr (flags', s'))" and len: "length chunk \<le> 4096"
    and p: "cs_in_pos s < length chunk" and b: "b < 8" "\<not> bit flags b"
  shows "cs_out_pos s < cs_out_pos s' \<and> cs_out_pos s' \<le> length (cs_out s)
    \<and> length (cs_out s') = length (cs_out s)
    \<and> take (cs_out_pos s) (cs_out s') = take (cs_out_pos s) (cs_out s)
    \<and> cs_in_pos s' \<le> length chunk \<and> (\<forall>i. i \<noteq> b \<longrightarrow> bit flags' i = bit flags i)
    \<and> (\<forall>d st fl bs target. same_bytes d (cs_out s') (cs_out_pos s) (cs_out_pos s') \<longrightarrow>
        bit fl b = bit flags' b \<longrightarrow> target_of target st chunk \<longrightarrow>
        decodes_to d st fl (b # bs) bs target (positions s) (positions s'))"
  using assms
proof (cases rule: emit_token_cases)
  case (lit head)
  have "decodes_to d st fl (b # bs) bs target (positions s) (positions s')"
    if "same_bytes d (cs_out s') (cs_out_pos s) (cs_out_pos s')" "bit fl b = bit flags' b"
      "target_of target st chunk" for d st fl bs target
    unfolding decodes_to_def
  proof (intro allI impI)
    fix out
    assume out: "length target \<le> length out"
      "take (st + fst (positions s)) out = take (st + fst (positions s)) target"
    have d: "cs_out_pos s < length d" "d ! cs_out_pos s = chunk ! cs_in_pos s"
      using that(1) lit(1,2) by (auto simp: same_bytes_def)
    let ?q = "st + cs_in_pos s"
    have q: "?q < length target" "?q < length out" using that(3) out(1) p by (auto simp: target_of_def)
    then have "take (?q + 1) (out[?q := d ! cs_out_pos s]) = take (?q + 1) target"
      using out(2) d(2) target_nth [OF that(3) p] by (simp add: take_Suc_update take_Suc_conv_app_nth)
    then show "\<exists>out'. chunk_bits d st fl (b # bs) (snd (positions s)) (st + fst (positions s)) out
            = chunk_bits d st fl bs (snd (positions s')) (st + fst (positions s')) out'
          \<and> length out' = length out
          \<and> take (st + fst (positions s')) out' = take (st + fst (positions s')) target"
      using chunk_bits_literal [OF d(1) _ q(2), of fl b st bs] lit(2,3) that(2)
      by (intro exI [of _ "out[?q := d ! cs_out_pos s]"]) simp
  qed
  moreover have "cs_out_pos s < cs_out_pos s' \<and> cs_out_pos s' \<le> length (cs_out s)
    \<and> length (cs_out s') = length (cs_out s)
    \<and> take (cs_out_pos s) (cs_out s') = take (cs_out_pos s) (cs_out s)
    \<and> cs_in_pos s' \<le> length chunk"
    using lit(1,2) p by simp
  ultimately show ?thesis using lit(4) by blast
next
  case (match head w dd l)
  have "decodes_to d st fl (b # bs) bs target (positions s) (positions s')"
    if "same_bytes d (cs_out s') (cs_out_pos s) (cs_out_pos s')" "bit fl b = bit flags' b"
      "target_of target st chunk" for d st fl bs target
    unfolding decodes_to_def
  proof (intro allI impI)
    fix out
    assume out: "length target \<le> length out"
      "take (st + fst (positions s)) out = take (st + fst (positions s)) target"
    let ?c = "cs_out_pos s" and ?q = "st + cs_in_pos s"
    obtain x y where xy: "u16_to_le_bytes w = [x, y]"
      by (simp add: u16_to_le_bytes_def numeral_2_eq_2)
    have w: "[cs_out s' ! ?c, cs_out s' ! (?c + 1)] = u16_to_le_bytes w"
      using match(1,2) nth_write_at [of ?c "[x, y]" "cs_out s" 0]
        nth_write_at [of ?c "[x, y]" "cs_out s" 1] by (simp add: xy)
    have d: "?c + 2 \<le> length d" "[d ! ?c, d ! (?c + 1)] = u16_to_le_bytes w"
    proof -
      have "d ! ?c = cs_out s' ! ?c" "d ! (?c + 1) = cs_out s' ! (?c + 1)"
        using that(1) match(2) by (simp_all add: same_bytes_def)
      then show "[d ! ?c, d ! (?c + 1)] = u16_to_le_bytes w" using w by (simp only:)
    qed (use that(1) match(2) in \<open>simp add: same_bytes_def\<close>)
    have q: "?q + l \<le> length target" "?q + l \<le> length out"
      using that(3) out(1) match(8) by (auto simp: target_of_def)
    have "target ! (?q - dd + i) = target ! (?q + i)" if "i < l" for i
    proof -
      let ?i = "cs_in_pos s - dd + i"
      have "?q - dd + i = st + ?i" "?q + i = st + (cs_in_pos s + i)" using match(7) by simp_all
      moreover have "target ! (st + ?i) = chunk ! ?i"
        using match(7,8) \<open>i < l\<close> by (intro target_nth [OF \<open>target_of target st chunk\<close>]) linarith
      moreover have "target ! (st + (cs_in_pos s + i)) = chunk ! (cs_in_pos s + i)"
        using match(8) \<open>i < l\<close> by (intro target_nth [OF \<open>target_of target st chunk\<close>]) linarith
      ultimately show ?thesis using match(10) [OF that] by (simp only:)
    qed
    from copy_within_prefix [OF _ _ q(2,1) this] out(2) match(6,7)
    have "take (?q + l) (copy_within out (?q - dd) ?q l) = take (?q + l) target" by simp
    moreover have "chunk_bits d st fl (b # bs) ?c ?q out
        = chunk_bits d st fl bs (?c + 2) (?q + l) (copy_within out (?q - dd) ?q l)"
      using match(3,5,7) d that(2) q(2) by (intro chunk_bits_match) simp_all
    ultimately show "\<exists>out'. chunk_bits d st fl (b # bs) (snd (positions s)) (st + fst (positions s)) out
            = chunk_bits d st fl bs (snd (positions s')) (st + fst (positions s')) out'
          \<and> length out' = length out
          \<and> take (st + fst (positions s')) out' = take (st + fst (positions s')) target"
      using match(2) by (intro exI [of _ "copy_within out (?q - dd) ?q l"]) (simp add: add.assoc)
  qed
  moreover have "cs_out_pos s < cs_out_pos s' \<and> cs_out_pos s' \<le> length (cs_out s)
    \<and> length (cs_out s') = length (cs_out s)
    \<and> take (cs_out_pos s) (cs_out s') = take (cs_out_pos s) (cs_out s)
    \<and> cs_in_pos s' \<le> length chunk"
    using match(1,2,8) by (simp add: take_write_at)
  ultimately show ?thesis using match(4) by blast
qed

lemma decodes_to_trans:
  assumes "decodes_to d st fl bs bs1 target a b" and "decodes_to d st fl bs1 bs2 target b c"
  shows "decodes_to d st fl bs bs2 target a c"
  unfolding decodes_to_def
proof (intro allI impI)
  fix out
  assume "length target \<le> length out" "take (st + fst a) out = take (st + fst a) target"
  with assms(1) obtain out1 where 1: "chunk_bits d st fl bs (snd a) (st + fst a) out
      = chunk_bits d st fl bs1 (snd b) (st + fst b) out1" "length out1 = length out"
    "take (st + fst b) out1 = take (st + fst b) target" unfolding decodes_to_def by blast
  with assms(2) \<open>length target \<le> length out\<close> obtain out2 where
    "chunk_bits d st fl bs1 (snd b) (st + fst b) out1
      = chunk_bits d st fl bs2 (snd c) (st + fst c) out2" "length out2 = length out1"
    "take (st + fst c) out2 = take (st + fst c) target" unfolding decodes_to_def by metis
  with 1 show "\<exists>out'. chunk_bits d st fl bs (snd a) (st + fst a) out
        = chunk_bits d st fl bs2 (snd c) (st + fst c) out'
      \<and> length out' = length out \<and> take (st + fst c) out' = take (st + fst c) target"
    by (intro exI [of _ out2]) simp
qed

lemma decodes_to_break: "length d \<le> snd a \<Longrightarrow> decodes_to d st fl bs [] target a a"
  by (cases bs) (auto simp: decodes_to_def)

lemma same_bytes_prefix:
  assumes "same_bytes d out2 a c" and "take b out2 = take b out1" and "b \<le> c"
  shows "same_bytes d out1 a b"
  using assms unfolding same_bytes_def by (metis le_trans less_le_trans nth_take)

lemma same_bytes_suffix: "same_bytes d out a c \<Longrightarrow> a \<le> b \<Longrightarrow> same_bytes d out b c"
  by (auto simp: same_bytes_def)

text \<open>The encoder's progress: it moves on, and what it has written stays.\<close>

definition extends :: "bytes \<Rightarrow> chunk_state \<Rightarrow> chunk_state \<Rightarrow> bool" where
  "extends chunk s s' \<longleftrightarrow> cs_out_pos s \<le> cs_out_pos s' \<and> cs_out_pos s' \<le> length (cs_out s)
    \<and> length (cs_out s') = length (cs_out s)
    \<and> take (cs_out_pos s) (cs_out s') = take (cs_out_pos s) (cs_out s)
    \<and> cs_in_pos s' \<le> length chunk"

lemma extends_trans:
  assumes "extends chunk s s1" and "extends chunk s1 s2"
  shows "extends chunk s s2"
proof -
  have le: "cs_out_pos s \<le> cs_out_pos s1" using assms(1) by (simp add: extends_def)
  then have "take (cs_out_pos s) (cs_out s2) = take (cs_out_pos s) (take (cs_out_pos s1) (cs_out s2))"
    by (simp add: min_absorb1)
  also have "\<dots> = take (cs_out_pos s) (take (cs_out_pos s1) (cs_out s1))"
    using assms(2) by (simp add: extends_def)
  also have "\<dots> = take (cs_out_pos s) (cs_out s)"
    using assms(1) by (simp add: extends_def min_def)
  finally show ?thesis using assms by (simp add: extends_def)
qed

lemma emit_bits_sim:
  assumes "emit_bits chunk bs flags s = Ok (Inr (flags', s'))" and "length chunk \<le> 4096"
    and "cs_in_pos s \<le> length chunk" and "cs_out_pos s \<le> length (cs_out s)"
    and "distinct bs" and "\<forall>b \<in> set bs. b < 8 \<and> \<not> bit flags b"
  shows "extends chunk s s' \<and> (\<forall>i. i \<notin> set bs \<longrightarrow> bit flags' i = bit flags i)
    \<and> (\<forall>d st target. same_bytes d (cs_out s') (cs_out_pos s) (cs_out_pos s') \<longrightarrow>
        (cs_in_pos s' = length chunk \<longrightarrow> length d = cs_out_pos s') \<longrightarrow> target_of target st chunk \<longrightarrow>
        decodes_to d st flags' bs [] target (positions s) (positions s'))"
  using assms
proof (induction bs arbitrary: flags s)
  case Nil
  then show ?case by (auto simp: decodes_to_def extends_def)
next
  case (Cons b bs)
  show ?case
  proof (cases "cs_in_pos s < length chunk")
    case False
    with Cons.prems have "s' = s" "flags' = flags" "cs_in_pos s = length chunk" by auto
    then show ?thesis
      using Cons.prems(4) by (auto simp: extends_def intro: decodes_to_break)
  next
    case True
    from Cons.prems(1) True obtain flags1 s1 where
      t: "emit_token chunk b flags s = Ok (Inr (flags1, s1))"
      and r: "emit_bits chunk bs flags1 s1 = Ok (Inr (flags', s'))" by (rule emit_bits_Cons)
    have b: "b < 8" "\<not> bit flags b" "b \<notin> set bs" "distinct bs" using Cons.prems(5,6) by auto
    note tok = emit_token_sim [OF t Cons.prems(2) True b(1,2)]
    then have e: "extends chunk s s1" by (auto simp: extends_def)
    have fl: "\<forall>i. i \<noteq> b \<longrightarrow> bit flags1 i = bit flags i" using tok by blast
    have "\<forall>x \<in> set bs. x < 8 \<and> \<not> bit flags1 x" using fl Cons.prems(6) b(3) by auto
    with r e b(4) Cons.prems(2) have ih: "extends chunk s1 s'"
      "\<forall>i. i \<notin> set bs \<longrightarrow> bit flags' i = bit flags1 i"
      "\<And>d st target. same_bytes d (cs_out s') (cs_out_pos s1) (cs_out_pos s') \<Longrightarrow>
        (cs_in_pos s' = length chunk \<longrightarrow> length d = cs_out_pos s') \<Longrightarrow> target_of target st chunk \<Longrightarrow>
        decodes_to d st flags' bs [] target (positions s1) (positions s')"
      using Cons.IH [of flags1 s1] by (auto simp: extends_def)
    have "decodes_to d st flags' (b # bs) [] target (positions s) (positions s')"
      if "same_bytes d (cs_out s') (cs_out_pos s) (cs_out_pos s')"
        "cs_in_pos s' = length chunk \<longrightarrow> length d = cs_out_pos s'" "target_of target st chunk" for d st target
    proof (rule decodes_to_trans)
      have "same_bytes d (cs_out s1) (cs_out_pos s) (cs_out_pos s1)"
        using ih(1) by (intro same_bytes_prefix [OF that(1)]) (auto simp: extends_def)
      moreover have "bit flags' b = bit flags1 b" using ih(2) b(3) by blast
      ultimately show "decodes_to d st flags' (b # bs) bs target (positions s) (positions s1)"
        using tok that(3) by blast
      have "same_bytes d (cs_out s') (cs_out_pos s1) (cs_out_pos s')"
        using e by (intro same_bytes_suffix [OF that(1)]) (auto simp: extends_def)
      then show "decodes_to d st flags' bs [] target (positions s1) (positions s')"
        using ih(3) that(2,3) by blast
    qed
    moreover have "\<forall>i. i \<notin> set (b # bs) \<longrightarrow> bit flags' i = bit flags i" using fl ih(2) by simp
    ultimately show ?thesis using extends_trans [OF e ih(1)] by blast
  qed
qed

text \<open>The flag byte is written after its tokens; with it the whole chunk decodes.\<close>

lemma emit_group:
  fixes s defines "f \<equiv> cs_out_pos s"
  assumes e: "emit_bits chunk [0..<8] 0 (s\<lparr>cs_out := (cs_out s)[f := 0], cs_out_pos := f + 1\<rparr>)
      = Ok (Inr (flags, s1))"
    and len: "length chunk \<le> 4096" and p: "cs_in_pos s \<le> length chunk" "f < length (cs_out s)"
  defines "s2 \<equiv> s1\<lparr>cs_out := (cs_out s1)[f := flags]\<rparr>"
  shows "extends chunk s s2" and "f < cs_out_pos s2"
    and "same_bytes d (cs_out s2) f (cs_out_pos s2) \<Longrightarrow>
      (cs_in_pos s2 = length chunk \<longrightarrow> length d = cs_out_pos s2) \<Longrightarrow> target_of target st chunk \<Longrightarrow>
      d ! f = flags \<and> decodes_to d st flags [0..<8] [] target (cs_in_pos s, f + 1) (positions s2)"
proof -
  let ?s0 = "s\<lparr>cs_out := (cs_out s)[f := 0], cs_out_pos := f + 1\<rparr>"
  have "cs_in_pos ?s0 \<le> length chunk" "cs_out_pos ?s0 \<le> length (cs_out ?s0)"
    "\<forall>b \<in> set [0..<8]. b < 8 \<and> \<not> bit (0 :: u8) b" using p by auto
  note b = emit_bits_sim [OF e len this(1,2) distinct_upt this(3)]
  then have x: "extends chunk ?s0 s1" by blast
  then have x': "f < cs_out_pos s1" "cs_out_pos s1 \<le> length (cs_out s1)"
    "length (cs_out s1) = length (cs_out s)" "cs_in_pos s1 \<le> length chunk"
    by (auto simp: extends_def)
  have "take f (cs_out s1) = take f (take (f + 1) (cs_out s1))" by simp
  also have "\<dots> = take f (take (f + 1) ((cs_out s)[f := 0]))" using x by (simp add: extends_def)
  also have "\<dots> = take f (cs_out s)" by simp
  finally show "extends chunk s s2" using x' by (simp add: extends_def s2_def flip: f_def)
  show "f < cs_out_pos s2" using x'(1) by (simp add: s2_def)
  assume d: "same_bytes d (cs_out s2) f (cs_out_pos s2)"
    "cs_in_pos s2 = length chunk \<longrightarrow> length d = cs_out_pos s2" "target_of target st chunk"
  have "d ! f = cs_out s2 ! f" using d(1) x'(1) by (simp add: same_bytes_def s2_def)
  then have "d ! f = flags" using x'(1,2) by (simp add: s2_def)
  moreover have "same_bytes d (cs_out s1) (cs_out_pos ?s0) (cs_out_pos s1)"
    using d(1) by (simp add: same_bytes_def s2_def)
  then have "decodes_to d st flags [0..<8] [] target (positions ?s0) (positions s1)"
    using b d(2,3) by (simp add: s2_def)
  ultimately show "d ! f = flags
      \<and> decodes_to d st flags [0..<8] [] target (cs_in_pos s, f + 1) (positions s2)"
    by (simp add: s2_def)
qed

lemma chunk_groups_step:
  assumes "cp < length d" and "decodes_to d st (d ! cp) [0..<8] [] target (p, cp + 1) (p', cp')"
    and "length target \<le> length out" and "take (st + p) out = take (st + p) target"
  shows "\<exists>out1. chunk_groups d st cp (st + p) out = chunk_groups d st cp' (st + p') out1
    \<and> length out1 = length out \<and> take (st + p') out1 = take (st + p') target"
proof -
  from assms(2-4) obtain out1 where
    "chunk_bits d st (d ! cp) [0..<8] (cp + 1) (st + p) out = (Ok (cp', st + p'), out1)"
    "length out1 = length out" "take (st + p') out1 = take (st + p') target"
    unfolding decodes_to_def by fastforce
  with assms(1) show ?thesis by (intro exI [of _ out1]) (simp add: chunk_groups.simps [of d st cp])
qed

lemma compress_groups_step:
  fixes s defines "f \<equiv> cs_out_pos s"
  assumes "compress_groups chunk s = Ok (Inr s')" and "cs_in_pos s < length chunk"
  obtains flags s1 where "f < length (cs_out s)"
    "emit_bits chunk [0..<8] 0 (s\<lparr>cs_out := (cs_out s)[f := 0], cs_out_pos := f + 1\<rparr>)
      = Ok (Inr (flags, s1))"
    "compress_groups chunk (s1\<lparr>cs_out := (cs_out s1)[f := flags]\<rparr>) = Ok (Inr s')"
proof -
  have "f < length (cs_out s)"
    using assms(2,3) by (auto simp: compress_groups.simps f_def split: if_splits)
  with assms that show thesis
    by (subst (asm) (1) compress_groups.simps)
      (auto simp: Let_def f_def split: outcome.splits sum.splits prod.splits)
qed

lemma compress_groups_sim:
  assumes "compress_groups chunk s = Ok (Inr s')" and "length chunk \<le> 4096"
    and "cs_in_pos s \<le> length chunk" and "cs_out_pos s \<le> length (cs_out s)"
  shows "extends chunk s s' \<and> cs_in_pos s' = length chunk
    \<and> (\<forall>d st target out. same_bytes d (cs_out s') (cs_out_pos s) (cs_out_pos s') \<longrightarrow>
        length d = cs_out_pos s' \<longrightarrow> target_of target st chunk \<longrightarrow> length target \<le> length out \<longrightarrow>
        take (st + cs_in_pos s) out = take (st + cs_in_pos s) target \<longrightarrow>
        (\<exists>out'. chunk_groups d st (cs_out_pos s) (st + cs_in_pos s) out = (Ok (st + length chunk), out')
           \<and> take (st + length chunk) out' = target))"
  using assms
proof (induction chunk s rule: compress_groups.induct)
  case (1 chunk s)
  show ?case
  proof (cases "cs_in_pos s < length chunk")
    case False
    with "1.prems" have "s' = s" "cs_in_pos s = length chunk" by (auto simp: compress_groups.simps)
    then show ?thesis using "1.prems"(4)
      by (auto simp: extends_def chunk_groups.simps target_of_def)
  next
    case True
    let ?f = "cs_out_pos s"
    from "1.prems"(1) True obtain flags s1 where f: "?f < length (cs_out s)"
      and e: "emit_bits chunk [0..<8] 0 (s\<lparr>cs_out := (cs_out s)[?f := 0], cs_out_pos := ?f + 1\<rparr>)
        = Ok (Inr (flags, s1))"
      and r: "compress_groups chunk (s1\<lparr>cs_out := (cs_out s1)[?f := flags]\<rparr>) = Ok (Inr s')"
      by (rule compress_groups_step)
    let ?s1 = "s1\<lparr>cs_out := (cs_out s1)[?f := flags]\<rparr>"
    note g = emit_group [OF e "1.prems"(2,3) f]
    have x: "cs_in_pos ?s1 \<le> length chunk" "cs_out_pos ?s1 \<le> length (cs_out ?s1)"
      using g(1) by (simp_all add: extends_def)
    have ih: "extends chunk ?s1 s' \<and> cs_in_pos s' = length chunk
      \<and> (\<forall>d st target out. same_bytes d (cs_out s') (cs_out_pos ?s1) (cs_out_pos s') \<longrightarrow>
        length d = cs_out_pos s' \<longrightarrow> target_of target st chunk \<longrightarrow> length target \<le> length out \<longrightarrow>
        take (st + cs_in_pos ?s1) out = take (st + cs_in_pos ?s1) target \<longrightarrow>
        (\<exists>out'. chunk_groups d st (cs_out_pos ?s1) (st + cs_in_pos ?s1) out
            = (Ok (st + length chunk), out') \<and> take (st + length chunk) out' = target))"
      using "1.IH" [OF True _ refl e refl refl r "1.prems"(2) x] f by simp
    have "\<exists>out'. chunk_groups d st ?f (st + cs_in_pos s) out = (Ok (st + length chunk), out')
           \<and> take (st + length chunk) out' = target"
      if d: "same_bytes d (cs_out s') ?f (cs_out_pos s')" "length d = cs_out_pos s'"
        "target_of target st chunk" "length target \<le> length out"
        "take (st + cs_in_pos s) out = take (st + cs_in_pos s) target" for d st target out
    proof -
      have x': "?f < cs_out_pos s'" using g(2) ih by (auto simp: extends_def)
      have "same_bytes d (cs_out ?s1) ?f (cs_out_pos ?s1)"
        by (rule same_bytes_prefix [OF d(1)]) (use ih in \<open>simp_all add: extends_def\<close>)
      moreover have "cs_in_pos ?s1 = length chunk \<longrightarrow> length d = cs_out_pos ?s1"
        using r d(2) by (auto simp: compress_groups.simps)
      ultimately have "d ! ?f = flags"
        "decodes_to d st flags [0..<8] [] target (cs_in_pos s, ?f + 1) (positions ?s1)"
        using g(3) d(3) by blast+
      then obtain out1 where o1: "chunk_groups d st ?f (st + cs_in_pos s) out
          = chunk_groups d st (cs_out_pos ?s1) (st + cs_in_pos ?s1) out1" "length out1 = length out"
        "take (st + cs_in_pos ?s1) out1 = take (st + cs_in_pos ?s1) target"
        using chunk_groups_step [OF _ _ d(4,5), of ?f] d(2) x' by metis
      have "same_bytes d (cs_out s') (cs_out_pos ?s1) (cs_out_pos s')"
        by (rule same_bytes_suffix [OF d(1)]) (use g(2) in simp)
      with o1 ih d(2-4) show ?thesis by metis
    qed
    with extends_trans [OF g(1)] ih show ?thesis by blast
  qed
qed


section \<open>The encoder does not panic\<close>

lemma emit_literal_ok: "cs_in_pos s < 65536 \<Longrightarrow> \<exists>r. emit_literal chunk flags s = Ok r"
  using update_hash_ok [of "cs_in_pos s" chunk "cs_head s"] by (auto simp: emit_literal_def)

lemma emit_token_ok:
  assumes "length chunk \<le> 4096" and "cs_in_pos s < length chunk"
  shows "\<exists>r. emit_token chunk b flags s = Ok r"
proof -
  let ?p = "cs_in_pos s"
  have p: "?p \<le> 65536" "?p < 65536" using assms by simp_all
  obtain lit1 where l1: "emit_literal chunk flags s = Ok lit1" using emit_literal_ok [OF p(2)] by blast
  obtain lit2 where l2: "emit_literal chunk ((flags OR push_bit b 1) AND NOT (push_bit b 1)) s = Ok lit2"
    using emit_literal_ok [OF p(2)] by blast
  from find_chunk_match_sound [OF p(1), of chunk "cs_head s"] obtain r where
    r: "find_chunk_match chunk ?p (cs_head s) = Ok r" and
    snd: "\<forall>d l. r = Some (d, l) \<longrightarrow> 3 \<le> l \<and> 0 < d \<and> d \<le> ?p \<and> ?p + l \<le> length chunk
      \<and> (\<forall>i < l. chunk ! (?p - d + i) = chunk ! (?p + i))
      \<and> (\<exists>s \<le> 12. bit_widths ?p = Ok (s, 16 - s) \<and> d \<le> 2 ^ (16 - s) \<and> l - 3 < 2 ^ s)" by blast
  show ?thesis
  proof (cases r)
    case None
    with r l1 show ?thesis by (simp add: emit_token_def)
  next
    case (Some dl)
    obtain d l where dl: "dl = (d, l)" by fastforce
    with snd Some obtain lb where m: "d \<le> ?p" "?p + l \<le> length chunk"
      "bit_widths ?p = Ok (lb, 16 - lb)" by blast
    then obtain head where "update_hashes chunk ?p l (cs_head s) = Ok head"
      using update_hashes_ok [of ?p l chunk "cs_head s"] assms by auto
    moreover have "\<not> (d - 1 \<ge> 2 ^ 16 \<or> l - 3 \<ge> 2 ^ 16)" using m assms by auto
    ultimately show ?thesis
      using l2 by (auto simp only: emit_token_def r Some dl and_then.simps option.case split_conv Let_def
          m(3) if_False split: if_splits)
  qed
qed

lemma emit_bits_ok: "length chunk \<le> 4096 \<Longrightarrow> \<exists>r. emit_bits chunk bs flags s = Ok r"
proof (induction bs arbitrary: flags s)
  case (Cons b bs)
  show ?case
  proof (cases "cs_in_pos s < length chunk")
    case True
    from emit_token_ok [OF Cons.prems True, of b flags] obtain x where
      x: "emit_token chunk b flags s = Ok x" by blast
    show ?thesis
    proof (cases x)
      case (Inr y)
      with Cons x True show ?thesis by (cases y) simp
    qed (use True x in simp)
  qed simp
qed simp

lemma compress_groups_ok: "length chunk \<le> 4096 \<Longrightarrow> \<exists>r. compress_groups chunk s = Ok r"
proof (induction chunk s rule: compress_groups.induct)
  case (1 chunk s)
  let ?s0 = "s\<lparr>cs_out := (cs_out s)[cs_out_pos s := 0], cs_out_pos := cs_out_pos s + 1\<rparr>"
  show ?case
  proof (cases "cs_in_pos s < length chunk \<and> cs_out_pos s < length (cs_out s)")
    case True
    from emit_bits_ok [OF "1.prems"] obtain x where x: "emit_bits chunk [0..<8] 0 ?s0 = Ok x" by blast
    show ?thesis
    proof (cases x)
      case (Inr y)
      then obtain flags s1 where y: "y = (flags, s1)" by fastforce
      have "\<exists>r. compress_groups chunk (s1\<lparr>cs_out := (cs_out s1)[cs_out_pos s := flags]\<rparr>) = Ok r"
        using True x Inr y "1.prems" by (intro "1.IH") auto
      with True x Inr y show ?thesis by (subst compress_groups.simps) (simp add: Let_def)
    qed (use True x in \<open>simp add: compress_groups.simps [of chunk s] Let_def\<close>)
  qed (auto simp: compress_groups.simps [of chunk s])
qed


section \<open>Chunk headers\<close>

lemma u16_mask12: "(0x0FFF :: u16) = mask 12"
  by (simp add: mask_eq_exp_minus_1)

lemma chunk_header:
  fixes c :: bool
  assumes "0 < n" and "n \<le> 4096"
  defines "h \<equiv> ((word_of_nat n - 1) AND 0x0FFF) OR push_bit 12 CHUNK_SIGNATURE
    OR (if c then 0x8000 else 0) :: u16"
  shows "header_data_size h = n" and "header_compressed h = c"
    and "validate_chunk_signature h p = Ok ()" and "h \<noteq> 0"
proof -
  obtain m where m: "n = Suc m" using assms(1) by (cases n) auto
  let ?x = "word_of_nat m :: u16"
  have ux: "unat ?x = m" using assms(2) by (simp add: unat_of_nat m)
  have "take_bit 12 ?x = ?x"
    using ux assms(2) by (intro word_unat_eq_iff [THEN iffD2])
      (simp add: unsigned_take_bit_eq take_bit_nat_eq_self m)
  then have x: "?x AND 0x0FFF = ?x" by (simp add: u16_mask12 take_bit_eq_mask)
  have hx: "h = ?x OR (if c then 0xB000 else 0x3000)"
    using x by (simp add: h_def CHUNK_SIGNATURE_def m)
  have "h AND 0x0FFF = ?x" by (simp add: hx bit.conj_disj_distrib2 x)
  then show "header_data_size h = n" using ux by (simp add: header_data_size_def m)
  have "?x AND 0x8000 = (?x AND 0x0FFF) AND 0x8000" by (simp only: x)
  also have "\<dots> = ?x AND (0x0FFF AND 0x8000)" by (simp only: and.assoc)
  finally have "?x AND 0x8000 = 0" by simp
  then show "header_compressed h = c" by (simp add: header_compressed_def hx bit.conj_disj_distrib2)
  have "unat (drop_bit 12 ?x) = drop_bit 12 (take_bit 16 m)" by (simp add: unsigned_drop_bit_eq ux)
  also have "\<dots> = 0" using assms(2) by (simp add: take_bit_nat_eq_self drop_bit_eq_div m)
  finally have "drop_bit 12 ?x = 0" by (simp add: word_unat_eq_iff)
  then have "drop_bit 12 h = (if c then 0xB else 0x3)" by (simp add: hx)
  then show v: "validate_chunk_signature h p = Ok ()"
    by (simp add: validate_chunk_signature_def CHUNK_SIGNATURE_def)
  show "h \<noteq> 0"
  proof
    assume "h = 0"
    with v show False by (simp add: validate_chunk_signature_def CHUNK_SIGNATURE_def)
  qed
qed


section \<open>Stored chunks\<close>

lemma write_at_append:
  assumes "p + length a + length b \<le> length out"
  shows "write_at (write_at out p a) (p + length a) b = write_at out p (a @ b)"
  using assms by (simp add: write_at_def add.commute add.left_commute)

lemma same_bytes_write_at:
  assumes "same_bytes d (write_at out p xs) p (p + length xs)" and "p + length xs \<le> length out"
  shows "p + length xs \<le> length d" and "slice d p (length xs) = xs"
proof -
  show le: "p + length xs \<le> length d" using assms(1) by (simp add: same_bytes_def)
  show "slice d p (length xs) = xs"
    using assms le by (intro nth_equalityI) (auto simp: same_bytes_def nth_write_at)
qed

definition chunk_record :: "bytes \<Rightarrow> bool \<Rightarrow> bytes" where
  "chunk_record data c = u16_to_le_bytes (((word_of_nat (length data) - 1) AND 0x0FFF)
     OR push_bit 12 CHUNK_SIGNATURE OR (if c then 0x8000 else 0)) @ data"

lemma write_record:
  assumes "0 < length data" and "length data \<le> 4096" and "p + 2 + length data \<le> length out"
  shows "and_do (write_chunk_header out p (length data) c) (\<lambda>p out. write_bytes out p data)
    = (Ok (p + 2 + length data), write_at out p (chunk_record data c))"
  using assms write_at_append [of p "u16_to_le_bytes w" data out for w]
  by (auto simp: write_chunk_header_def write_bytes_def Let_def chunk_record_def)

lemma decompress_record:
  assumes "0 < length data" and "length data \<le> 4096" and "p + 2 + length data \<le> length d"
    and "slice d p (2 + length data) = chunk_record data c"
    and "(if c then decompress_chunk_strict data buf st else copy_uncompressed_chunk data buf st)
      = (Ok st', buf')"
  shows "decompress_loop d p st buf = decompress_loop d (p + 2 + length data) st' buf'"
proof -
  let ?h = "((word_of_nat (length data) - 1) AND 0x0FFF) OR push_bit 12 CHUNK_SIGNATURE
     OR (if c then 0x8000 else 0) :: u16"
  note h = chunk_header [OF assms(1,2), of c]
  have "take 2 (slice d p (2 + length data)) = u16_to_le_bytes ?h"
    using assms(4) by (simp add: chunk_record_def)
  moreover have "take 2 (slice d p (2 + length data)) = [d ! p, d ! (p + 1)]"
    using assms(3) by (intro nth_equalityI) (auto simp: less_Suc_eq numeral_2_eq_2)
  ultimately have "from_le_bytes [d ! p, d ! (p + 1)] = ?h" by (metis u16_le_roundtrip)
  then have "read_chunk_header d p = Some ?h"
    using assms(3) h(4) by (simp only: read_chunk_header_def Let_def if_False) auto
  moreover have "slice d (p + 2) (length data) = data"
  proof -
    have "drop 2 (slice d p (2 + length data)) = drop 2 (chunk_record data c)" by (simp only: assms(4))
    then show ?thesis by (simp only: drop_slice) (simp add: chunk_record_def)
  qed
  moreover have "\<not> length d < p + 2 + length data" using assms(3) by simp
  ultimately show ?thesis
    using h(1-3) assms(5)
    by (subst decompress_loop.simps) (simp only: option.case and_do.simps Let_def if_False decompress_chunk_def)
qed


section \<open>Whole streams\<close>

text \<open>The scratch buffer keeps its length, also where a chunk does not compress.\<close>

lemma emit_literal_length:
  "emit_literal chunk flags s = Ok (Inl s') \<Longrightarrow> s' = s"
  "emit_literal chunk flags s = Ok (Inr (flags', s')) \<Longrightarrow> length (cs_out s') = length (cs_out s)"
  by (auto simp: emit_literal_def and_then_eq_Ok_iff split: if_splits)

lemma emit_token_length:
  "emit_token chunk b flags s = Ok (Inl s') \<Longrightarrow> s' = s"
  "emit_token chunk b flags s = Ok (Inr (flags', s')) \<Longrightarrow> length (cs_out s') = length (cs_out s)"
  by (auto simp: emit_token_def Let_def and_then_eq_Ok_iff split: if_splits option.splits
      dest: emit_literal_length)

lemma emit_bits_length:
  "emit_bits chunk bs flags s = Ok r \<Longrightarrow>
     length (cs_out (case r of Inl s \<Rightarrow> s | Inr (f, s) \<Rightarrow> s)) = length (cs_out s)"
proof (induction bs arbitrary: flags s)
  case (Cons b bs)
  show ?case
  proof (cases "cs_in_pos s < length chunk")
    case True
    with Cons.prems obtain x where x: "emit_token chunk b flags s = Ok x"
      "(case x of Inl s \<Rightarrow> Ok (Inl s) | Inr (flags, s) \<Rightarrow> emit_bits chunk bs flags s) = Ok r"
      by (auto simp: and_then_eq_Ok_iff)
    with Cons.IH show ?thesis by (cases x) (auto dest!: emit_token_length)
  qed (use Cons.prems in auto)
qed auto

lemma compress_groups_length:
  "compress_groups chunk s = Ok r \<Longrightarrow>
     length (cs_out (case r of Inl s \<Rightarrow> s | Inr s \<Rightarrow> s)) = length (cs_out s)"
proof (induction chunk s rule: compress_groups.induct)
  case (1 chunk s)
  let ?f = "cs_out_pos s" and ?s0 = "s\<lparr>cs_out := (cs_out s)[cs_out_pos s := 0], cs_out_pos := cs_out_pos s + 1\<rparr>"
  show ?case
  proof (cases "cs_in_pos s < length chunk \<and> ?f < length (cs_out s)")
    case True
    then obtain x where x: "emit_bits chunk [0..<8] 0 ?s0 = Ok x"
      using "1.prems" by (cases "emit_bits chunk [0..<8] 0 ?s0")
        (auto simp: compress_groups.simps [of chunk s] Let_def)
    note len = emit_bits_length [OF this]
    show ?thesis
    proof (cases x)
      case (Inl s1)
      with x len "1.prems" True show ?thesis by (auto simp: compress_groups.simps [of chunk s] Let_def)
    next
      case (Inr y)
      then obtain flags s1 where y: "y = (flags, s1)" by fastforce
      let ?s1 = "s1\<lparr>cs_out := (cs_out s1)[?f := flags]\<rparr>"
      have "compress_groups chunk ?s1 = Ok r"
        using "1.prems" True x Inr y by (simp add: compress_groups.simps [of chunk s] Let_def)
      then have "length (cs_out (case r of Inl s \<Rightarrow> s | Inr s \<Rightarrow> s)) = length (cs_out ?s1)"
        using True x Inr y by (intro "1.IH") auto
      with len Inr y show ?thesis by simp
    qed
  qed (use "1.prems" in \<open>auto simp: compress_groups.simps [of chunk s] not_less split: if_splits\<close>)
qed

text \<open>
  One chunk: it is stored in at most its own length and two bytes, and decoding the record
  extends the decoder's output by the chunk.
\<close>

definition stores :: "bytes \<Rightarrow> bytes \<Rightarrow> nat \<Rightarrow> nat \<Rightarrow> bool" where
  "stores chunk out p n \<longleftrightarrow> (\<forall>d st target buf. same_bytes d out p n \<longrightarrow> target_of target st chunk \<longrightarrow>
     length target \<le> length buf \<longrightarrow> take st buf = take st target \<longrightarrow>
     (\<exists>buf'. decompress_loop d p st buf = decompress_loop d n (st + length chunk) buf'
        \<and> length buf' = length buf \<and> take (st + length chunk) buf' = target))"

lemma record_stores:
  assumes data: "0 < length data" "length data \<le> 4096" "p + 2 + length data \<le> length out"
    and dec: "\<And>st target buf. target_of target st chunk \<Longrightarrow> length target \<le> length buf \<Longrightarrow>
      take st buf = take st target \<Longrightarrow>
      \<exists>buf'. (if c then decompress_chunk_strict data buf st else copy_uncompressed_chunk data buf st)
          = (Ok (st + length chunk), buf') \<and> take (st + length chunk) buf' = target"
  shows "wrote out p (p + 2 + length data) (write_at out p (chunk_record data c))
    \<and> stores chunk (write_at out p (chunk_record data c)) p (p + 2 + length data)"
proof
  let ?rec = "chunk_record data c"
  have len: "p + 2 + length data = p + length ?rec" by (simp add: chunk_record_def)
  show "wrote out p (p + 2 + length data) (write_at out p ?rec)"
    using data(3) unfolding len by (rule wrote_slice)
  show "stores chunk (write_at out p ?rec) p (p + 2 + length data)"
    unfolding stores_def
  proof (intro allI impI)
    fix d st target buf
    assume a: "same_bytes d (write_at out p ?rec) p (p + 2 + length data)" "target_of target st chunk"
      "length target \<le> length buf" "take st buf = take st target"
    from dec [OF a(2-4)] obtain buf' where
      b: "(if c then decompress_chunk_strict data buf st else copy_uncompressed_chunk data buf st)
        = (Ok (st + length chunk), buf')" "take (st + length chunk) buf' = target" by blast
    have "p + length ?rec \<le> length d" "slice d p (length ?rec) = ?rec"
      using same_bytes_write_at [of d out p ?rec] a(1) data(3) unfolding len by simp_all
    then have "p + 2 + length data \<le> length d" "slice d p (2 + length data) = ?rec"
      by (simp_all add: chunk_record_def)
    from decompress_record [OF data(1,2) this b(1)]
    have "decompress_loop d p st buf = decompress_loop d (p + 2 + length data) (st + length chunk) buf'" .
    moreover have "decoded st buf (if c then decompress_chunk_strict data buf st
        else copy_uncompressed_chunk data buf st)"
      using decompress_chunk_decoded [OF data(2), of st buf "if c then 0x8000 else 0"] a(2,3)
      by (cases c) (simp_all add: decompress_chunk_def header_compressed_def target_of_def)
    then have "length buf' = length buf" by (simp add: b(1) wrote_def)
    ultimately show "\<exists>buf'. decompress_loop d p st buf
        = decompress_loop d (p + 2 + length data) (st + length chunk) buf'
      \<and> length buf' = length buf \<and> take (st + length chunk) buf' = target" using b(2) by blast
  qed
qed

lemma stored_decodes:
  assumes "target_of target st chunk" and "length target \<le> length buf" and "take st buf = take st target"
  shows "\<exists>buf'. copy_uncompressed_chunk chunk buf st = (Ok (st + length chunk), buf')
    \<and> take (st + length chunk) buf' = target"
proof -
  have le: "st + length chunk \<le> length buf" using assms(1,2) by (simp add: target_of_def)
  have "take st target @ chunk = target" using assms(1) append_take_drop_id by (metis target_of_def)
  then have "take (st + length chunk) (write_at buf st chunk) = target"
    using assms(3) take_write_at_end [OF le] by simp
  then show ?thesis using le by (simp add: copy_uncompressed_chunk_def Let_def)
qed

lemma compressed_decodes:
  assumes "compress_groups chunk \<lparr>cs_in_pos = 0, cs_out_pos = 0, cs_head = head, cs_out = out\<rparr> = Ok (Inr s)"
    and "length chunk \<le> 4096"
    and "target_of target st chunk" and "length target \<le> length buf" and "take st buf = take st target"
  shows "\<exists>buf'. decompress_chunk_strict (take (cs_out_pos s) (cs_out s)) buf st = (Ok (st + length chunk), buf')
    \<and> take (st + length chunk) buf' = target"
proof -
  have g: "extends chunk \<lparr>cs_in_pos = 0, cs_out_pos = 0, cs_head = head, cs_out = out\<rparr> s"
    and dec: "\<And>d st target out. same_bytes d (cs_out s) 0 (cs_out_pos s) \<Longrightarrow> length d = cs_out_pos s \<Longrightarrow>
        target_of target st chunk \<Longrightarrow> length target \<le> length out \<Longrightarrow> take st out = take st target \<Longrightarrow>
        (\<exists>out'. chunk_groups d st 0 st out = (Ok (st + length chunk), out')
           \<and> take (st + length chunk) out' = target)"
    using compress_groups_sim [OF assms(1,2)] by simp_all
  have "cs_out_pos s \<le> length (cs_out s)" using g by (simp add: extends_def)
  then have "same_bytes (take (cs_out_pos s) (cs_out s)) (cs_out s) 0 (cs_out_pos s)"
    "length (take (cs_out_pos s) (cs_out s)) = cs_out_pos s"
    by (simp_all add: same_bytes_def)
  from dec [OF this assms(3-5)] show ?thesis by (simp add: decompress_chunk_strict_def)
qed

lemma write_chunk_sim:
  assumes c: "0 < length chunk" "length chunk \<le> 4096" "length scratch = 4096"
    and fits: "p + 2 + length chunk \<le> length out"
  shows "\<exists>n scratch' out'. write_chunk chunk scratch p out = (Ok (n, scratch'), out')
    \<and> length scratch' = 4096 \<and> n \<le> p + 2 + length chunk \<and> wrote out p n out' \<and> stores chunk out' p n"
proof -
  let ?s = "\<lparr>cs_in_pos = 0, cs_out_pos = 0, cs_head = replicate HASH_SIZE 0,
    cs_out = take (length chunk) scratch\<rparr>"
  obtain r where r: "compress_groups chunk ?s = Ok r" using compress_groups_ok [OF c(2)] by blast
  let ?s' = "case r of Inl s \<Rightarrow> s | Inr s \<Rightarrow> s"
  have len: "length (cs_out ?s') = length chunk" using compress_groups_length [OF r] c by simp
  have cc: "compress_chunk chunk (take (length chunk) scratch)
      = Ok (case r of Inl s \<Rightarrow> None | Inr s \<Rightarrow> Some (cs_out_pos s), cs_out ?s')"
    using r by (cases r) (simp_all add: compress_chunk_def)
  let ?scr = "cs_out ?s' @ drop (length chunk) scratch"
  have scr: "length ?scr = 4096" using len c by simp
  show ?thesis
  proof (cases "\<exists>s. r = Inr s \<and> cs_out_pos s < length chunk")
    case True
    then obtain s where s: "r = Inr s" "cs_out_pos s < length chunk" by blast
    let ?data = "take (cs_out_pos s) (cs_out s)"
    have dec: "\<And>st target buf. target_of target st chunk \<Longrightarrow> length target \<le> length buf \<Longrightarrow>
      take st buf = take st target \<Longrightarrow>
      \<exists>buf'. decompress_chunk_strict ?data buf st = (Ok (st + length chunk), buf')
        \<and> take (st + length chunk) buf' = target"
      using compressed_decodes [OF _ c(2)] r s(1) by blast
    have dl: "length ?data = cs_out_pos s" using len s by simp
    have "0 < cs_out_pos s"
    proof (rule ccontr)
      assume "\<not> 0 < cs_out_pos s"
      with dec [of chunk 0 chunk] c(1) show False
        by (simp add: target_of_def decompress_chunk_strict_def chunk_groups.simps)
    qed
    then have d: "0 < length ?data" "length ?data \<le> 4096" "p + 2 + length ?data \<le> length out"
      using dl s(2) c(2) fits by simp_all
    have "write_chunk chunk scratch p out
        = (Ok (p + 2 + length ?data, ?scr), write_at out p (chunk_record ?data True))"
      using write_record [OF d, of True] s len
      by (simp add: write_chunk_def cc Let_def dl)
    with record_stores [OF d, of chunk True] dec scr dl s(2) show ?thesis
      by (intro exI conjI) auto
  next
    case False
    have st: "and_do (write_chunk_header out p (length chunk) False) (\<lambda>p out. write_bytes out p chunk)
        = (Ok (p + 2 + length chunk), write_at out p (chunk_record chunk False))"
      using write_record [OF c(1,2) fits] .
    have "write_chunk chunk scratch p out
        = (Ok (p + 2 + length chunk, ?scr), write_at out p (chunk_record chunk False))"
      using False by (cases r) (simp_all add: write_chunk_def cc Let_def st)
    with record_stores [OF c(1,2) fits, of chunk False] stored_decodes scr show ?thesis
      by (intro exI conjI) auto
  qed
qed

end
