(* ===== verification/Lznt1_Correct.thy ===== *)
theory Lznt1_Correct
  imports Lznt1_Simulation
begin

text \<open>
  The theorems on LZNT1: compression always succeeds in \<open>compress_bound\<close> bytes and decompression
  returns what was compressed; decompression of arbitrary input ends without a panic and writes
  only up to the position it returns; the lenient mode follows the strict one.
\<close>

section \<open>Streams\<close>

definition chunks_of :: "nat \<Rightarrow> nat" where
  "chunks_of n = (n + 4095) div 4096"

lemma chunks_of_step: "4096 < n \<Longrightarrow> chunks_of n = Suc (chunks_of (n - 4096))"
  "0 < n \<Longrightarrow> n \<le> 4096 \<Longrightarrow> chunks_of n = 1"
  by (auto simp: chunks_of_def le_div_geq)

lemma compress_loop_sim:
  assumes "ip \<le> length input" and "length scratch = 4096"
    and "p + (length input - ip) + 2 * chunks_of (length input - ip) \<le> length out"
  shows "\<exists>n out'. compress_loop input ip scratch p out = (Ok n, out') \<and> wrote out p n out'
    \<and> n \<le> p + (length input - ip) + 2 * chunks_of (length input - ip)
    \<and> (\<forall>d buf. same_bytes d out' p n \<longrightarrow> length input \<le> length buf \<longrightarrow> take ip buf = take ip input \<longrightarrow>
        (\<exists>buf'. decompress_loop d p ip buf = decompress_loop d n (length input) buf'
          \<and> take (length input) buf' = input))"
  using assms
proof (induction input ip scratch p out rule: compress_loop.induct)
  case (1 input ip scratch p out)
  show ?case
  proof (cases "ip < length input")
    case True
    let ?e = "min (ip + CHUNK_SIZE) (length input)"
    let ?chunk = "slice input ip (?e - ip)"
    have e: "ip < ?e" "?e \<le> length input" using True by (simp_all add: CHUNK_SIZE_def)
    have c: "0 < length ?chunk" "length ?chunk \<le> 4096" "ip + length ?chunk = ?e"
      using True by (auto simp: CHUNK_SIZE_def)
    have rem: "length input - ip + 2 * chunks_of (length input - ip)
        = 2 + length ?chunk + (length input - ?e) + 2 * chunks_of (length input - ?e)"
    proof (cases "length input - ip > 4096")
      case True
      then have "?e = ip + 4096" by (simp add: CHUNK_SIZE_def)
      then show ?thesis using chunks_of_step(1) [OF True] True by simp
    next
      case False
      then have "?e = length input" by (simp add: CHUNK_SIZE_def)
      then show ?thesis using chunks_of_step(2) [of "length input - ip"] False True
        by (simp add: chunks_of_def)
    qed
    have "p + 2 + length ?chunk \<le> length out" using "1.prems"(3) rem by linarith
    from write_chunk_sim [OF c(1,2) "1.prems"(2) this] obtain n1 scr1 out1 where
      w: "write_chunk ?chunk scratch p out = (Ok (n1, scr1), out1)" "length scr1 = 4096"
        "n1 \<le> p + 2 + length ?chunk" "wrote out p n1 out1" "stores ?chunk out1 p n1" by blast
    have "n1 + (length input - ?e) + 2 * chunks_of (length input - ?e) \<le> length out1"
      using "1.prems"(3) rem w(3,4) by (simp only: wrote_def)
    from "1.IH" [OF True refl refl e(2) w(2) this] obtain n out' where
      r: "compress_loop input ?e scr1 n1 out1 = (Ok n, out')" "wrote out1 n1 n out'"
        "n \<le> n1 + (length input - ?e) + 2 * chunks_of (length input - ?e)"
      and dec: "\<And>d buf. same_bytes d out' n1 n \<Longrightarrow> length input \<le> length buf \<Longrightarrow>
        take ?e buf = take ?e input \<Longrightarrow>
        (\<exists>buf'. decompress_loop d n1 ?e buf = decompress_loop d n (length input) buf'
          \<and> take (length input) buf' = input)" by blast
    have "\<exists>buf'. decompress_loop d p ip buf = decompress_loop d n (length input) buf'
          \<and> take (length input) buf' = input"
      if d: "same_bytes d out' p n" "length input \<le> length buf" "take ip buf = take ip input" for d buf
    proof -
      have "same_bytes d out1 p n1"
        by (rule same_bytes_prefix [OF d(1)]) (use r(2) in \<open>simp_all add: wrote_def\<close>)
      moreover have "target_of (take ?e input) ip ?chunk"
        using e by (simp add: target_of_def slice_def drop_take)
      moreover have "take ip buf = take ip (take ?e input)" "length (take ?e input) \<le> length buf"
        using d(2,3) e by (simp_all add: min_absorb1)
      ultimately obtain buf1 where b: "decompress_loop d p ip buf
          = decompress_loop d n1 (ip + length ?chunk) buf1" "length buf1 = length buf"
        "take (ip + length ?chunk) buf1 = take ?e input"
        using w(5) unfolding stores_def by blast
      moreover have "same_bytes d out' n1 n"
        by (rule same_bytes_suffix [OF d(1)]) (use w(4) in \<open>simp add: wrote_def\<close>)
      ultimately show ?thesis using dec [of d buf1] d(2) unfolding c(3) by simp
    qed
    moreover have "compress_loop input ip scratch p out = (Ok n, out')"
      using True w(1) r(1) by (subst compress_loop.simps) (simp add: Let_def)
    moreover have "n \<le> p + (length input - ip) + 2 * chunks_of (length input - ip)"
      using r(3) w(3) rem by linarith
    ultimately show ?thesis using wrote_trans [OF w(4) r(2)] by blast
  next
    case False
    then have "ip = length input" using "1.prems"(1) by simp
    then show ?thesis using "1.prems"(3) by (auto simp: compress_loop.simps wrote_refl)
  qed
qed

lemma compress_bound_chunks: "n + 2 * chunks_of n + 2 \<le> compress_bound n"
  by (simp add: compress_bound_def chunks_of_def CHUNK_SIZE_def Let_def)

lemma decompress_writes: "decoded 0 out (decompress input out)"
  unfolding decompress_def by (rule decompress_loop_decoded) simp

text \<open>
  The lenient decoder follows the strict one for as long as that one succeeds: where the output
  is full, what the strict decoder still reads writes nothing.
\<close>

lemma wrote_nothing: "wrote out p n out' \<Longrightarrow> length out \<le> p \<Longrightarrow> n = length out \<and> p = n \<and> out' = out"
  unfolding wrote_def by (metis le_antisym order.trans take_all)

lemma lenient_loop_follows:
  assumes "decompress_loop input ip p out = (Ok n, out')" and "p \<le> length out"
  shows "\<exists>r. lenient_loop input ip p errs out = (Ok r, out') \<and> bytes_written r = n"
  using assms
proof (induction input ip p out rule: decompress_loop.induct)
  case (1 input ip p out)
  note w = decompress_loop_decoded [OF "1.prems"(2), of input ip]
  show ?case
  proof (cases "read_chunk_header input ip")
    case None
    with "1.prems" have "n = p" "out' = out" by (auto simp: decompress_loop.simps)
    with None show ?thesis
      by (subst lenient_loop.simps) (auto simp: read_chunk_header_def Let_def split: if_splits)
  next
    case (Some h)
    let ?n = "header_data_size h"
    have h: "\<not> ip + 2 > length input" "from_le_bytes [input ! ip, input ! (ip + 1)] = h" "h \<noteq> 0"
      using Some by (auto simp: read_chunk_header_def Let_def split: if_splits)
    have v: "validate_chunk_signature h ip = Ok ()" and fit: "\<not> length input < ip + 2 + ?n"
      using "1.prems"(1) Some
      by (auto simp: decompress_loop.simps [of input ip] Let_def validate_chunk_signature_def split: if_splits)
    show ?thesis
    proof (cases "length out \<le> p")
      case True
      have "wrote out p n out'" using w "1.prems"(1) by simp
      from wrote_nothing [OF this True] "1.prems"(2) True show ?thesis
        by (subst lenient_loop.simps) (simp add: h fit Let_def del: One_nat_def add_2_eq_Suc' add_Suc_right)
    next
      case False
      let ?r = "decompress_chunk h (slice input (ip + 2) ?n) out p"
      have eq: "and_do ?r (\<lambda>p out. decompress_loop input (ip + 2 + ?n) p out) = (Ok n, out')"
        using "1.prems"(1) Some v fit by (simp add: decompress_loop.simps [of input ip] Let_def)
      have "length (slice input (ip + 2) ?n) \<le> 4096" using header_data_size_bounds(2) [of h] by simp
      from decompress_chunk_decoded [OF this "1.prems"(2)] have "decoded p out ?r" .
      then show ?thesis
      proof (cases rule: decoded_elim)
        case (ok p' out1)
        then have "\<exists>r. lenient_loop input (ip + 2 + ?n) p' errs out1 = (Ok r, out') \<and> bytes_written r = n"
          using Some v fit eq by (intro "1.IH") (auto simp: wrote_def)
        with ok(1) False show ?thesis
          by (subst lenient_loop.simps) (simp add: h fit Let_def del: One_nat_def add_2_eq_Suc' add_Suc_right)
      next
        case (err e out1)
        with eq show ?thesis by simp
      qed
    qed
  qed
qed

lemma lenient_loop_total:
  "p \<le> length out \<Longrightarrow> \<exists>r out'. lenient_loop input ip p errs out = (Ok r, out')
     \<and> length out' = length out \<and> bytes_written r \<le> length out"
proof (induction input ip p errs out rule: lenient_loop.induct)
  case (1 input ip p errs out)
  let ?h = "from_le_bytes [input ! ip, input ! (ip + 1)] :: u16"
  let ?n = "header_data_size ?h"
  show ?case
  proof (cases "ip + 2 > length input \<or> ?h = 0 \<or> ip + 2 + ?n > length input \<or> p \<ge> length out")
    case True
    then show ?thesis using "1.prems" by (subst lenient_loop.simps) (auto simp: Let_def)
  next
    case False
    have "length (slice input (ip + 2) ?n) \<le> 4096" using header_data_size_bounds(2) [of ?h] by simp
    from decompress_chunk_decoded [OF this "1.prems"]
    have "decoded p out (decompress_chunk ?h (slice input (ip + 2) ?n) out p)" .
    then show ?thesis
    proof (cases rule: decoded_elim)
      case (ok p' out1)
      have "\<exists>r out'. lenient_loop input (ip + 2 + ?n) p' errs out1 = (Ok r, out')
          \<and> length out' = length out1 \<and> bytes_written r \<le> length out1"
        using False ok by (intro "1.IH"(1)) (auto simp: wrote_def)
      with ok False show ?thesis
        by (subst lenient_loop.simps) (auto simp: Let_def wrote_def)
    next
      case (err e out1)
      let ?f = "if header_compressed ?h then min CHUNK_SIZE (length out1 - p)
        else min ?n (length out1 - p)"
      have "\<exists>r out'. lenient_loop input (ip + 2 + ?n) (p + ?f) True out1 = (Ok r, out')
          \<and> length out' = length out1 \<and> bytes_written r \<le> length out1"
        using False err "1.prems" by (intro "1.IH"(2)) auto
      with err False show ?thesis by (subst lenient_loop.simps) (auto simp: Let_def)
    qed
  qed
qed

lemma compress_decompress:
  assumes "compress_bound (length input) \<le> length out" and "length input \<le> length buf"
  shows "\<exists>n out'. compress input out = (Ok n, out') \<and> n \<le> compress_bound (length input)
    \<and> length out' = length out
    \<and> decompress (take n out') buf = (Ok (length input), input @ drop (length input) buf)"
proof -
  have fits: "0 + (length input - 0) + 2 * chunks_of (length input - 0) \<le> length out"
    using assms(1) compress_bound_chunks [of "length input"] by simp
  from compress_loop_sim [OF _ _ fits, of "replicate CHUNK_SIZE 0"] obtain n out1 where
    c: "compress_loop input 0 (replicate CHUNK_SIZE 0) 0 out = (Ok n, out1)" "wrote out 0 n out1"
      "n \<le> length input + 2 * chunks_of (length input)"
    and dec: "\<And>d. same_bytes d out1 0 n \<Longrightarrow>
      \<exists>buf'. decompress_loop d 0 0 buf = decompress_loop d n (length input) buf'
        \<and> take (length input) buf' = input"
    using assms(2) by (fastforce simp: CHUNK_SIZE_def)
  have n: "n + 2 \<le> compress_bound (length input)" "n + 2 \<le> length out1"
    using c(2,3) assms(1) compress_bound_chunks [of "length input"] by (simp_all add: wrote_def)
  let ?out = "write_at out1 n [0, 0]" and ?d = "take (n + 2) (write_at out1 n [0, 0])"
  have d: "?d = take n out1 @ [0, 0]" using take_write_at_end [of n "[0, 0]" out1] n(2) by simp
  have ln: "length (take n out1) = n" using n(2) by simp
  have "same_bytes ?d out1 0 n" unfolding d using ln by (simp add: same_bytes_def nth_append)
  from dec [OF this] obtain buf' where b: "decompress_loop ?d 0 0 buf = decompress_loop ?d n (length input) buf'"
    "take (length input) buf' = input" by blast
  have "read_chunk_header ?d n = None"
    unfolding d using ln by (simp add: read_chunk_header_def nth_append from_le_bytes_def)
  then have "decompress_loop ?d n (length input) buf' = (Ok (length input), buf')"
    by (subst decompress_loop.simps) (simp only: option.case)
  then have r: "decompress ?d buf = (Ok (length input), buf')" using b(1) by (simp only: decompress_def)
  have "drop (length input) buf' = drop (length input) buf"
    using decompress_writes [of buf ?d] unfolding r by (simp add: wrote_def)
  then have "buf' = input @ drop (length input) buf" using b(2) by (metis append_take_drop_id)
  with r n c(1,2) show ?thesis
    by (intro exI [of _ "n + 2"] exI [of _ ?out]) (simp add: compress_def wrote_def)
qed

interpretation lznt1: lossless_codec compress decompress compress_bound
  by unfold_locales (rule compress_decompress)

section \<open>The properties\<close>

text \<open>
  C1: compressing any input into an output of at least \<open>compress_bound\<close> bytes succeeds, and
  decompressing the result into any buffer that is large enough returns the input and leaves the
  rest of the buffer as it was.
\<close>

theorem lznt1_roundtrip:
  assumes "compress_bound (length input) \<le> length out" and "length input \<le> length buf"
  shows "\<exists>n out'. compress input out = (Ok n, out') \<and> n \<le> compress_bound (length input)
    \<and> decompress (take n out') buf = (Ok (length input), input @ drop (length input) buf)"
  using lznt1.roundtrip [OF assms] by blast

theorem lznt1_roundtrip_witness:
  "\<exists>n out'. compress [7, 7, 7, 7] (replicate 8 0) = (Ok n, out') \<and> n \<le> 8
    \<and> decompress (take n out') [1, 2, 3, 4, 5] = (Ok 4, [7, 7, 7, 7, 5])"
proof -
  have l: "length [7, 7, 7, 7 :: u8] = 4" "length [1, 2, 3, 4, 5 :: u8] = 5" by simp_all
  have "compress_bound 4 = 8" by (simp add: compress_bound_def CHUNK_SIZE_def)
  then show ?thesis
    using lznt1_roundtrip [of "[7, 7, 7, 7]" "replicate 8 0" "[1, 2, 3, 4, 5]"] unfolding l
    by (simp only: length_replicate) simp
qed

text \<open>
  C10: decompressing arbitrary bytes into an arbitrary buffer ends, without a panic and so
  without an underflow of the shift in \<open>bit_widths\<close>; it returns a position inside the buffer and
  writes nothing after it, or an error, and keeps the buffer's length.
\<close>

theorem lznt1_decompress_total:
  "case decompress input out of
     (Ok n, out') \<Rightarrow> n \<le> length out \<and> length out' = length out \<and> drop n out' = drop n out
   | (Err e, out') \<Rightarrow> length out' = length out
   | (Panic, out') \<Rightarrow> False
   | (Diverge, out') \<Rightarrow> False"
  using decompress_writes [of out input]
  by (auto simp: wrote_def elim!: decoded_elim)

text \<open>
  C11: the lenient mode ends without a panic on arbitrary bytes, and reports at most as many
  bytes as the buffer holds.
\<close>

theorem lznt1_lenient_total:
  "\<exists>r out'. decompress_lenient input out = (Ok r, out') \<and> length out' = length out
     \<and> bytes_written r \<le> length out"
  using lenient_loop_total [of 0 "replicate (length out) 0" input 0 False]
  by (simp add: decompress_lenient_def)

text \<open>
  C12: where the strict mode succeeds on a zeroed buffer, the lenient mode gives the same bytes
  and the same count.
\<close>

theorem lznt1_lenient_follows_strict:
  assumes "decompress input (replicate (length out) 0) = (Ok n, out')"
  shows "\<exists>r. decompress_lenient input out = (Ok r, out') \<and> bytes_written r = n"
  using lenient_loop_follows [of input 0 0 "replicate (length out) 0" n out' False] assms
  by (simp add: decompress_def decompress_lenient_def)

lemmas lznt1_eval = decompress_def decompress_loop.simps read_chunk_header_def
  validate_chunk_signature_def header_data_size_def header_compressed_def decompress_chunk_def
  decompress_chunk_strict_def chunk_groups.simps chunk_bits.simps decode_match_def bit_widths_def
  bit_widths_loop.simps CHUNK_SIGNATURE_def CHUNK_SIZE_def from_le_bytes_def slice_def upt_rec

lemma demo_strict:
  "decompress [0x04, 0xB0, 0x02, 0x41, 0x01, 0x00, 0x42] [0, 0, 0, 0, 0, 0]
     = (Ok 6, [0x41, 0x41, 0x41, 0x41, 0x41, 0x42])"
  by (simp add: lznt1_eval cong: and_do_weak_cong and_then_weak_cong) (simp add: numeral_eq_Suc)

theorem lznt1_lenient_follows_strict_witness:
  "\<exists>r. decompress_lenient [0x04, 0xB0, 0x02, 0x41, 0x01, 0x00, 0x42] [9, 9, 9, 9, 9, 9]
     = (Ok r, [0x41, 0x41, 0x41, 0x41, 0x41, 0x42]) \<and> bytes_written r = 6"
proof -
  have "decompress [0x04, 0xB0, 0x02, 0x41, 0x01, 0x00, 0x42]
      (replicate (length [9, 9, 9, 9, 9, 9 :: u8]) 0) = (Ok 6, [0x41, 0x41, 0x41, 0x41, 0x41, 0x42])"
    using demo_strict by (simp add: numeral_eq_Suc)
  then show ?thesis by (rule lznt1_lenient_follows_strict)
qed


section \<open>Damaged chunks in the lenient mode\<close>

text \<open>
  A chunk of literals, fewer than eight, and then a match that reaches before the chunk. The flag
  byte has one bit set, after those of the literals.
\<close>

lemma one_flag_bit: "j < 8 \<Longrightarrow> drop_bit j (push_bit k 1 :: u8) AND 1 = 0 \<longleftrightarrow> j \<noteq> k"
  by (auto simp: and_one_eq mod_2_eq_odd bit_iff_odd_drop_bit [symmetric] bit_exp_iff)

lemma chunk_bits_literals:
  assumes "length lits < 8" and "length lits \<le> length out" and "j \<le> length lits"
    and chunk: "chunk = push_bit (length lits) 1 # lits @ rest"
  shows "chunk_bits chunk 0 (push_bit (length lits) 1) [j..<8] (j + 1) j (take j lits @ drop j out)
    = chunk_bits chunk 0 (push_bit (length lits) 1) [length lits..<8] (length lits + 1) (length lits)
        (lits @ drop (length lits) out)"
  using assms(3)
proof (induction j rule: inc_induct)
  case (step j)
  have "(take j lits @ drop j out)[j := lits ! j] = take (Suc j) lits @ drop (Suc j) out"
    using step(1,2) assms(2) by (simp add: list_update_append take_Suc_conv_app_nth Cons_nth_drop_Suc [symmetric])
  moreover have "chunk ! (j + 1) = lits ! j" using step(1,2) by (simp add: chunk nth_append)
  moreover have "[j..<8] = j # [Suc j..<8]" using step(2) assms(1) by (simp add: upt_rec)
  ultimately show ?case
    using step one_flag_bit [of j "length lits"] assms(1,2) by (simp add: chunk)
qed simp

lemma match_before_chunk:
  assumes "k < 8" and "k \<le> unat m1 div 16"
  shows "\<exists>len. decode_match (from_le_bytes [m0, m1]) k = Ok (unat m1 div 16 + 1, len)"
proof -
  have "unat m0 + 256 * unat m1 < 2 ^ 16" using unat_less_power [of m0] unat_less_power [of m1] by simp
  moreover have "le_nat [m0, m1] = unat m0 + 256 * unat m1" by simp
  ultimately have "unat (from_le_bytes [m0, m1] :: u16) = unat m0 + 256 * unat m1"
    unfolding from_le_bytes_def by (simp only: unat_of_nat) simp
  moreover have "(unat m0 + 256 * unat m1) div 4096 = unat m1 div 16"
    using unat_less_power [of m0] by simp
  ultimately have "unat (drop_bit 12 (from_le_bytes [m0, m1] :: u16)) = unat m1 div 16"
    by (simp add: drop_bit_eq_div unat_div)
  moreover have "bit_widths k = Ok (12, 4)" using assms(1)
    by (simp add: bit_widths_def bit_widths_loop.simps [of 12 16])
  ultimately show ?thesis by (simp add: decode_match_def Let_def)
qed

lemma literals_then_bad_match:
  assumes "length lits < 8" and "length lits \<le> length out" and "length lits \<le> unat m1 div 16"
  shows "\<exists>e. decompress_chunk_strict (push_bit (length lits) 1 # lits @ [m0, m1]) out 0
    = (Err e, lits @ drop (length lits) out)"
proof -
  let ?k = "length lits" and ?chunk = "push_bit (length lits) 1 # lits @ [m0, m1]"
  have "[?k..<8] = ?k # [Suc ?k..<8]" using assms(1) by (simp add: upt_rec)
  moreover have "?chunk ! (?k + 1) = m0" "?chunk ! (?k + 2) = m1" by (simp_all add: nth_append)
  moreover obtain len where "decode_match (from_le_bytes [m0, m1]) ?k = Ok (unat m1 div 16 + 1, len)"
    using match_before_chunk [OF assms(1,3)] by blast
  ultimately have "chunk_bits ?chunk 0 (push_bit ?k 1) [0..<8] 1 0 out
      = (Err (codec_error.InvalidData (?k + 1)), lits @ drop ?k out)"
    using chunk_bits_literals [OF assms(1,2) le0 refl, of "[m0, m1]"] one_flag_bit [of ?k ?k] assms(1,3)
    by (simp add: Let_def)
  then show ?thesis by (simp add: decompress_chunk_strict_def chunk_groups.simps)
qed

lemma small_chunk_header:
  assumes "k < 8"
  defines "h \<equiv> from_le_bytes [word_of_nat (k + 2), 0xB0] :: u16"
  shows "h \<noteq> 0" "header_compressed h" "header_data_size h = k + 3"
proof -
  have "k \<in> {0, 1, 2, 3, 4, 5, 6, 7}" using assms(1) by auto
  then show "h \<noteq> 0" "header_compressed h" "header_data_size h = k + 3"
    by (auto simp: h_def from_le_bytes_def header_compressed_def header_data_size_def)
qed

text \<open>
  C38: the lenient mode is documented to zero-fill a damaged chunk, but keeps what the decoder wrote
  before the damage. For every run of fewer than eight literals followed by a match that reaches
  before the chunk, the chunk is counted as written and reported as an error, and its region of the
  buffer holds the literals, whatever their values, and zeros after them.
\<close>

theorem lenient_keeps_bytes_of_a_failed_chunk:
  assumes "length lits < 8" and "length lits \<le> unat m1 div 16" and "length lits \<le> length out" and "out \<noteq> []"
  shows "decompress_lenient
      ([word_of_nat (length lits + 2), 0xB0, push_bit (length lits) 1] @ lits @ [m0, m1]) out
    = (Ok \<lparr>bytes_written = min CHUNK_SIZE (length out), had_errors = True\<rparr>,
       lits @ replicate (length out - length lits) 0)"
proof -
  let ?zeros = "replicate (length out) 0 :: bytes" and ?chunk = "push_bit (length lits) 1 # lits @ [m0, m1]"
  let ?input = "word_of_nat (length lits + 2) # 0xB0 # ?chunk"
  obtain e where "decompress_chunk_strict ?chunk ?zeros 0 = (Err e, lits @ drop (length lits) ?zeros)"
    using literals_then_bad_match [of lits ?zeros m1 m0] assms by auto
  moreover have "slice ?input 2 (length lits + 3) = ?chunk" by (simp add: slice_def)
  moreover have "lenient_loop ?input (5 + length lits) w True out' = (Ok \<lparr>bytes_written = w, had_errors = True\<rparr>, out')"
    for w out' by (subst lenient_loop.simps) simp
  ultimately have "lenient_loop ?input 0 0 False ?zeros
      = (Ok \<lparr>bytes_written = min CHUNK_SIZE (length out), had_errors = True\<rparr>, lits @ drop (length lits) ?zeros)"
    using small_chunk_header [OF assms(1)] assms(3,4)
    by (subst lenient_loop.simps) (simp add: Let_def decompress_chunk_def numeral_2_eq_2)
  then show ?thesis by (simp add: decompress_lenient_def)
qed

theorem lenient_keeps_bytes_of_a_failed_chunk_witness:
  "decompress_lenient [0x03, 0xB0, 0x02, 0x41, 0x00, 0x10] [1, 2, 3, 4]
     = (Ok \<lparr>bytes_written = 4, had_errors = True\<rparr>, [0x41, 0, 0, 0])"
  using lenient_keeps_bytes_of_a_failed_chunk [of "[0x41]" "0x10" "[1, 2, 3, 4]" 0]
  by (simp add: CHUNK_SIZE_def)

end
