(* ===== verification/Qnx6_Format.thy ===== *)
theory Qnx6_Format
  imports Byte_Source
begin

text \<open>
  The on-disk records of QNX6 Power-Safe volumes: \<open>fs-qnx6/src/{superblock,tree,inode,error}.rs\<close>,
  the long-name checksum of \<open>fs/directory.rs\<close>, and the detector's view of the same superblock,
  \<open>fsmnt-parser-core/src/boot_sector/qnx6.rs\<close>. Fields keep their widths. An index past the end
  of a byte string is a panic of the source and of the model; the parsers are shown not to panic.
  The \<open>&'static str\<close> texts of the errors are not modelled, and no operation of the model runs out of memory.
\<close>

section \<open>Errors\<close>

datatype superblock_copy = Primary | Secondary

datatype qnx6_error =
    NoValidSuperblock
  | InvalidMagic
  | ChecksumMismatch u32 u32
  | InvalidBlockSize u32
  | InvalidCounts
  | InvalidTreeDepth u8
  | ConflictingSuperblocks
  | SnapshotUnavailable superblock_copy
  | Overflow
  | InvalidInodeNumber u32 u32
  | InvalidBlockPointer u32 u32
  | TreeCapacityExceeded nat u8
  | MetadataTooShort nat nat
  | RootNotDirectory
  | NotADirectory u32
  | NotAFile u32
  | InvalidDirectoryEntry nat
  | InvalidLongName u32 u16
  | NotFound
  | ObjectTooLarge nat
  | AllocationFailed
  | Io io_error


section \<open>Byte order\<close>

datatype byte_order = Little | Big

fun word_from :: "byte_order \<Rightarrow> bytes \<Rightarrow> 'w::len word" where
  "word_from Little raw = from_le_bytes raw"
| "word_from Big raw = from_be_bytes raw"

definition read_u16 :: "byte_order \<Rightarrow> bytes \<Rightarrow> nat \<Rightarrow> (u16, 'e) outcome" where
  "read_u16 order bs off = and_then (subslice bs off (off + 2)) (\<lambda>raw. Ok (word_from order raw))"

definition read_u32 :: "byte_order \<Rightarrow> bytes \<Rightarrow> nat \<Rightarrow> (u32, 'e) outcome" where
  "read_u32 order bs off = and_then (subslice bs off (off + 4)) (\<lambda>raw. Ok (word_from order raw))"

definition read_u64 :: "byte_order \<Rightarrow> bytes \<Rightarrow> nat \<Rightarrow> (u64, 'e) outcome" where
  "read_u64 order bs off = and_then (subslice bs off (off + 8)) (\<lambda>raw. Ok (word_from order raw))"

lemma read_u16_ok: "off + 2 \<le> length bs \<Longrightarrow> read_u16 order bs off = Ok (word_from order (slice bs off 2))"
  by (simp add: read_u16_def subslice_def)

lemma read_u32_ok: "off + 4 \<le> length bs \<Longrightarrow> read_u32 order bs off = Ok (word_from order (slice bs off 4))"
  by (simp add: read_u32_def subslice_def)

lemma read_u64_ok: "off + 8 \<le> length bs \<Longrightarrow> read_u64 order bs off = Ok (word_from order (slice bs off 8))"
  by (simp add: read_u64_def subslice_def)


section \<open>Tree descriptors\<close>

definition QNX6_MAX_LEVELS :: u8 where
  "QNX6_MAX_LEVELS = 5"

definition QNX6_UNUSED_BLOCK :: u32 where
  "QNX6_UNUSED_BLOCK = 0xFFFFFFFF"

definition QNX6_ROOT_INODE :: u32 where
  "QNX6_ROOT_INODE = 1"

record tree_descriptor =
  td_size :: u64
  td_pointers :: "u32 list"
  td_levels :: u8

primrec read_pointers :: "byte_order \<Rightarrow> bytes \<Rightarrow> nat \<Rightarrow> nat \<Rightarrow> (u32 list, qnx6_error) outcome" where
  "read_pointers order bs off 0 = Ok []"
| "read_pointers order bs off (Suc n) =
     and_then (read_u32 order bs off) (\<lambda>p.
     and_then (read_pointers order bs (off + 4) n) (\<lambda>ps. Ok (p # ps)))"

definition tree_parse ::
  "bytes \<Rightarrow> nat \<Rightarrow> nat \<Rightarrow> nat \<Rightarrow> byte_order \<Rightarrow> (tree_descriptor, qnx6_error) outcome" where
  "tree_parse bs size_offset pointers_offset levels_offset order =
     and_then (read_pointers order bs pointers_offset 16) (\<lambda>pointers.
     and_then (index_at bs levels_offset) (\<lambda>levels.
       if levels > QNX6_MAX_LEVELS then Err (InvalidTreeDepth levels)
       else and_then (read_u64 order bs size_offset) (\<lambda>sz.
         Ok \<lparr>td_size = sz, td_pointers = pointers, td_levels = levels\<rparr>)))"

record root_node =
  rn_tree :: tree_descriptor
  rn_mode :: u8

definition root_node_parse :: "bytes \<Rightarrow> nat \<Rightarrow> byte_order \<Rightarrow> (root_node, qnx6_error) outcome" where
  "root_node_parse bs off order =
     and_then (tree_parse bs off (off + 8) (off + 72) order) (\<lambda>tree.
     and_then (index_at bs (off + 73)) (\<lambda>mode.
       Ok \<lparr>rn_tree = tree, rn_mode = mode\<rparr>))"

lemma read_pointers_ok:
  "off + 4 * n \<le> length bs \<Longrightarrow> \<exists>ps. read_pointers order bs off n = Ok ps \<and> length ps = n"
proof (induction n arbitrary: off)
  case (Suc n)
  then have "off + 4 + 4 * n \<le> length bs" by simp
  from Suc.IH [OF this] Suc.prems show ?case by (auto simp: read_u32_ok)
qed simp

text \<open>A parsed tree has sixteen pointers and at most five levels.\<close>

definition tree_wf :: "tree_descriptor \<Rightarrow> bool" where
  "tree_wf d \<longleftrightarrow> length (td_pointers d) = 16 \<and> td_levels d \<le> QNX6_MAX_LEVELS"

lemma tree_parse_answers:
  assumes "size_off + 8 \<le> length bs" and "pointers_off + 64 \<le> length bs" and "levels_off < length bs"
  shows "answers (tree_parse bs size_off pointers_off levels_off order) tree_wf"
proof -
  obtain ps where "read_pointers order bs pointers_off 16 = Ok ps" "length ps = 16"
    using read_pointers_ok [of pointers_off 16 bs order] assms(2) by auto
  with assms show ?thesis
    by (auto simp: tree_parse_def index_at_def read_u64_ok tree_wf_def)
qed

lemma root_node_parse_answers:
  "off + 74 \<le> length bs \<Longrightarrow> answers (root_node_parse bs off order) (\<lambda>r. tree_wf (rn_tree r))"
  unfolding root_node_parse_def
  by (rule answers_and_then [OF tree_parse_answers]) (simp_all add: index_at_def)


section \<open>Checksums\<close>

definition crc_shift :: "u32 \<Rightarrow> u32" where
  "crc_shift crc = (if crc AND 0x80000000 = 0 then push_bit 1 crc else push_bit 1 crc XOR 0x04C11DB7)"

definition crc_byte :: "u32 \<Rightarrow> u8 \<Rightarrow> u32" where
  "crc_byte crc b = (crc_shift ^^ 8) (crc XOR push_bit 24 (ucast b))"

definition qnx6_crc32 :: "bytes \<Rightarrow> u32" where
  "qnx6_crc32 bs = foldl crc_byte 0 bs"

definition long_name_step :: "u32 \<Rightarrow> u8 \<Rightarrow> u32" where
  "long_name_step checksum b =
     (let low_bit = checksum AND 1;
          checksum = drop_bit 1 checksum + ucast b
      in if low_bit \<noteq> 0 then checksum XOR 0x80000000 else checksum)"

definition long_name_checksum :: "bytes \<Rightarrow> u32" where
  "long_name_checksum name = foldl long_name_step 0 name"


section \<open>Superblocks\<close>

definition QNX6_BOOT_AREA_SIZE :: nat where "QNX6_BOOT_AREA_SIZE = 0x2000"
definition QNX6_SUPERBLOCK_AREA_SIZE :: nat where "QNX6_SUPERBLOCK_AREA_SIZE = 0x1000"
definition QNX6_DATA_AREA_OFFSET :: nat where
  "QNX6_DATA_AREA_OFFSET = QNX6_BOOT_AREA_SIZE + QNX6_SUPERBLOCK_AREA_SIZE"
definition QNX6_SUPERBLOCK_SIZE :: nat where "QNX6_SUPERBLOCK_SIZE = 0x200"
definition QNX6_MAGIC :: u32 where "QNX6_MAGIC = 0x68191122"

record superblock =
  sb_byte_order :: byte_order
  sb_checksum :: u32
  sb_serial :: u64
  sb_created_time :: u32
  sb_accessed_time :: u32
  sb_flags :: u32
  sb_version_major :: u16
  sb_version_minor :: u16
  sb_volume_id :: bytes
  sb_block_size :: u32
  sb_num_inodes :: u32
  sb_free_inodes :: u32
  sb_num_blocks :: u32
  sb_free_blocks :: u32
  sb_allocation_group :: u32
  sb_inode_root :: root_node
  sb_bitmap_root :: root_node
  sb_long_name_root :: root_node
  sb_unknown_root :: root_node

definition superblock_order :: "bytes \<Rightarrow> byte_order option" where
  "superblock_order bs =
     (if from_le_bytes (take 4 bs) = QNX6_MAGIC then Some Little
      else if from_be_bytes (take 4 bs) = QNX6_MAGIC then Some Big
      else None)"

definition valid_block_size :: "u32 \<Rightarrow> bool" where
  "valid_block_size n \<longleftrightarrow> n = 512 \<or> n = 1024 \<or> n = 2048 \<or> n = 4096"

definition superblock_fields ::
  "byte_order \<Rightarrow> u32 \<Rightarrow> u32 \<Rightarrow> u32 \<Rightarrow> u32 \<Rightarrow> u32 \<Rightarrow> u32 \<Rightarrow> bytes \<Rightarrow> (superblock, qnx6_error) outcome" where
  "superblock_fields order checksum block_size num_inodes free_inodes num_blocks free_blocks bs =
     and_then (subslice bs 32 48) (\<lambda>volume_id.
     and_then (read_u64 order bs 8) (\<lambda>serial.
     and_then (read_u32 order bs 16) (\<lambda>created_time.
     and_then (read_u32 order bs 20) (\<lambda>accessed_time.
     and_then (read_u32 order bs 24) (\<lambda>flags.
     and_then (read_u16 order bs 28) (\<lambda>version_major.
     and_then (read_u16 order bs 30) (\<lambda>version_minor.
     and_then (read_u32 order bs 68) (\<lambda>allocation_group.
     and_then (root_node_parse bs 72 order) (\<lambda>inode_root.
     and_then (root_node_parse bs 152 order) (\<lambda>bitmap_root.
     and_then (root_node_parse bs 232 order) (\<lambda>long_name_root.
     and_then (root_node_parse bs 312 order) (\<lambda>unknown_root.
       Ok \<lparr>sb_byte_order = order, sb_checksum = checksum, sb_serial = serial,
           sb_created_time = created_time, sb_accessed_time = accessed_time, sb_flags = flags,
           sb_version_major = version_major, sb_version_minor = version_minor,
           sb_volume_id = volume_id, sb_block_size = block_size, sb_num_inodes = num_inodes,
           sb_free_inodes = free_inodes, sb_num_blocks = num_blocks, sb_free_blocks = free_blocks,
           sb_allocation_group = allocation_group, sb_inode_root = inode_root,
           sb_bitmap_root = bitmap_root, sb_long_name_root = long_name_root,
           sb_unknown_root = unknown_root\<rparr>))))))))))))"

definition superblock_from_bytes :: "bytes \<Rightarrow> (superblock, qnx6_error) outcome" where
  "superblock_from_bytes bs =
     (if length bs < QNX6_SUPERBLOCK_SIZE then Err NoValidSuperblock
      else
        and_then (ok_or InvalidMagic (superblock_order bs)) (\<lambda>order.
        and_then (read_u32 order bs 4) (\<lambda>checksum.
        and_then (subslice bs 8 QNX6_SUPERBLOCK_SIZE) (\<lambda>covered.
          let actual = qnx6_crc32 covered
          in if checksum \<noteq> actual then Err (ChecksumMismatch checksum actual)
             else
               and_then (read_u32 order bs 48) (\<lambda>block_size.
                 if \<not> valid_block_size block_size then Err (InvalidBlockSize block_size)
                 else
                   and_then (read_u32 order bs 52) (\<lambda>num_inodes.
                   and_then (read_u32 order bs 56) (\<lambda>free_inodes.
                     if num_inodes = 0 \<or> free_inodes > num_inodes then Err InvalidCounts
                     else
                       and_then (read_u32 order bs 60) (\<lambda>num_blocks.
                       and_then (read_u32 order bs 64) (\<lambda>free_blocks.
                         if num_blocks = 0 \<or> free_blocks > num_blocks then Err InvalidCounts
                         else superblock_fields order checksum block_size num_inodes free_inodes
                           num_blocks free_blocks bs)))))))))"

definition sb_secondary_offset :: "superblock \<Rightarrow> (nat, qnx6_error) outcome" where
  "sb_secondary_offset sb =
     ok_or Overflow
       (case checked_mul64 (unat (sb_num_blocks sb)) (unat (sb_block_size sb)) of
          None \<Rightarrow> None
        | Some n \<Rightarrow> checked_add64 n QNX6_DATA_AREA_OFFSET)"

definition sb_volume_size :: "superblock \<Rightarrow> (nat, qnx6_error) outcome" where
  "sb_volume_size sb =
     and_then (sb_secondary_offset sb) (\<lambda>n. ok_or Overflow (checked_add64 n QNX6_SUPERBLOCK_AREA_SIZE))"

definition immutable_geometry_matches :: "superblock \<Rightarrow> superblock \<Rightarrow> bool" where
  "immutable_geometry_matches a b \<longleftrightarrow>
     sb_byte_order a = sb_byte_order b \<and> sb_version_major a = sb_version_major b
     \<and> sb_version_minor a = sb_version_minor b \<and> sb_volume_id a = sb_volume_id b
     \<and> sb_block_size a = sb_block_size b \<and> sb_num_inodes a = sb_num_inodes b
     \<and> sb_num_blocks a = sb_num_blocks b"


section \<open>Inodes\<close>

definition QNX6_INODE_SIZE :: nat where "QNX6_INODE_SIZE = 0x80"

datatype file_type = Regular | Directory | SymbolicLink | Fifo | CharacterDevice | BlockDevice
  | Socket | Unknown

record qnx6_inode =
  in_number :: u32
  in_snapshot :: superblock_copy
  in_tree :: tree_descriptor
  in_uid :: u32
  in_gid :: u32
  in_created_time :: u32
  in_modified_time :: u32
  in_accessed_time :: u32
  in_changed_time :: u32
  in_mode :: u16
  in_extended_mode :: u16
  in_status :: u8

definition inode_from_bytes ::
  "u32 \<Rightarrow> superblock_copy \<Rightarrow> bytes \<Rightarrow> byte_order \<Rightarrow> (qnx6_inode, qnx6_error) outcome" where
  "inode_from_bytes number snapshot bs order =
     and_then (tree_parse bs 0 36 100 order) (\<lambda>tree.
     and_then (read_u32 order bs 8) (\<lambda>uid.
     and_then (read_u32 order bs 12) (\<lambda>gid.
     and_then (read_u32 order bs 16) (\<lambda>created_time.
     and_then (read_u32 order bs 20) (\<lambda>modified_time.
     and_then (read_u32 order bs 24) (\<lambda>accessed_time.
     and_then (read_u32 order bs 28) (\<lambda>changed_time.
     and_then (read_u16 order bs 32) (\<lambda>mode.
     and_then (read_u16 order bs 34) (\<lambda>extended_mode.
     and_then (index_at bs 101) (\<lambda>status.
       Ok \<lparr>in_number = number, in_snapshot = snapshot, in_tree = tree, in_uid = uid, in_gid = gid,
           in_created_time = created_time, in_modified_time = modified_time,
           in_accessed_time = accessed_time, in_changed_time = changed_time, in_mode = mode,
           in_extended_mode = extended_mode, in_status = status\<rparr>))))))))))"

definition inode_file_type :: "qnx6_inode \<Rightarrow> file_type" where
  "inode_file_type i =
     (let kind = in_mode i AND 0xF000
      in if kind = 0x8000 then Regular
         else if kind = 0x4000 then Directory
         else if kind = 0xA000 then SymbolicLink
         else if kind = 0x1000 then Fifo
         else if kind = 0x2000 then CharacterDevice
         else if kind = 0x6000 then BlockDevice
         else if kind = 0xC000 then Socket
         else Unknown)"

definition is_directory :: "qnx6_inode \<Rightarrow> bool" where
  "is_directory i \<longleftrightarrow> inode_file_type i = Directory"

lemma inode_from_bytes_answers:
  assumes "length bs = QNX6_INODE_SIZE"
  shows "answers (inode_from_bytes number snapshot bs order)
    (\<lambda>i. tree_wf (in_tree i) \<and> in_snapshot i = snapshot \<and> in_number i = number)"
proof -
  have len: "length bs = 128" using assms by (simp add: QNX6_INODE_SIZE_def)
  then have "answers (tree_parse bs 0 36 100 order) tree_wf" by (intro tree_parse_answers) simp_all
  then show ?thesis
    unfolding inode_from_bytes_def
    by (rule answers_and_then) (simp add: read_u32_ok read_u16_ok index_at_def len)
qed


section \<open>Parsing superblocks\<close>

text \<open>What a superblock that was accepted satisfies.\<close>

definition superblock_wf :: "superblock \<Rightarrow> bool" where
  "superblock_wf sb \<longleftrightarrow>
     valid_block_size (sb_block_size sb) \<and> sb_num_inodes sb \<noteq> 0 \<and> sb_num_blocks sb \<noteq> 0
     \<and> sb_free_inodes sb \<le> sb_num_inodes sb \<and> sb_free_blocks sb \<le> sb_num_blocks sb
     \<and> tree_wf (rn_tree (sb_inode_root sb)) \<and> tree_wf (rn_tree (sb_long_name_root sb))"

lemma superblock_fields_answers:
  assumes "512 \<le> length bs"
  shows "answers (superblock_fields order ck bsz ni fi nb fb bs)
    (\<lambda>sb. sb_byte_order sb = order \<and> sb_checksum sb = ck \<and> sb_block_size sb = bsz
      \<and> sb_num_inodes sb = ni \<and> sb_free_inodes sb = fi \<and> sb_num_blocks sb = nb
      \<and> sb_free_blocks sb = fb \<and> tree_wf (rn_tree (sb_inode_root sb))
      \<and> tree_wf (rn_tree (sb_long_name_root sb)))"
proof -
  have r: "answers (root_node_parse bs off order) (\<lambda>r. tree_wf (rn_tree r))" if "off + 74 \<le> 512" for off
    using assms that by (intro root_node_parse_answers) simp
  have vid: "(subslice bs 32 48 :: (bytes, qnx6_error) outcome) = Ok (slice bs 32 16)"
    using assms by (simp add: subslice_def)
  show ?thesis
    unfolding superblock_fields_def using assms
    by (simp only: vid and_then.simps read_u64_ok read_u32_ok read_u16_ok)
      (intro answers_and_then [OF r]; simp add: vid read_u64_ok read_u32_ok read_u16_ok)
qed

lemma superblock_from_bytes_answers: "answers (superblock_from_bytes bs) superblock_wf"
proof (cases "length bs < 512")
  case True
  then show ?thesis by (simp add: superblock_from_bytes_def QNX6_SUPERBLOCK_SIZE_def)
next
  case False
  then have cov: "(subslice bs 8 512 :: (bytes, qnx6_error) outcome) = Ok (slice bs 8 504)"
    by (simp add: subslice_def)
  have f: "answers (superblock_fields order ck bsz ni fi nb fb bs) superblock_wf"
    if "valid_block_size bsz" "ni \<noteq> 0" "fi \<le> ni" "nb \<noteq> 0" "fb \<le> nb" for order ck bsz ni fi nb fb
    using superblock_fields_answers [of bs order ck bsz ni fi nb fb] False that
    by (auto elim!: answers_mono simp: superblock_wf_def)
  show ?thesis
    using False f unfolding superblock_from_bytes_def
    by (cases "superblock_order bs")
      (auto simp: QNX6_SUPERBLOCK_SIZE_def cov read_u32_ok Let_def not_less)
qed

text \<open>Where the fields of an accepted superblock come from.\<close>

lemma superblock_from_bytes_Ok:
  assumes "superblock_from_bytes bs = Ok sb"
  defines "f \<equiv> \<lambda>off. word_from (sb_byte_order sb) (slice bs off 4) :: u32"
  shows "512 \<le> length bs" and "superblock_order bs = Some (sb_byte_order sb)"
    and "sb_checksum sb = f 4" and "sb_checksum sb = qnx6_crc32 (slice bs 8 504)"
    and "sb_block_size sb = f 48" and "sb_num_inodes sb = f 52" and "sb_free_inodes sb = f 56"
    and "sb_num_blocks sb = f 60" and "sb_free_blocks sb = f 64" and "superblock_wf sb"
proof -
  show len: "512 \<le> length bs"
    using assms(1) by (auto simp: superblock_from_bytes_def QNX6_SUPERBLOCK_SIZE_def split: if_splits)
  then have cov: "(subslice bs 8 512 :: (bytes, qnx6_error) outcome) = Ok (slice bs 8 504)"
    by (simp add: subslice_def)
  obtain order where o: "superblock_order bs = Some order"
    using assms(1) len by (cases "superblock_order bs")
      (auto simp: superblock_from_bytes_def QNX6_SUPERBLOCK_SIZE_def)
  let ?f = "\<lambda>off. word_from order (slice bs off 4) :: u32"
  have ck: "?f 4 = qnx6_crc32 (slice bs 8 504)"
    and fields: "superblock_fields order (?f 4) (?f 48) (?f 52) (?f 56) (?f 60) (?f 64) bs = Ok sb"
    using assms(1) len o
    by (auto simp: superblock_from_bytes_def QNX6_SUPERBLOCK_SIZE_def cov read_u32_ok Let_def
        split: if_splits)
  note p = answers_OkD [OF superblock_fields_answers [OF len] fields]
  then have "sb_byte_order sb = order" by blast
  with p ck o show "superblock_order bs = Some (sb_byte_order sb)" "sb_checksum sb = f 4"
    "sb_checksum sb = qnx6_crc32 (slice bs 8 504)" "sb_block_size sb = f 48"
    "sb_num_inodes sb = f 52" "sb_free_inodes sb = f 56" "sb_num_blocks sb = f 60"
    "sb_free_blocks sb = f 64"
    by (simp_all add: f_def)
  show "superblock_wf sb" using superblock_from_bytes_answers [of bs] assms(1) by simp
qed

end
