(* ===== verification/Qnx6_Checks.thy ===== *)
theory Qnx6_Checks
  imports Qnx6_Format
begin

text \<open>
  Two checks on QNX6 superblocks: the checksum rejects every superblock with one corrupted byte,
  and the detector of \<open>fsmnt-parser-core/src/boot_sector/qnx6.rs\<close> recognises every superblock the
  driver opens, with the same volume size.
\<close>

section \<open>The checksum\<close>

lemma crc_top_bit: "c AND 0x80000000 = 0 \<longleftrightarrow> \<not> bit c 31" for c :: u32
  using and_exp_eq_0_iff_not_bit [of c 31] by simp

lemma bit_push_u32: "bit (push_bit m c) n \<longleftrightarrow> m \<le> n \<and> n < 32 \<and> bit c (n - m)" for c :: u32
  by (auto simp: bit_simps)

lemma bit_crc_shift:
  "bit (crc_shift c) 0 \<longleftrightarrow> bit c 31"
  "n < 31 \<Longrightarrow> bit (crc_shift c) (Suc n) \<longleftrightarrow> bit c n \<noteq> (bit c 31 \<and> bit (0x04C11DB7 :: u32) (Suc n))"
  using bit_push_u32 [of 1 c 0] bit_push_u32 [of 1 c "Suc n"]
  by (auto simp: crc_shift_def crc_top_bit bit_xor_iff)

text \<open>The polynomial is odd, so the low bit tells whether it was applied.\<close>

lemma crc_shift_inj:
  fixes a b :: u32
  assumes "crc_shift a = crc_shift b"
  shows "a = b"
proof (rule bit_word_eqI)
  fix n
  assume "n < LENGTH(32)"
  then consider "n = 31" | "n < 31" by fastforce
  then show "bit a n \<longleftrightarrow> bit b n"
  proof cases
    case 1
    then show ?thesis using bit_crc_shift(1) [of a] bit_crc_shift(1) [of b] assms by simp
  next
    case 2
    then show ?thesis
      using bit_crc_shift(1) [of a] bit_crc_shift(1) [of b] bit_crc_shift(2) [OF 2, of a]
        bit_crc_shift(2) [OF 2, of b] assms by metis
  qed
qed

lemma crc_shift_pow_inj: "(crc_shift ^^ n) a = (crc_shift ^^ n) b \<Longrightarrow> a = b"
  by (induction n arbitrary: a b) (auto dest: crc_shift_inj)

lemma xor_right_cancel:
  fixes a b c :: u32
  assumes "a XOR c = b XOR c"
  shows "a = b"
proof -
  have "(a XOR c) XOR c = (b XOR c) XOR c" by (simp only: assms)
  then show ?thesis by (simp only: xor.assoc xor_self_eq xor.right_neutral)
qed

lemma crc_byte_inj: "crc_byte a x = crc_byte b x \<Longrightarrow> a = b"
  unfolding crc_byte_def by (rule xor_right_cancel) (rule crc_shift_pow_inj)

lemma crc_byte_differs:
  assumes "x \<noteq> y"
  shows "crc_byte a x \<noteq> crc_byte a y"
proof
  assume "crc_byte a x = crc_byte a y"
  then have eq: "a XOR push_bit 24 (ucast x) = a XOR push_bit 24 (ucast y)"
    unfolding crc_byte_def by (rule crc_shift_pow_inj)
  have "x = y"
  proof (rule bit_word_eqI)
    fix n
    assume "n < LENGTH(8)"
    then show "bit x n \<longleftrightarrow> bit y n"
      using arg_cong [OF eq, of "\<lambda>w. bit w (n + 24)"] by (auto simp: bit_simps)
  qed
  with assms show False ..
qed

lemma crc_fold_inj: "foldl crc_byte a xs = foldl crc_byte b xs \<Longrightarrow> a = b"
  by (induction xs arbitrary: a b) (auto dest: crc_byte_inj)

lemma crc32_detects_byte:
  assumes "i < length bs" and "x \<noteq> bs ! i"
  shows "qnx6_crc32 (bs[i := x]) \<noteq> qnx6_crc32 bs"
proof
  assume eq: "qnx6_crc32 (bs[i := x]) = qnx6_crc32 bs"
  let ?c = "foldl crc_byte 0 (take i bs)"
  have "bs[i := x] = take i bs @ x # drop (Suc i) bs" using assms(1) by (simp add: upd_conv_take_nth_drop)
  moreover have "bs = take i bs @ bs ! i # drop (Suc i) bs" using assms(1) by (simp add: id_take_nth_drop)
  ultimately have "foldl crc_byte (crc_byte ?c x) (drop (Suc i) bs)
      = foldl crc_byte (crc_byte ?c (bs ! i)) (drop (Suc i) bs)"
    using eq unfolding qnx6_crc32_def by (metis foldl_Cons foldl_append)
  then have "crc_byte ?c x = crc_byte ?c (bs ! i)" by (rule crc_fold_inj)
  then show False using crc_byte_differs [OF assms(2)] by blast
qed

section \<open>A sample superblock\<close>

text \<open>
  A volume of sixteen inodes and four blocks of 512 bytes whose inode tree has 256 bytes. The
  second pointer of the inode tree, which is not in use, makes the checksum zero.
\<close>

definition sample_head :: bytes where
  "sample_head =
     [0x22, 0x11, 0x19, 0x68, 0, 0, 0, 0, 0, 0, 0, 0, 0, 0, 0, 0,
      0, 0, 0, 0, 0, 0, 0, 0, 0, 0, 0, 0, 0, 0, 0, 0,
      0, 0, 0, 0, 0, 0, 0, 0, 0, 0, 0, 0, 0, 0, 0, 0,
      0, 2, 0, 0, 16, 0, 0, 0, 0, 0, 0, 0, 4, 0, 0, 0,
      0, 0, 0, 0, 0, 0, 0, 0, 0, 1, 0, 0, 0, 0, 0, 0,
      0, 0, 0, 0, 59, 23, 221, 113]"

definition sample_superblock_bytes :: bytes where
  "sample_superblock_bytes = sample_head @ replicate 424 0"

definition sample_root :: root_node where
  "sample_root =
     \<lparr>rn_tree = \<lparr>td_size = 0, td_pointers = replicate 16 0, td_levels = 0\<rparr>, rn_mode = 0\<rparr>"

definition sample_superblock :: superblock where
  "sample_superblock =
     \<lparr>sb_byte_order = Little, sb_checksum = 0, sb_serial = 0, sb_created_time = 0,
      sb_accessed_time = 0, sb_flags = 0, sb_version_major = 0, sb_version_minor = 0,
      sb_volume_id = replicate 16 0, sb_block_size = 512, sb_num_inodes = 16, sb_free_inodes = 0,
      sb_num_blocks = 4, sb_free_blocks = 0, sb_allocation_group = 0,
      sb_inode_root = \<lparr>rn_tree = \<lparr>td_size = 256, td_pointers = 0 # 0x71DD173B # replicate 14 0,
        td_levels = 0\<rparr>, rn_mode = 0\<rparr>,
      sb_bitmap_root = sample_root, sb_long_name_root = sample_root, sb_unknown_root = sample_root\<rparr>"

lemma crc_zeros: "foldl crc_byte 0 (replicate n 0) = 0"
  by (induction n) (simp_all add: crc_byte_def crc_shift_def numeral_eq_Suc)

lemma crc_byte_unrolled:
  "crc_byte c b = (let f = crc_shift in f (f (f (f (f (f (f (f (c XOR push_bit 24 (ucast b))))))))))"
  by (simp add: crc_byte_def numeral_eq_Suc)

lemma sample_length [simp]: "length sample_head = 88" "length sample_superblock_bytes = 512"
  by (simp_all add: sample_head_def sample_superblock_bytes_def)

lemma sample_slice:
  "off + n \<le> 88 \<Longrightarrow> slice sample_superblock_bytes off n = slice sample_head off n"
  "88 \<le> off \<Longrightarrow> off + n \<le> 512 \<Longrightarrow> slice sample_superblock_bytes off n = replicate n 0"
  by (simp_all add: sample_superblock_bytes_def slice_def)

lemma sample_crc: "qnx6_crc32 (slice sample_superblock_bytes 8 504) = 0"
proof -
  have "slice sample_superblock_bytes 8 504 = drop 8 sample_head @ replicate 424 0"
    by (simp add: sample_superblock_bytes_def slice_def)
  moreover have "foldl crc_byte 0 (drop 8 sample_head) = 0"
    by (simp add: sample_head_def crc_byte_unrolled crc_shift_def)
  ultimately show ?thesis by (simp add: qnx6_crc32_def crc_zeros)
qed

lemma sample_nth: "88 \<le> off \<Longrightarrow> off < 512 \<Longrightarrow> sample_superblock_bytes ! off = 0"
  by (simp add: sample_superblock_bytes_def nth_append)

lemma sample_pointers:
  "88 \<le> off \<Longrightarrow> off + 4 * n \<le> 512 \<Longrightarrow>
    read_pointers Little sample_superblock_bytes off n = Ok (replicate n 0)"
  by (induction n arbitrary: off) (simp_all add: read_u32_ok sample_slice from_le_bytes_def)

lemma sample_head_fields:
  "slice sample_head 0 4 = [0x22, 0x11, 0x19, 0x68]" "slice sample_head 4 4 = [0, 0, 0, 0]"
  "slice sample_head 8 8 = [0, 0, 0, 0, 0, 0, 0, 0]"
  "slice sample_head 48 4 = [0, 2, 0, 0]" "slice sample_head 52 4 = [16, 0, 0, 0]"
  "slice sample_head 56 4 = [0, 0, 0, 0]" "slice sample_head 60 4 = [4, 0, 0, 0]"
  "slice sample_head 64 4 = [0, 0, 0, 0]" "slice sample_head 68 4 = [0, 0, 0, 0]"
  "slice sample_head 72 8 = [0, 1, 0, 0, 0, 0, 0, 0]" "slice sample_head 80 4 = [0, 0, 0, 0]"
  "slice sample_head 84 4 = [59, 23, 221, 113]" "slice sample_head 16 4 = [0, 0, 0, 0]"
  "slice sample_head 20 4 = [0, 0, 0, 0]" "slice sample_head 24 4 = [0, 0, 0, 0]"
  "slice sample_head 28 2 = [0, 0]" "slice sample_head 30 2 = [0, 0]"
  by (simp_all add: sample_head_def slice_def)

lemma sample_volume_id: "slice sample_head 32 16 = replicate 16 0"
proof -
  have "length (slice sample_head 32 16) = 16" "\<forall>y\<in>set (slice sample_head 32 16). y = 0"
    by (simp_all add: sample_head_def slice_def)
  then show ?thesis by (simp add: replicate_eqI)
qed

lemmas sample_simps = read_u16_ok read_u32_ok read_u64_ok subslice_def index_at_def sample_slice
  sample_head_fields sample_volume_id sample_nth from_le_bytes_def

lemma sample_superblock_accepted: "superblock_from_bytes sample_superblock_bytes = Ok sample_superblock"
proof -
  let ?bs = sample_superblock_bytes
  have "take 4 ?bs = [0x22, 0x11, 0x19, 0x68]"
    by (simp add: sample_superblock_bytes_def sample_head_def)
  then have order: "superblock_order ?bs = Some Little"
    by (simp add: superblock_order_def QNX6_MAGIC_def from_le_bytes_def)
  have roots: "root_node_parse ?bs off Little = Ok sample_root" if "88 \<le> off" "off + 80 \<le> 512" for off
    using that by (simp add: root_node_parse_def tree_parse_def sample_root_def sample_pointers sample_simps)
  have "read_pointers Little ?bs 80 (Suc (Suc 14)) = Ok (0 # 0x71DD173B # replicate 14 0)"
    by (simp only: read_pointers.simps) (simp add: sample_pointers sample_simps)
  then have iroot: "root_node_parse ?bs 72 Little = Ok (sb_inode_root sample_superblock)"
    by (simp add: root_node_parse_def tree_parse_def sample_simps sample_superblock_def)
  show ?thesis
    by (simp add: superblock_from_bytes_def order QNX6_SUPERBLOCK_SIZE_def sample_crc
        valid_block_size_def superblock_fields_def roots iroot sample_simps)
      (simp add: sample_superblock_def)
qed


section \<open>Corruption\<close>

text \<open>
  C39: a superblock that was accepted is rejected once any one byte its checksum covers is
  changed, with the stored and the computed checksum in the error.
\<close>

theorem corrupted_superblock_rejected:
  assumes "superblock_from_bytes bs = Ok sb" and "8 \<le> i" and "i < 512" and "x \<noteq> bs ! i"
  shows "\<exists>actual. superblock_from_bytes (bs[i := x]) = Err (ChecksumMismatch (sb_checksum sb) actual)
    \<and> actual \<noteq> sb_checksum sb"
proof -
  note sb = superblock_from_bytes_Ok [OF assms(1)]
  let ?bs = "bs[i := x]" and ?order = "sb_byte_order sb"
  have cov: "(subslice ?bs 8 512 :: (bytes, qnx6_error) outcome) = Ok (slice ?bs 8 504)"
    using sb(1) by (simp add: subslice_def)
  have sl: "slice ?bs 8 504 = (slice bs 8 504)[i - 8 := x]"
    using assms(2,3) by (simp add: slice_def drop_update_swap take_update_swap)
  have same: "take 4 ?bs = take 4 bs" "slice ?bs 4 4 = slice bs 4 4"
    using assms(2,3) by (simp_all add: slice_def drop_update_swap)
  have "qnx6_crc32 (slice ?bs 8 504) \<noteq> sb_checksum sb"
    unfolding sl sb(4) using assms sb(1) by (intro crc32_detects_byte) auto
  moreover have "superblock_order ?bs = Some ?order"
    using sb(2) by (simp only: superblock_order_def same)
  moreover have "word_from ?order (slice ?bs 4 4) = sb_checksum sb" by (simp only: same sb(3))
  ultimately show ?thesis
    using sb(1) by (simp add: superblock_from_bytes_def QNX6_SUPERBLOCK_SIZE_def cov read_u32_ok Let_def)
qed

theorem corrupted_superblock_rejected_witness:
  "\<exists>checksum. superblock_from_bytes (sample_superblock_bytes[100 := 1])
     = Err (ChecksumMismatch 0 checksum) \<and> checksum \<noteq> 0"
  using corrupted_superblock_rejected [OF sample_superblock_accepted, of 100 1]
  by (simp add: sample_nth sample_superblock_def)


section \<open>Detection\<close>

definition probe_order :: "bytes \<Rightarrow> byte_order option" where
  "probe_order bs =
     (if length bs < 4 then None
      else if from_le_bytes (take 4 bs) = QNX6_MAGIC then Some Little
      else if from_be_bytes (take 4 bs) = QNX6_MAGIC then Some Big
      else None)"

definition probe_u32 :: "bytes \<Rightarrow> nat \<Rightarrow> byte_order \<Rightarrow> u32 option" where
  "probe_u32 bs off order =
     (if off + 4 \<le> length bs then Some (word_from order (slice bs off 4)) else None)"

definition SUPERBLOCK_PROBE_SIZE :: nat where
  "SUPERBLOCK_PROBE_SIZE = 0x44"

definition is_superblock :: "bytes \<Rightarrow> bool" where
  "is_superblock bs \<longleftrightarrow>
     (if length bs < SUPERBLOCK_PROBE_SIZE then False
      else case probe_order bs of None \<Rightarrow> False
      | Some order \<Rightarrow>
          (case probe_u32 bs 0x30 order of None \<Rightarrow> False
           | Some block_size \<Rightarrow>
               (if \<not> valid_block_size block_size then False
                else case probe_u32 bs 0x34 order of None \<Rightarrow> False
                | Some num_inodes \<Rightarrow>
                    (case probe_u32 bs 0x38 order of None \<Rightarrow> False
                     | Some free_inodes \<Rightarrow>
                         (case probe_u32 bs 0x3c order of None \<Rightarrow> False
                          | Some num_blocks \<Rightarrow>
                              (case probe_u32 bs 0x40 order of None \<Rightarrow> False
                               | Some free_blocks \<Rightarrow>
                                   num_inodes > 0 \<and> free_inodes \<le> num_inodes \<and> num_blocks > 0
                                   \<and> free_blocks \<le> num_blocks))))))"

definition superblock_volume_size :: "bytes \<Rightarrow> nat option" where
  "superblock_volume_size bs =
     (if \<not> is_superblock bs then None
      else case probe_order bs of None \<Rightarrow> None
      | Some order \<Rightarrow>
          (case probe_u32 bs 0x30 order of None \<Rightarrow> None
           | Some block_size \<Rightarrow>
               (case probe_u32 bs 0x3c order of None \<Rightarrow> None
                | Some num_blocks \<Rightarrow>
                    (case checked_mul64 (unat num_blocks) (unat block_size) of None \<Rightarrow> None
                     | Some n \<Rightarrow>
                         (case checked_add64 n QNX6_DATA_AREA_OFFSET of None \<Rightarrow> None
                          | Some n \<Rightarrow> checked_add64 n QNX6_SUPERBLOCK_AREA_SIZE)))))"

definition probe_volume :: "bytes \<Rightarrow> bool" where
  "probe_volume volume \<longleftrightarrow>
     QNX6_BOOT_AREA_SIZE \<le> length volume \<and> is_superblock (drop QNX6_BOOT_AREA_SIZE volume)"

definition probed_volume_size :: "bytes \<Rightarrow> nat option" where
  "probed_volume_size volume =
     (if QNX6_BOOT_AREA_SIZE \<le> length volume
      then superblock_volume_size (drop QNX6_BOOT_AREA_SIZE volume) else None)"

lemma valid_block_size_unat: "valid_block_size n \<Longrightarrow> 512 \<le> unat n \<and> unat n \<le> 4096 \<and> 4 dvd unat n"
  by (auto simp: valid_block_size_def)

text \<open>
  C16: every superblock the driver accepts is recognised by the detector, and both compute the
  same volume size, for which no arithmetic overflows.
\<close>

theorem detector_agrees_with_driver:
  assumes "superblock_from_bytes bs = Ok sb"
  shows "is_superblock bs
    \<and> (\<exists>n. superblock_volume_size bs = Some n \<and> sb_volume_size sb = Ok n
         \<and> n = 0x4000 + unat (sb_num_blocks sb) * unat (sb_block_size sb))"
proof -
  note sb = superblock_from_bytes_Ok [OF assms]
  have o: "probe_order bs = Some (sb_byte_order sb)"
    using sb(1,2) by (simp add: probe_order_def superblock_order_def)
  have f: "probe_u32 bs off (sb_byte_order sb) = Some (word_from (sb_byte_order sb) (slice bs off 4))"
    if "off + 4 \<le> 512" for off using that sb(1) by (simp add: probe_u32_def)
  have rec: "is_superblock bs"
    using sb(1,10) o by (simp add: is_superblock_def SUPERBLOCK_PROBE_SIZE_def f superblock_wf_def
        word_neq_0_conv flip: sb(5-9))
  have "unat (sb_num_blocks sb) < 2 ^ 32" using unat_less_power [of "sb_num_blocks sb"] by simp
  moreover have "unat (sb_block_size sb) \<le> 4096"
    using sb(10) valid_block_size_unat by (simp add: superblock_wf_def)
  ultimately have "unat (sb_num_blocks sb) * unat (sb_block_size sb) \<le> 2 ^ 32 * 4096"
    by (intro mult_le_mono) simp_all
  then have "unat (sb_num_blocks sb) * unat (sb_block_size sb) \<le> 2 ^ 44" by simp
  with rec show ?thesis
    by (simp add: superblock_volume_size_def o f sb_volume_size_def sb_secondary_offset_def
        checked_mul64_def checked_add64_def QNX6_DATA_AREA_OFFSET_def QNX6_BOOT_AREA_SIZE_def
        QNX6_SUPERBLOCK_AREA_SIZE_def flip: sb(5-9))
qed

theorem detector_agrees_with_driver_witness:
  "is_superblock sample_superblock_bytes
   \<and> superblock_volume_size sample_superblock_bytes = Some 0x4800
   \<and> sb_volume_size sample_superblock = Ok 0x4800"
  using detector_agrees_with_driver [OF sample_superblock_accepted]
  by (simp add: sample_superblock_def)

end
