(* ===== verification/Block_Cache.thy ===== *)
theory Block_Cache
  imports Byte_Source
begin

text \<open>
  \<open>fsmnt-parser-core/src/io/block_cache.rs\<close>: the cache of the block read last, used by the
  QNX6 and FAT parsers. Over a lawful reader a cached read returns what a direct read of whole
  blocks returns, whatever the cache holds.
\<close>

record block_cache =
  bc_block_size :: nat
  bc_start :: "nat option"
  bc_bytes :: bytes

definition cache_new :: "nat \<Rightarrow> (block_cache, io_error) outcome" where
  "cache_new block_size =
     (if block_size = 0 then Panic
      else Ok \<lparr>bc_block_size = block_size, bc_start = None, bc_bytes = []\<rparr>)"

definition cache_clear :: "block_cache \<Rightarrow> block_cache" where
  "cache_clear bc = bc\<lparr>bc_start := None\<rparr>"

text \<open>\<open>Vec::resize(n, 0)\<close>\<close>

definition resize_zero :: "bytes \<Rightarrow> nat \<Rightarrow> bytes" where
  "resize_zero bs n = take n bs @ replicate (n - length bs) 0"

text \<open>
  A failed read leaves the cache invalid; what it leaves in the buffer is not observable, and
  the model leaves the zeros of the resize.
\<close>

definition cache_read_block ::
  "'s source \<Rightarrow> block_cache \<Rightarrow> 's \<Rightarrow> nat \<Rightarrow> (bytes, io_error) outcome \<times> block_cache \<times> 's" where
  "cache_read_block src bc s start =
     (if bc_start bc \<noteq> Some start
      then
        let bc = bc\<lparr>bc_bytes := (if length (bc_bytes bc) \<noteq> bc_block_size bc
                                  then resize_zero (bc_bytes bc) (bc_block_size bc) else bc_bytes bc),
                    bc_start := None\<rparr>
        in and_do (apsnd (Pair bc) (read_exact_from src s start (length (bc_bytes bc)))) (\<lambda>bs (bc, s).
             (Ok bs, bc\<lparr>bc_bytes := bs, bc_start := Some start\<rparr>, s))
      else (Ok (bc_bytes bc), bc, s))"

text \<open>The loop of \<open>read_exact_at\<close>; \<open>acc\<close> is the output filled so far.\<close>

function cache_read_loop ::
  "'s source \<Rightarrow> block_cache \<Rightarrow> 's \<Rightarrow> nat \<Rightarrow> nat \<Rightarrow> bytes \<Rightarrow> (bytes, io_error) outcome \<times> block_cache \<times> 's" where
  "cache_read_loop src bc s offset len acc =
     (if length acc < len
      then
        and_do (ok_or InvalidInput (checked_add64 offset (length acc)), bc, s) (\<lambda>position (bc, s).
          if bc_block_size bc = 0 then (Panic, bc, s)
          else
            and_do (ok_or InvalidInput (checked_mul64 (position div bc_block_size bc) (bc_block_size bc)), bc, s)
              (\<lambda>block_start (bc, s).
                let within = position - block_start;
                    chunk = min (bc_block_size bc - within) (len - length acc)
                in and_do (cache_read_block src bc s block_start) (\<lambda>block (bc, s).
                     if within + chunk \<le> length block \<and> 0 < chunk
                     then cache_read_loop src bc s offset len (acc @ slice block within chunk)
                     else (Panic, bc, s))))
      else (Ok acc, bc, s))"
  by pat_completeness auto
termination
  by (relation "measure (\<lambda>(src, bc, s, offset, len, acc). len - length acc)")
    (auto simp: length_slice_fits simp del: length_slice intro!: diff_less_mono2)

declare cache_read_loop.simps [simp del]

definition cache_read_exact_at ::
  "'s source \<Rightarrow> block_cache \<Rightarrow> 's \<Rightarrow> nat \<Rightarrow> nat \<Rightarrow> (bytes, io_error) outcome \<times> block_cache \<times> 's" where
  "cache_read_exact_at src bc s offset len = cache_read_loop src bc s offset len []"


section \<open>Transparency\<close>

text \<open>A valid cache holds the block it names.\<close>

definition cache_inv :: "bytes \<Rightarrow> block_cache \<Rightarrow> bool" where
  "cache_inv c bc \<longleftrightarrow> 0 < bc_block_size bc
     \<and> (\<forall>p. bc_start bc = Some p \<longrightarrow>
          p + bc_block_size bc \<le> length c \<and> bc_bytes bc = slice c p (bc_block_size bc))"

text \<open>What a read of the block at \<open>p\<close> returns without a cache.\<close>

definition block_at :: "bytes \<Rightarrow> nat \<Rightarrow> nat \<Rightarrow> (bytes, io_error) outcome" where
  "block_at c bs p = (if p + bs \<le> length c then Ok (slice c p bs) else Err UnexpectedEof)"

lemma cache_new_inv: "0 < n \<Longrightarrow> \<exists>bc. cache_new n = Ok bc \<and> cache_inv c bc \<and> bc_block_size bc = n"
  by (simp add: cache_new_def cache_inv_def)

lemma cache_clear_inv: "cache_inv c bc \<Longrightarrow> cache_inv c (cache_clear bc)"
  by (simp add: cache_inv_def cache_clear_def)

lemma length_resize_zero [simp]: "length (resize_zero bs n) = n"
  by (simp add: resize_zero_def)

text \<open>One iteration, when the checked operations do not overflow.\<close>

lemma cache_read_loop_step:
  assumes "length acc < len" and "0 < bc_block_size bc" and "offset + length acc < 2 ^ 63"
  defines "position \<equiv> offset + length acc"
  defines "start \<equiv> position div bc_block_size bc * bc_block_size bc"
  defines "within \<equiv> position mod bc_block_size bc"
  defines "chunk \<equiv> min (bc_block_size bc - within) (len - length acc)"
  shows "cache_read_loop src bc s offset len acc =
    and_do (cache_read_block src bc s start) (\<lambda>block (bc, s).
      if within + chunk \<le> length block \<and> 0 < chunk
      then cache_read_loop src bc s offset len (acc @ slice block within chunk)
      else (Panic, bc, s))"
proof -
  have "start \<le> position" unfolding start_def by (rule div_times_less_eq_dividend)
  then have "position < 2 ^ 64" "start < 2 ^ 64" using assms(3) unfolding position_def by simp_all
  then have c: "checked_add64 offset (length acc) = Some position"
      "checked_mul64 (position div bc_block_size bc) (bc_block_size bc) = Some start"
    by (simp_all add: position_def start_def)
  have "position - start = within" by (simp add: start_def within_def minus_div_mult_eq_mod)
  then show ?thesis
    using assms(1,2) unfolding chunk_def
    by (subst cache_read_loop.simps) (simp add: c Let_def cong: and_do_weak_cong)
qed

lemma div_in_block: "r < (b :: nat) \<Longrightarrow> (q * b + r) div b = q"
  by simp

context byte_reader
begin

lemma cache_read_block_transparent:
  assumes inv: "cache_inv (content s) bc" and l: "lawful s" and p: "p < 2 ^ 63"
  shows "\<exists>bc' s'. cache_read_block src bc s p = (block_at (content s) (bc_block_size bc) p, bc', s')
    \<and> cache_inv (content s) bc' \<and> bc_block_size bc' = bc_block_size bc \<and> lawful s'
    \<and> content s' = content s"
proof (cases "bc_start bc = Some p")
  case True
  with inv l show ?thesis by (simp add: cache_read_block_def block_at_def cache_inv_def)
next
  case False
  let ?bc = "bc\<lparr>bc_bytes := (if length (bc_bytes bc) \<noteq> bc_block_size bc
    then resize_zero (bc_bytes bc) (bc_block_size bc) else bc_bytes bc), bc_start := None\<rparr>"
  have len: "length (bc_bytes ?bc) = bc_block_size bc" by simp
  have bs: "0 < bc_block_size bc" using inv by (simp add: cache_inv_def)
  show ?thesis
  proof (cases "p + bc_block_size bc \<le> length (content s)")
    case True
    then obtain s' where "read_exact_from src s p (bc_block_size bc)
        = (Ok (slice (content s) p (bc_block_size bc)), s')" "lawful s'" "content s' = content s"
      using read_exact_from_ok [OF l p] by blast
    with True False bs show ?thesis
      by (auto simp: cache_read_block_def Let_def block_at_def cache_inv_def)
  next
    case f: False
    then obtain s' where "read_exact_from src s p (bc_block_size bc) = (Err UnexpectedEof, s')"
      "lawful s'" "content s' = content s"
      using read_exact_from_eof [OF l p bs] by (auto simp: not_le)
    with f False bs show ?thesis
      by (auto simp: cache_read_block_def Let_def block_at_def cache_inv_def)
  qed
qed

text \<open>
  Reading a range through the cache: the bytes of the range, provided the blocks it touches are
  whole.
\<close>

lemma cache_read_loop_ok:
  assumes "cache_inv (content s) bc" and "lawful s" and "length acc \<le> len"
    and "acc = slice (content s) offset (length acc)"
    and "len = 0 \<or> ((offset + len - 1) div bc_block_size bc + 1) * bc_block_size bc \<le> length (content s)"
  shows "\<exists>bc' s'. cache_read_loop src bc s offset len acc = (Ok (slice (content s) offset len), bc', s')
    \<and> cache_inv (content s) bc' \<and> bc_block_size bc' = bc_block_size bc \<and> lawful s'
    \<and> content s' = content s"
  using assms
proof (induction "len - length acc" arbitrary: bc s acc rule: less_induct)
  case less
  show ?case
  proof (cases "length acc < len")
    case False
    then have "length acc = len" using less.prems(3) by simp
    with less.prems(1,2,4) show ?thesis by (subst cache_read_loop.simps) simp
  next
    case True
    let ?bs = "bc_block_size bc" and ?c = "content s"
    let ?pos = "offset + length acc"
    let ?st = "?pos div ?bs * ?bs" and ?w = "?pos mod ?bs"
    let ?k = "min (?bs - ?w) (len - length acc)"
    have bs: "0 < ?bs" using less.prems(1) by (simp add: cache_inv_def)
    have w: "?pos - ?st = ?w" "?st + ?w = ?pos" "?w < ?bs"
      using bs by (simp_all add: minus_div_mult_eq_mod)
    have "?pos div ?bs \<le> (offset + len - 1) div ?bs" using True by (intro div_le_mono) simp
    then have "(?pos div ?bs + 1) * ?bs \<le> ((offset + len - 1) div ?bs + 1) * ?bs"
      by (intro mult_le_mono1) simp
    also have "\<dots> \<le> length ?c" using less.prems(5) True by linarith
    finally have fits: "?st + ?bs \<le> length ?c" by simp
    have small: "length ?c < 2 ^ 63" using content_bound [OF less.prems(2)] .
    have "?pos < length ?c" "?st < length ?c" using fits w bs by linarith+
    then have pos: "?pos < 2 ^ 63" and st: "?st < 2 ^ 63" using small by auto
    from cache_read_block_transparent [OF less.prems(1,2) st] obtain bc' s' where
      b: "cache_read_block src bc s ?st = (Ok (slice ?c ?st ?bs), bc', s')" "cache_inv ?c bc'"
        "bc_block_size bc' = ?bs" "lawful s'" "content s' = ?c"
      using fits by (auto simp: block_at_def)
    have k: "0 < ?k" "?w + ?k \<le> ?bs" using True w(3) by auto
    let ?acc = "acc @ slice (slice ?c ?st ?bs) ?w ?k"
    have sl: "slice (slice ?c ?st ?bs) ?w ?k = slice ?c ?pos ?k"
      using k(2) w(2) by (simp add: slice_slice)
    have "?pos + ?k \<le> length ?c" using fits k(2) w(2) by linarith
    then have ln: "length (slice ?c ?pos ?k) = ?k" by (rule length_slice_fits)
    have acc: "?acc = slice ?c offset (length ?acc)"
      using less.prems(4) slice_append_slice [of ?c offset "length acc" ?k] ln unfolding sl
      by (metis length_append)
    have more: "length ?acc \<le> len" "len - length ?acc < len - length acc"
      using k True unfolding length_append sl ln by auto
    have ih: "\<exists>bc'' s''. cache_read_loop src bc' s' offset len ?acc
        = (Ok (slice ?c offset len), bc'', s'') \<and> cache_inv ?c bc'' \<and> bc_block_size bc'' = ?bs
        \<and> lawful s'' \<and> content s'' = ?c"
      using less.hyps [OF more(2), of s' bc'] less.prems(5) b(2,4) more(1) acc unfolding b(3,5) by blast
    have "cache_read_loop src bc s offset len acc = cache_read_loop src bc' s' offset len ?acc"
      using k fits by (subst cache_read_loop_step [OF True bs pos]) (simp add: b(1))
    with ih show ?thesis by simp
  qed
qed

lemma cache_read_exact_at_ok:
  assumes "cache_inv (content s) bc" and "lawful s"
    and "len = 0 \<or> ((offset + len - 1) div bc_block_size bc + 1) * bc_block_size bc \<le> length (content s)"
  shows "\<exists>bc' s'. cache_read_exact_at src bc s offset len = (Ok (slice (content s) offset len), bc', s')
    \<and> cache_inv (content s) bc' \<and> bc_block_size bc' = bc_block_size bc \<and> lawful s'
    \<and> content s' = content s"
  using cache_read_loop_ok [OF assms(1,2), of "[]" len offset] assms(3)
  by (simp add: cache_read_exact_at_def)

lemma cache_read_loop_eof:
  assumes "cache_inv (content s) bc" and "lawful s" and "length acc < len" and "offset + len < 2 ^ 63"
    and "length (content s) < ((offset + len - 1) div bc_block_size bc + 1) * bc_block_size bc"
  shows "\<exists>bc' s'. cache_read_loop src bc s offset len acc = (Err UnexpectedEof, bc', s')
    \<and> cache_inv (content s) bc' \<and> bc_block_size bc' = bc_block_size bc \<and> lawful s'
    \<and> content s' = content s"
  using assms
proof (induction "len - length acc" arbitrary: bc s acc rule: less_induct)
  case less
  let ?bs = "bc_block_size bc" and ?c = "content s"
  let ?pos = "offset + length acc"
  let ?st = "?pos div ?bs * ?bs" and ?w = "?pos mod ?bs"
  let ?k = "min (?bs - ?w) (len - length acc)"
  have bs: "0 < ?bs" using less.prems(1) by (simp add: cache_inv_def)
  have w: "?pos - ?st = ?w" "?st + ?w = ?pos" "?w < ?bs"
    using bs by (simp_all add: minus_div_mult_eq_mod)
  have pos: "?pos < 2 ^ 63" using less.prems(3,4) by simp
  then have st: "?st < 2 ^ 63" by (rule le_less_trans [OF div_times_less_eq_dividend])
  from cache_read_block_transparent [OF less.prems(1,2) st] obtain bc' s' where
    b: "cache_read_block src bc s ?st = (block_at ?c ?bs ?st, bc', s')" "cache_inv ?c bc'"
      "bc_block_size bc' = ?bs" "lawful s'" "content s' = ?c"
    by blast
  have k: "0 < ?k" "?w + ?k \<le> ?bs" using less.prems(3) w(3) by auto
  show ?case
  proof (cases "?st + ?bs \<le> length ?c")
    case True
    let ?acc = "acc @ slice (slice ?c ?st ?bs) ?w ?k"
    have "length (slice (slice ?c ?st ?bs) ?w ?k) = ?k" using True k(2) by (simp add: length_slice_fits)
    then have len: "length ?acc = length acc + ?k" by simp
    have "length acc + ?k \<noteq> len"
    proof
      assume "length acc + ?k = len"
      then have "?pos + ?k = offset + len" by simp
      then have "offset + len - 1 = ?st + (?w + ?k - 1)" using k(1) w(2) by linarith
      moreover have "(?st + (?w + ?k - 1)) div ?bs = ?pos div ?bs"
        using k by (intro div_in_block) linarith
      ultimately have "((offset + len - 1) div ?bs + 1) * ?bs = ?st + ?bs" by simp
      with True less.prems(5) show False by simp
    qed
    then have more: "length ?acc < len" "len - length ?acc < len - length acc"
      using k(1) less.prems(3) unfolding len by auto
    have "\<exists>bc'' s''. cache_read_loop src bc' s' offset len ?acc = (Err UnexpectedEof, bc'', s'')
        \<and> cache_inv ?c bc'' \<and> bc_block_size bc'' = ?bs \<and> lawful s'' \<and> content s'' = ?c"
      using less.hyps [OF more(2), of s' bc'] less.prems(4,5) b(2,4) more(1) unfolding b(3,5) by blast
    moreover have "cache_read_loop src bc s offset len acc = cache_read_loop src bc' s' offset len ?acc"
      using k True by (subst cache_read_loop_step [OF less.prems(3) bs pos]) (simp add: b(1) block_at_def)
    ultimately show ?thesis by simp
  next
    case False
    then have "cache_read_loop src bc s offset len acc = (Err UnexpectedEof, bc', s')"
      by (subst cache_read_loop_step [OF less.prems(3) bs pos]) (simp add: b(1) block_at_def)
    with b(2-5) show ?thesis by simp
  qed
qed

text \<open>Both cases: a cached read needs the last block it touches to be whole.\<close>

lemma cache_read_exact_at_total:
  assumes "cache_inv (content s) bc" and "lawful s" and "0 < len" and "offset + len < 2 ^ 63"
  shows "\<exists>bc' s'. cache_read_exact_at src bc s offset len
      = (if ((offset + len - 1) div bc_block_size bc + 1) * bc_block_size bc \<le> length (content s)
         then Ok (slice (content s) offset len) else Err UnexpectedEof, bc', s')
    \<and> cache_inv (content s) bc' \<and> bc_block_size bc' = bc_block_size bc \<and> lawful s'
    \<and> content s' = content s"
  using cache_read_exact_at_ok [OF assms(1,2), of len offset]
    cache_read_loop_eof [OF assms(1,2) _ assms(4), of "[]"] assms(3)
  by (simp add: cache_read_exact_at_def not_le)

end

end
