(* ===== verification/Qnx6_Fs.thy ===== *)
theory Qnx6_Fs
  imports Block_Cache Qnx6_Format
begin

text \<open>
  The QNX6 driver, \<open>fs-qnx6/src/fs.rs\<close>: mounting, snapshot selection, inodes, and the reads
  through the pointer trees with their five pointer caches. An operation on \<open>&mut self\<close> takes
  the driver's state and returns its outcome and the new state; a read into a buffer of \<open>n\<close> bytes
  returns the bytes it put there. A division by zero and an index out of range are panics.
\<close>

section \<open>State\<close>

record 's qnx6 =
  q_reader :: 's
  q_pointer_cache :: "block_cache list"
  q_superblock :: superblock
  q_active_copy :: superblock_copy
  q_alternate :: "(superblock_copy \<times> superblock) option"
  q_primary_valid :: bool
  q_secondary_valid :: bool
  q_secondary_offset :: nat
  q_source_length :: nat

type_synonym ('s, 'a) qnx6_result = "('a, qnx6_error) outcome \<times> 's qnx6"

definition superblock_for :: "'s qnx6 \<Rightarrow> superblock_copy \<Rightarrow> (superblock, qnx6_error) outcome" where
  "superblock_for q snapshot =
     (if snapshot = q_active_copy q then Ok (q_superblock q)
      else ok_or (SnapshotUnavailable snapshot)
        (case q_alternate q of
           Some (copy, sb) \<Rightarrow> (if copy = snapshot then Some sb else None)
         | None \<Rightarrow> None))"

definition recovery_snapshot :: "'s qnx6 \<Rightarrow> superblock_copy option" where
  "recovery_snapshot q =
     (case q_alternate q of
        None \<Rightarrow> None
      | Some (copy, alternate) \<Rightarrow>
          (if sb_inode_root alternate \<noteq> sb_inode_root (q_superblock q)
              \<or> sb_long_name_root alternate \<noteq> sb_long_name_root (q_superblock q)
           then Some copy else None))"


section \<open>Pointer trees\<close>

definition validate_block :: "'s qnx6 \<Rightarrow> u32 \<Rightarrow> (unit, qnx6_error) outcome" where
  "validate_block q block =
     (if block \<ge> sb_num_blocks (q_superblock q)
      then Err (InvalidBlockPointer block (sb_num_blocks (q_superblock q))) else Ok ())"

definition physical_block_offset :: "'s qnx6 \<Rightarrow> u32 \<Rightarrow> (nat, qnx6_error) outcome" where
  "physical_block_offset q block =
     ok_or Overflow
       (case checked_mul64 (unat block) (unat (sb_block_size (q_superblock q))) of
          None \<Rightarrow> None
        | Some offset \<Rightarrow> checked_add64 offset QNX6_DATA_AREA_OFFSET)"

definition read_indirect_pointer ::
  "'s source \<Rightarrow> 's qnx6 \<Rightarrow> nat \<Rightarrow> u32 \<Rightarrow> nat \<Rightarrow> ('s, u32) qnx6_result" where
  "read_indirect_pointer src q depth block index =
     and_do (physical_block_offset q block, q) (\<lambda>physical q.
     and_do (ok_or Overflow (checked_mul64 index 4), q) (\<lambda>pointer_offset q.
       if depth < length (q_pointer_cache q)
       then
         let (r, cached, reader) =
               cache_read_block src (q_pointer_cache q ! depth) (q_reader q) physical
         in and_do (map_err Io r, q\<lparr>q_pointer_cache := (q_pointer_cache q)[depth := cached],
                                   q_reader := reader\<rparr>) (\<lambda>bs q.
              (read_u32 (sb_byte_order (q_superblock q)) bs pointer_offset, q))
       else (Err Overflow, q)))"

primrec tree_span :: "nat \<Rightarrow> nat \<Rightarrow> nat \<Rightarrow> (nat, qnx6_error) outcome" where
  "tree_span pointers_per_block 0 span = Ok span"
| "tree_span pointers_per_block (Suc levels) span =
     and_then (ok_or Overflow (checked_mul64 span pointers_per_block)) (\<lambda>span.
       tree_span pointers_per_block levels span)"

text \<open>The loop over the levels and the check of the block it ends at; \<open>n\<close> levels are left.\<close>

primrec walk_tree ::
  "'s source \<Rightarrow> nat \<Rightarrow> nat \<Rightarrow> nat \<Rightarrow> 's qnx6 \<Rightarrow> u32 \<Rightarrow> nat \<Rightarrow> nat \<Rightarrow> ('s, u32 option) qnx6_result" where
  "walk_tree src pointers_per_block 0 depth q block remainder current_span =
     (if block = QNX6_UNUSED_BLOCK then (Ok None, q)
      else and_do (validate_block q block, q) (\<lambda>_ q. (Ok (Some block), q)))"
| "walk_tree src pointers_per_block (Suc n) depth q block remainder current_span =
     (if block = QNX6_UNUSED_BLOCK then (Ok None, q)
      else and_do (validate_block q block, q) (\<lambda>_ q.
        let current_span = current_span div pointers_per_block
        in if pointers_per_block = 0 \<or> current_span = 0 then (Panic, q)
           else and_do (read_indirect_pointer src q depth block (remainder div current_span)) (\<lambda>block q.
             walk_tree src pointers_per_block n (Suc depth) q block (remainder mod current_span)
               current_span)))"

definition map_tree_block ::
  "'s source \<Rightarrow> 's qnx6 \<Rightarrow> tree_descriptor \<Rightarrow> nat \<Rightarrow> ('s, u32 option) qnx6_result" where
  "map_tree_block src q descriptor logical_block =
     (let pointers_per_block = unat (sb_block_size (q_superblock q)) div 4;
          levels = unat (td_levels descriptor)
      in and_do (tree_span pointers_per_block levels 1, q) (\<lambda>span q.
           if span = 0 then (Panic, q)
           else if logical_block div span \<ge> length (td_pointers descriptor)
           then (Err (TreeCapacityExceeded logical_block (td_levels descriptor)), q)
           else walk_tree src pointers_per_block levels 0 q
             (td_pointers descriptor ! (logical_block div span)) (logical_block mod span) span))"

text \<open>One chunk of a read: \<open>n\<close> bytes of a logical block from byte \<open>inside\<close> on.\<close>

definition read_tree_chunk ::
  "'s source \<Rightarrow> 's qnx6 \<Rightarrow> tree_descriptor \<Rightarrow> nat \<Rightarrow> nat \<Rightarrow> nat \<Rightarrow> ('s, bytes) qnx6_result" where
  "read_tree_chunk src q descriptor logical_block inside n =
     and_do (map_tree_block src q descriptor logical_block) (\<lambda>block q.
       case block of
         Some block \<Rightarrow>
           and_do (physical_block_offset q block, q) (\<lambda>offset q.
           and_do (ok_or Overflow (checked_add64 offset inside), q) (\<lambda>physical q.
             let (r, reader) = read_exact_from src (q_reader q) physical n
             in (map_err Io r, q\<lparr>q_reader := reader\<rparr>)))
       | None \<Rightarrow> (Ok (replicate n 0), q))"

function read_tree_loop ::
  "'s source \<Rightarrow> 's qnx6 \<Rightarrow> tree_descriptor \<Rightarrow> nat \<Rightarrow> nat \<Rightarrow> nat \<Rightarrow> bytes \<Rightarrow> ('s, bytes) qnx6_result" where
  "read_tree_loop src q descriptor offset amount filled acc =
     (if filled < amount
      then
        and_do (ok_or Overflow (checked_add64 offset filled), q) (\<lambda>position q.
          let block_size = unat (sb_block_size (q_superblock q))
          in if block_size = 0 then (Panic, q)
             else
               let inside = position mod block_size;
                   chunk = min (block_size - inside) (amount - filled)
               in and_do (read_tree_chunk src q descriptor (position div block_size) inside chunk)
                    (\<lambda>bs q. read_tree_loop src q descriptor offset amount (filled + chunk) (acc @ bs)))
      else (Ok acc, q))"
  by pat_completeness auto
termination
  by (relation "measure (\<lambda>(src, q, descriptor, offset, amount, filled, acc). amount - filled)")
    (auto intro!: diff_less_mono2)

declare read_tree_loop.simps [simp del]

definition read_tree_range ::
  "'s source \<Rightarrow> 's qnx6 \<Rightarrow> tree_descriptor \<Rightarrow> nat \<Rightarrow> nat \<Rightarrow> ('s, bytes) qnx6_result" where
  "read_tree_range src q descriptor offset n =
     (if n = 0 \<or> offset \<ge> unat (td_size descriptor) then (Ok [], q)
      else read_tree_loop src q descriptor offset (min (unat (td_size descriptor) - offset) n) 0 [])"

definition read_tree_exact ::
  "'s source \<Rightarrow> 's qnx6 \<Rightarrow> tree_descriptor \<Rightarrow> nat \<Rightarrow> nat \<Rightarrow> ('s, bytes) qnx6_result" where
  "read_tree_exact src q descriptor offset n =
     and_do (read_tree_range src q descriptor offset n) (\<lambda>bs q.
       if length bs \<noteq> n then (Err (MetadataTooShort offset (saturating_add64 offset n)), q)
       else (Ok bs, q))"


section \<open>Inodes and files\<close>

definition inode_from_snapshot ::
  "'s source \<Rightarrow> 's qnx6 \<Rightarrow> superblock_copy \<Rightarrow> u32 \<Rightarrow> ('s, qnx6_inode) qnx6_result" where
  "inode_from_snapshot src q snapshot number =
     and_do (superblock_for q snapshot, q) (\<lambda>sb q.
       if number = 0 \<or> number > sb_num_inodes sb
       then (Err (InvalidInodeNumber number (sb_num_inodes sb)), q)
       else
         and_do (ok_or Overflow (checked_mul64 (unat number - 1) QNX6_INODE_SIZE), q) (\<lambda>offset q.
         and_do (ok_or Overflow (checked_add64 offset QNX6_INODE_SIZE), q) (\<lambda>stop q.
           let descriptor = rn_tree (sb_inode_root sb)
           in if stop > unat (td_size descriptor) then (Err (MetadataTooShort offset stop), q)
              else
                and_do (read_tree_exact src q descriptor offset QNX6_INODE_SIZE) (\<lambda>bs q.
                  (inode_from_bytes number snapshot bs (sb_byte_order sb), q)))))"

definition q_inode :: "'s source \<Rightarrow> 's qnx6 \<Rightarrow> u32 \<Rightarrow> ('s, qnx6_inode) qnx6_result" where
  "q_inode src q number = inode_from_snapshot src q (q_active_copy q) number"

definition root_inode :: "'s source \<Rightarrow> 's qnx6 \<Rightarrow> ('s, qnx6_inode) qnx6_result" where
  "root_inode src q = q_inode src q QNX6_ROOT_INODE"

definition read_file_range ::
  "'s source \<Rightarrow> 's qnx6 \<Rightarrow> qnx6_inode \<Rightarrow> nat \<Rightarrow> nat \<Rightarrow> ('s, bytes) qnx6_result" where
  "read_file_range src q inode offset n =
     (if is_directory inode then (Err (NotAFile (in_number inode)), q)
      else read_tree_range src q (in_tree inode) offset n)"

text \<open>
  The buffer of \<open>read_file\<close> starts as zeros; what the range read did not fill stays zero.
\<close>

definition read_file :: "'s source \<Rightarrow> 's qnx6 \<Rightarrow> qnx6_inode \<Rightarrow> ('s, bytes) qnx6_result" where
  "read_file src q inode =
     (if is_directory inode then (Err (NotAFile (in_number inode)), q)
      else
        let n = unat (td_size (in_tree inode))
        in and_do (read_file_range src q inode 0 n) (\<lambda>bs q. (Ok (resize_zero bs n), q)))"


section \<open>Mounting\<close>

definition read_superblock :: "'s source \<Rightarrow> 's \<Rightarrow> nat \<Rightarrow> (superblock, qnx6_error) outcome \<times> 's" where
  "read_superblock src s offset =
     (let (r, s) = read_exact_from src s offset QNX6_SUPERBLOCK_SIZE
      in and_do (map_err Io r, s) (\<lambda>bs s. (superblock_from_bytes bs, s)))"

text \<open>\<open>Result::ok\<close>; a panic stays a panic.\<close>

fun ok :: "('a, 'e) outcome \<times> 's \<Rightarrow> ('a option, 'e) outcome \<times> 's" where
  "ok (Ok a, s) = (Ok (Some a), s)"
| "ok (Err e, s) = (Ok None, s)"
| "ok (Panic, s) = (Panic, s)"
| "ok (Diverge, s) = (Diverge, s)"

fun choose_snapshot ::
  "superblock option \<Rightarrow> superblock option \<Rightarrow>
    (superblock \<times> superblock_copy \<times> (superblock_copy \<times> superblock) option, qnx6_error) outcome" where
  "choose_snapshot (Some first) (Some second) =
     (if sb_serial first \<ge> sb_serial second then Ok (first, Primary, Some (Secondary, second))
      else Ok (second, Secondary, Some (Primary, first)))"
| "choose_snapshot None (Some second) = Ok (second, Secondary, None)"
| "choose_snapshot (Some first) None = Ok (first, Primary, None)"
| "choose_snapshot None None = Err NoValidSuperblock"

text \<open>
  The trailing copy is looked for where the primary's geometry puts it. Without a primary the end
  of the source is only a candidate, and the record there must place itself at that offset.
\<close>

definition find_superblocks ::
  "'s source \<Rightarrow> 's \<Rightarrow> (superblock option \<times> superblock option \<times> nat \<times> nat, qnx6_error) outcome \<times> 's" where
  "find_superblocks src s =
     (let (r, s) = do_seek src s (End 0)
      in and_do (map_err Io r, s) (\<lambda>source_length s.
         and_do (ok (read_superblock src s QNX6_BOOT_AREA_SIZE)) (\<lambda>primary s.
         and_do (case primary of
                   Some sb \<Rightarrow> sb_secondary_offset sb
                 | None \<Rightarrow> ok_or NoValidSuperblock (checked_sub source_length QNX6_SUPERBLOCK_AREA_SIZE), s)
           (\<lambda>secondary_offset s.
         and_do (ok (read_superblock src s secondary_offset)) (\<lambda>secondary s.
           let secondary =
                 (case secondary of
                    None \<Rightarrow> None
                  | Some sb \<Rightarrow>
                      (if primary = None \<and> sb_secondary_offset sb \<noteq> Ok secondary_offset
                       then None else Some sb))
           in (Ok (primary, secondary, secondary_offset, source_length), s))))))"

primrec new_caches :: "nat \<Rightarrow> nat \<Rightarrow> (block_cache list, qnx6_error) outcome" where
  "new_caches block_size 0 = Ok []"
| "new_caches block_size (Suc n) =
     and_then (map_err Io (cache_new block_size)) (\<lambda>bc.
     and_then (new_caches block_size n) (\<lambda>bcs. Ok (bc # bcs)))"

definition qnx6_new :: "'s source \<Rightarrow> 's \<Rightarrow> ('s qnx6, qnx6_error) outcome \<times> 's" where
  "qnx6_new src s =
     and_do (find_superblocks src s) (\<lambda>(primary, secondary, secondary_offset, source_length) s.
     and_do (case (primary, secondary) of
               (Some first, Some second) \<Rightarrow>
                 (if immutable_geometry_matches first second then Ok () else Err ConflictingSuperblocks)
             | _ \<Rightarrow> Ok (), s) (\<lambda>_ s.
     and_do (choose_snapshot primary secondary, s) (\<lambda>(sb, active_copy, alternate) s.
     and_do (new_caches (unat (sb_block_size sb)) (unat QNX6_MAX_LEVELS), s) (\<lambda>caches s.
       let filesystem =
             \<lparr>q_reader = s, q_pointer_cache = caches, q_superblock = sb,
              q_active_copy = active_copy, q_alternate = alternate,
              q_primary_valid = (primary \<noteq> None), q_secondary_valid = (secondary \<noteq> None),
              q_secondary_offset = secondary_offset, q_source_length = source_length\<rparr>;
           (root, filesystem) = root_inode src filesystem
       in and_do (root, q_reader filesystem) (\<lambda>inode s.
            if is_directory inode then (Ok filesystem, s) else (Err RootNotDirectory, s))))))"

end
