(* ===== verification/Qnx6_Dir.thy ===== *)
theory Qnx6_Dir
  imports Qnx6_Fs
begin

text \<open>
  QNX6 directories, \<open>fs-qnx6/src/fs/directory.rs\<close> and the record types of \<open>fs.rs\<close>: fixed records
  with inline or long names, lookup, listing, path resolution, and the recovery of deleted names
  from the other snapshot.
\<close>

section \<open>Records\<close>

definition DIRECTORY_ENTRY_SIZE :: nat where "DIRECTORY_ENTRY_SIZE = 0x20"
definition SHORT_NAME_MAX :: u8 where "SHORT_NAME_MAX = 27"
definition LONG_NAME_MARKER :: u8 where "LONG_NAME_MARKER = 0xFF"
definition LONG_NAME_MAX :: u16 where "LONG_NAME_MAX = 510"

text \<open>The borrowed and the owned record name of the source are one type here.\<close>

datatype record_name = Short bytes | Long (long_index: u32) (long_checksum: u32)

record directory_record =
  dr_inode :: u32
  dr_name :: record_name

record tombstone =
  ts_offset :: nat
  ts_name :: record_name

definition tombstone_matches :: "tombstone \<Rightarrow> nat \<Rightarrow> record_name \<Rightarrow> bool" where
  "tombstone_matches ts offset name =
     (if ts_offset ts \<noteq> offset then False
      else case (ts_name ts, name) of
        (Short left, Short right) \<Rightarrow> left = right
      | (Long left_index left_checksum, Long right_index right_checksum) \<Rightarrow>
          left_index = right_index \<and> left_checksum = right_checksum
      | _ \<Rightarrow> False)"

record directory_entry =
  de_inode :: u32
  de_name :: bytes
  de_long_name_index :: "u32 option"
  de_checksum_valid :: "bool option"
  de_stored_checksum :: "u32 option"
  de_record_offset :: nat
  de_snapshot :: superblock_copy
  de_deleted :: bool

definition matches_tombstone :: "directory_entry \<Rightarrow> tombstone \<Rightarrow> bool" where
  "matches_tombstone entry ts =
     (let name = (case de_long_name_index entry of
                    None \<Rightarrow> Short (de_name entry)
                  | Some index \<Rightarrow>
                      Long index (case de_stored_checksum entry of Some c \<Rightarrow> c | None \<Rightarrow> 0))
      in tombstone_matches ts (de_record_offset entry) name)"

definition directory_entry_count :: "qnx6_inode \<Rightarrow> (nat, qnx6_error) outcome" where
  "directory_entry_count inode =
     (let sz = unat (td_size (in_tree inode))
      in if \<not> is_directory inode then Err (NotADirectory (in_number inode))
         else if sz mod DIRECTORY_ENTRY_SIZE \<noteq> 0
         then Err (InvalidDirectoryEntry (sz - sz mod DIRECTORY_ENTRY_SIZE))
         else Ok (sz div DIRECTORY_ENTRY_SIZE))"

definition parse_directory_record ::
  "'s qnx6 \<Rightarrow> bytes \<Rightarrow> nat \<Rightarrow> superblock_copy \<Rightarrow> (directory_record option, qnx6_error) outcome" where
  "parse_directory_record q rec offset snapshot =
     and_then (superblock_for q snapshot) (\<lambda>sb.
     and_then (read_u32 (sb_byte_order sb) rec 0) (\<lambda>inode.
     and_then (index_at rec 4) (\<lambda>sz.
       if sz = 0 then Ok None
       else if inode > sb_num_inodes sb then Err (InvalidDirectoryEntry offset)
       else if sz \<le> SHORT_NAME_MAX
       then and_then (subslice rec 5 (5 + unat sz)) (\<lambda>name.
              Ok (Some \<lparr>dr_inode = inode, dr_name = Short name\<rparr>))
       else if sz = LONG_NAME_MARKER
       then and_then (read_u32 (sb_byte_order sb) rec 8) (\<lambda>index.
            and_then (read_u32 (sb_byte_order sb) rec 12) (\<lambda>stored_checksum.
              Ok (Some \<lparr>dr_inode = inode, dr_name = Long index stored_checksum\<rparr>)))
       else if inode = 0 then Ok None
       else Err (InvalidDirectoryEntry offset))))"


section \<open>Long names\<close>

definition read_metadata_exact ::
  "'s source \<Rightarrow> 's qnx6 \<Rightarrow> tree_descriptor \<Rightarrow> nat \<Rightarrow> nat \<Rightarrow> ('s, bytes) qnx6_result" where
  "read_metadata_exact src q descriptor offset n =
     and_do (ok_or Overflow (checked_add64 offset n), q) (\<lambda>stop q.
       if stop > unat (td_size descriptor) then (Err (MetadataTooShort offset stop), q)
       else read_tree_exact src q descriptor offset n)"

definition long_name_location ::
  "'s source \<Rightarrow> 's qnx6 \<Rightarrow> superblock_copy \<Rightarrow> u32 \<Rightarrow> ('s, tree_descriptor \<times> nat \<times> nat) qnx6_result" where
  "long_name_location src q snapshot index =
     and_do (superblock_for q snapshot, q) (\<lambda>sb q.
     and_do (ok_or Overflow (checked_mul64 (unat index) (unat (sb_block_size sb))), q) (\<lambda>offset q.
       let descriptor = rn_tree (sb_long_name_root sb)
       in and_do (read_metadata_exact src q descriptor offset 2) (\<lambda>length_bytes q.
          and_do (read_u16 (sb_byte_order sb) length_bytes 0, q) (\<lambda>len q.
            if len > LONG_NAME_MAX \<or> unat len + 2 > unat (sb_block_size sb)
            then (Err (InvalidLongName index len), q)
            else if offset + 2 \<ge> 2 ^ 64 then (Panic, q)
            else (Ok (descriptor, offset + 2, unat len), q)))))"

definition read_long_name ::
  "'s source \<Rightarrow> 's qnx6 \<Rightarrow> superblock_copy \<Rightarrow> u32 \<Rightarrow> ('s, bytes) qnx6_result" where
  "read_long_name src q snapshot index =
     and_do (long_name_location src q snapshot index) (\<lambda>(descriptor, offset, len) q.
       read_metadata_exact src q descriptor offset len)"

definition directory_name_matches ::
  "'s source \<Rightarrow> 's qnx6 \<Rightarrow> superblock_copy \<Rightarrow> record_name \<Rightarrow> bytes \<Rightarrow> ('s, bool) qnx6_result" where
  "directory_name_matches src q snapshot record_name name =
     (case record_name of
        Short candidate \<Rightarrow> (Ok (candidate = name), q)
      | Long index _ \<Rightarrow>
          and_do (long_name_location src q snapshot index) (\<lambda>(long_name_tree, name_offset, len) q.
            if len > 510 then (Panic, q)
            else and_do (read_metadata_exact src q long_name_tree name_offset len) (\<lambda>candidate q.
              (Ok (candidate = name), q))))"

definition directory_entry_from_record ::
  "'s source \<Rightarrow> 's qnx6 \<Rightarrow> directory_record \<Rightarrow> nat \<Rightarrow> superblock_copy \<Rightarrow> bool \<Rightarrow>
    ('s, directory_entry) qnx6_result" where
  "directory_entry_from_record src q parsed offset snapshot deleted =
     (case dr_name parsed of
        Short name \<Rightarrow>
          (Ok \<lparr>de_inode = dr_inode parsed, de_name = name, de_long_name_index = None,
               de_checksum_valid = None, de_stored_checksum = None, de_record_offset = offset,
               de_snapshot = snapshot, de_deleted = deleted\<rparr>, q)
      | Long index stored_checksum \<Rightarrow>
          and_do (read_long_name src q snapshot index) (\<lambda>name q.
            (Ok \<lparr>de_inode = dr_inode parsed, de_name = name, de_long_name_index = Some index,
                 de_checksum_valid = Some (long_name_checksum name = stored_checksum),
                 de_stored_checksum = Some stored_checksum, de_record_offset = offset,
                 de_snapshot = snapshot, de_deleted = deleted\<rparr>, q)))"


section \<open>Lookup\<close>

text \<open>
  The part the three loops over a directory share: read the record at \<open>index\<close> and parse it. The
  result carries the record's offset.
\<close>

definition next_record ::
  "'s source \<Rightarrow> 's qnx6 \<Rightarrow> qnx6_inode \<Rightarrow> nat \<Rightarrow> ('s, nat \<times> directory_record option) qnx6_result" where
  "next_record src q directory index =
     and_do (ok_or Overflow (checked_mul64 index DIRECTORY_ENTRY_SIZE), q) (\<lambda>offset q.
     and_do (read_tree_exact src q (in_tree directory) offset DIRECTORY_ENTRY_SIZE) (\<lambda>rec q.
     and_do (parse_directory_record q rec offset (in_snapshot directory), q) (\<lambda>parsed q.
       (Ok (offset, parsed), q))))"

text \<open>In these loops \<open>n\<close> records are left, the next at \<open>index\<close>.\<close>

primrec lookup_loop ::
  "'s source \<Rightarrow> nat \<Rightarrow> nat \<Rightarrow> 's qnx6 \<Rightarrow> qnx6_inode \<Rightarrow> bytes \<Rightarrow> bool \<Rightarrow> tombstone list \<Rightarrow>
    ('s, qnx6_inode option \<times> tombstone list) qnx6_result" where
  "lookup_loop src 0 index q directory name collect_tombstones tombstones = (Ok (None, tombstones), q)"
| "lookup_loop src (Suc n) index q directory name collect_tombstones tombstones =
     and_do (next_record src q directory index) (\<lambda>(offset, parsed) q.
       case parsed of
         None \<Rightarrow> lookup_loop src n (Suc index) q directory name collect_tombstones tombstones
       | Some parsed \<Rightarrow>
           (if dr_inode parsed = 0
            then lookup_loop src n (Suc index) q directory name collect_tombstones
                   (if collect_tombstones
                    then tombstones @ [\<lparr>ts_offset = offset, ts_name = dr_name parsed\<rparr>] else tombstones)
            else
              and_do (directory_name_matches src q (in_snapshot directory) (dr_name parsed) name) (\<lambda>found q.
                if found
                then and_do (inode_from_snapshot src q (in_snapshot directory) (dr_inode parsed)) (\<lambda>inode q.
                       (Ok (Some inode, tombstones), q))
                else lookup_loop src n (Suc index) q directory name collect_tombstones tombstones)))"

definition lookup_in_snapshot ::
  "'s source \<Rightarrow> 's qnx6 \<Rightarrow> qnx6_inode \<Rightarrow> bytes \<Rightarrow> bool \<Rightarrow>
    ('s, qnx6_inode option \<times> tombstone list) qnx6_result" where
  "lookup_in_snapshot src q directory name collect_tombstones =
     and_do (directory_entry_count directory, q) (\<lambda>count q.
       lookup_loop src count 0 q directory name collect_tombstones [])"

primrec recovered_loop ::
  "'s source \<Rightarrow> nat \<Rightarrow> nat \<Rightarrow> 's qnx6 \<Rightarrow> qnx6_inode \<Rightarrow> bytes \<Rightarrow> tombstone list \<Rightarrow>
    ('s, qnx6_inode option) qnx6_result" where
  "recovered_loop src 0 index q directory name tombstones = (Ok None, q)"
| "recovered_loop src (Suc n) index q directory name tombstones =
     and_do (next_record src q directory index) (\<lambda>(offset, parsed) q.
       case parsed of
         None \<Rightarrow> recovered_loop src n (Suc index) q directory name tombstones
       | Some parsed \<Rightarrow>
           (if dr_inode parsed = 0
               \<or> \<not> list_ex (\<lambda>ts. tombstone_matches ts offset (dr_name parsed)) tombstones
            then recovered_loop src n (Suc index) q directory name tombstones
            else
              and_do (directory_name_matches src q (in_snapshot directory) (dr_name parsed) name) (\<lambda>found q.
                if found
                then and_do (inode_from_snapshot src q (in_snapshot directory) (dr_inode parsed)) (\<lambda>inode q.
                       (Ok (Some inode), q))
                else recovered_loop src n (Suc index) q directory name tombstones)))"

definition lookup_recovered ::
  "'s source \<Rightarrow> 's qnx6 \<Rightarrow> qnx6_inode \<Rightarrow> bytes \<Rightarrow> tombstone list \<Rightarrow> ('s, qnx6_inode option) qnx6_result" where
  "lookup_recovered src q directory name tombstones =
     and_do (directory_entry_count directory, q) (\<lambda>count q.
       recovered_loop src count 0 q directory name tombstones)"

definition alternate_directory ::
  "'s source \<Rightarrow> 's qnx6 \<Rightarrow> qnx6_inode \<Rightarrow> ('s, qnx6_inode option) qnx6_result" where
  "alternate_directory src q directory =
     (if in_snapshot directory \<noteq> q_active_copy q then (Ok None, q)
      else case recovery_snapshot q of
        None \<Rightarrow> (Ok None, q)
      | Some snapshot \<Rightarrow>
          and_do (ok (inode_from_snapshot src q snapshot (in_number directory))) (\<lambda>alternate q.
            case alternate of
              None \<Rightarrow> (Ok None, q)
            | Some alternate \<Rightarrow>
                (Ok (if is_directory alternate
                        \<and> in_created_time alternate = in_created_time directory
                     then Some alternate else None), q)))"

definition q_lookup ::
  "'s source \<Rightarrow> 's qnx6 \<Rightarrow> qnx6_inode \<Rightarrow> bytes \<Rightarrow> ('s, qnx6_inode) qnx6_result" where
  "q_lookup src q directory name =
     (let recover = in_snapshot directory = q_active_copy q \<and> recovery_snapshot q \<noteq> None
      in and_do (lookup_in_snapshot src q directory name recover) (\<lambda>(found, tombstones) q.
           case found of
             Some inode \<Rightarrow> (Ok inode, q)
           | None \<Rightarrow>
               (if tombstones = [] then (Err NotFound, q)
                else
                  and_do (alternate_directory src q directory) (\<lambda>alternate q.
                    case alternate of
                      None \<Rightarrow> (Err NotFound, q)
                    | Some alternate \<Rightarrow>
                        and_do (ok (lookup_recovered src q alternate name tombstones)) (\<lambda>r q.
                          case r of
                            Some (Some inode) \<Rightarrow> (Ok inode, q)
                          | _ \<Rightarrow> (Err NotFound, q))))))"


section \<open>Listing\<close>

primrec listing_loop ::
  "'s source \<Rightarrow> nat \<Rightarrow> nat \<Rightarrow> 's qnx6 \<Rightarrow> qnx6_inode \<Rightarrow> bool \<Rightarrow> bool \<Rightarrow> directory_entry list \<Rightarrow>
    tombstone list \<Rightarrow> ('s, directory_entry list \<times> tombstone list) qnx6_result" where
  "listing_loop src 0 index q inode collect_tombstones deleted entries tombstones =
     (Ok (entries, tombstones), q)"
| "listing_loop src (Suc n) index q inode collect_tombstones deleted entries tombstones =
     and_do (next_record src q inode index) (\<lambda>(offset, parsed) q.
       case parsed of
         None \<Rightarrow> listing_loop src n (Suc index) q inode collect_tombstones deleted entries tombstones
       | Some parsed \<Rightarrow>
           (if dr_inode parsed = 0
            then listing_loop src n (Suc index) q inode collect_tombstones deleted entries
                   (if collect_tombstones
                    then tombstones @ [\<lparr>ts_offset = offset, ts_name = dr_name parsed\<rparr>] else tombstones)
            else
              and_do (directory_entry_from_record src q parsed offset (in_snapshot inode) deleted) (\<lambda>entry q.
                listing_loop src n (Suc index) q inode collect_tombstones deleted (entries @ [entry])
                  tombstones)))"

definition read_directory_snapshot ::
  "'s source \<Rightarrow> 's qnx6 \<Rightarrow> qnx6_inode \<Rightarrow> bool \<Rightarrow> bool \<Rightarrow>
    ('s, directory_entry list \<times> tombstone list) qnx6_result" where
  "read_directory_snapshot src q inode collect_tombstones deleted =
     and_do (directory_entry_count inode, q) (\<lambda>count q.
       listing_loop src count 0 q inode collect_tombstones deleted [] [])"

fun add_recovered ::
  "tombstone list \<Rightarrow> directory_entry list \<Rightarrow> directory_entry list \<Rightarrow> directory_entry list" where
  "add_recovered tombstones entries [] = entries"
| "add_recovered tombstones entries (entry # recovered) =
     add_recovered tombstones
       (if \<not> list_ex (matches_tombstone entry) tombstones
           \<or> list_ex (\<lambda>active. de_name active = de_name entry) entries
        then entries else entries @ [entry]) recovered"

definition read_directory ::
  "'s source \<Rightarrow> 's qnx6 \<Rightarrow> qnx6_inode \<Rightarrow> ('s, directory_entry list) qnx6_result" where
  "read_directory src q inode =
     (let deleted = in_snapshot inode \<noteq> q_active_copy q;
          recover = \<not> deleted \<and> recovery_snapshot q \<noteq> None
      in and_do (read_directory_snapshot src q inode recover deleted) (\<lambda>(entries, tombstones) q.
           if tombstones = [] then (Ok entries, q)
           else
             and_do (alternate_directory src q inode) (\<lambda>alternate q.
               case alternate of
                 None \<Rightarrow> (Ok entries, q)
               | Some alternate \<Rightarrow>
                   and_do (ok (read_directory_snapshot src q alternate False True)) (\<lambda>recovered q.
                     case recovered of
                       None \<Rightarrow> (Ok entries, q)
                     | Some (recovered, _) \<Rightarrow> (Ok (add_recovered tombstones entries recovered), q)))))"

definition directory_entry_inode ::
  "'s source \<Rightarrow> 's qnx6 \<Rightarrow> directory_entry \<Rightarrow> ('s, qnx6_inode) qnx6_result" where
  "directory_entry_inode src q entry = inode_from_snapshot src q (de_snapshot entry) (de_inode entry)"


section \<open>Paths\<close>

text \<open>\<open>slice::split\<close>: the parts between separators, one more than there are separators.\<close>

fun split_on :: "'a \<Rightarrow> 'a list \<Rightarrow> 'a list list" where
  "split_on sep [] = [[]]"
| "split_on sep (x # xs) =
     (if x = sep then [] # split_on sep xs
      else case split_on sep xs of part # parts \<Rightarrow> (x # part) # parts | [] \<Rightarrow> [[x]])"

definition path_components :: "bytes \<Rightarrow> bytes list" where
  "path_components path = filter (\<lambda>component. component \<noteq> [] \<and> component \<noteq> [0x2E]) (split_on 0x2F path)"

primrec resolve_components ::
  "'s source \<Rightarrow> bytes list \<Rightarrow> 's qnx6 \<Rightarrow> qnx6_inode \<Rightarrow> ('s, qnx6_inode) qnx6_result" where
  "resolve_components src [] q current = (Ok current, q)"
| "resolve_components src (component # components) q current =
     and_do (q_lookup src q current component) (\<lambda>current q.
       resolve_components src components q current)"

definition resolve_path :: "'s source \<Rightarrow> 's qnx6 \<Rightarrow> bytes \<Rightarrow> ('s, qnx6_inode) qnx6_result" where
  "resolve_path src q path =
     and_do (root_inode src q) (\<lambda>current q. resolve_components src (path_components path) q current)"

end
