(* ===== verification/Qnx6_Volume.thy ===== *)
theory Qnx6_Volume
  imports Qnx6_Dir
begin

text \<open>
  What a QNX6 volume means, as pure functions of its bytes, and that the driver implements them:
  in every reachable state, whatever its caches hold and wherever its reader stands, an operation
  answers what the function says. The functions have neither caches nor overflow checks; that the
  checks never fire follows from the bounds of an accepted superblock.
\<close>

section \<open>Volumes\<close>

record volume =
  vo_bytes :: bytes
  vo_superblock :: superblock
  vo_active :: superblock_copy
  vo_alternate :: "(superblock_copy \<times> superblock) option"
  vo_secondary_offset :: nat

definition volume_wf :: "volume \<Rightarrow> bool" where
  "volume_wf V \<longleftrightarrow> length (vo_bytes V) < 2 ^ 63 \<and> superblock_wf (vo_superblock V)
     \<and> (\<forall>copy sb. vo_alternate V = Some (copy, sb) \<longrightarrow> copy \<noteq> vo_active V \<and> superblock_wf sb)"

text \<open>A driver state that serves the volume: its caches hold true copies of blocks.\<close>

definition mounted :: "('s \<Rightarrow> bool) \<Rightarrow> ('s \<Rightarrow> bytes) \<Rightarrow> volume \<Rightarrow> 's qnx6 \<Rightarrow> bool" where
  "mounted lawful content V q \<longleftrightarrow>
     lawful (q_reader q) \<and> content (q_reader q) = vo_bytes V
     \<and> length (q_pointer_cache q) = unat QNX6_MAX_LEVELS
     \<and> (\<forall>bc \<in> set (q_pointer_cache q). cache_inv (vo_bytes V) bc
          \<and> bc_block_size bc = unat (sb_block_size (vo_superblock V)))
     \<and> q_superblock q = vo_superblock V \<and> q_active_copy q = vo_active V
     \<and> q_alternate q = vo_alternate V \<and> q_secondary_offset q = vo_secondary_offset V"

definition vo_block_size :: "volume \<Rightarrow> nat" where
  "vo_block_size V = unat (sb_block_size (vo_superblock V))"

definition vo_block_offset :: "volume \<Rightarrow> u32 \<Rightarrow> nat" where
  "vo_block_offset V b = 0x3000 + unat b * vo_block_size V"


section \<open>Pointer trees\<close>

definition v_pointer :: "volume \<Rightarrow> u32 \<Rightarrow> nat \<Rightarrow> (u32, qnx6_error) outcome" where
  "v_pointer V b i =
     (if vo_block_offset V b + vo_block_size V \<le> length (vo_bytes V)
      then Ok (word_from (sb_byte_order (vo_superblock V)) (slice (vo_bytes V) (vo_block_offset V b + 4 * i) 4))
      else Err (Io UnexpectedEof))"

primrec v_walk :: "volume \<Rightarrow> nat \<Rightarrow> u32 \<Rightarrow> nat \<Rightarrow> (u32 option, qnx6_error) outcome" where
  "v_walk V 0 b r =
     (if b = QNX6_UNUSED_BLOCK then Ok None
      else if b < sb_num_blocks (vo_superblock V) then Ok (Some b)
      else Err (InvalidBlockPointer b (sb_num_blocks (vo_superblock V))))"
| "v_walk V (Suc n) b r =
     (if b = QNX6_UNUSED_BLOCK then Ok None
      else if b < sb_num_blocks (vo_superblock V)
      then and_then (v_pointer V b (r div (vo_block_size V div 4) ^ n)) (\<lambda>b.
             v_walk V n b (r mod (vo_block_size V div 4) ^ n))
      else Err (InvalidBlockPointer b (sb_num_blocks (vo_superblock V))))"

definition v_block :: "volume \<Rightarrow> tree_descriptor \<Rightarrow> nat \<Rightarrow> (u32 option, qnx6_error) outcome" where
  "v_block V d lb =
     (let span = (vo_block_size V div 4) ^ unat (td_levels d)
      in if lb div span \<ge> 16 then Err (TreeCapacityExceeded lb (td_levels d))
         else v_walk V (unat (td_levels d)) (td_pointers d ! (lb div span)) (lb mod span))"

text \<open>The byte at position \<open>p\<close> of a tree: zero in a hole.\<close>

definition v_byte :: "volume \<Rightarrow> tree_descriptor \<Rightarrow> nat \<Rightarrow> (u8, qnx6_error) outcome" where
  "v_byte V d p =
     and_then (v_block V d (p div vo_block_size V)) (\<lambda>block.
       case block of
         None \<Rightarrow> Ok 0
       | Some b \<Rightarrow>
           (let a = vo_block_offset V b + p mod vo_block_size V
            in if a < length (vo_bytes V) then Ok (vo_bytes V ! a) else Err (Io UnexpectedEof)))"

definition v_range :: "volume \<Rightarrow> tree_descriptor \<Rightarrow> nat \<Rightarrow> nat \<Rightarrow> (bytes, qnx6_error) outcome" where
  "v_range V d off n = collect (v_byte V d) [off ..< off + min (unat (td_size d) - off) n]"

definition v_exact :: "volume \<Rightarrow> tree_descriptor \<Rightarrow> nat \<Rightarrow> nat \<Rightarrow> (bytes, qnx6_error) outcome" where
  "v_exact V d off n =
     and_then (v_range V d off n) (\<lambda>bs.
       if length bs \<noteq> n then Err (MetadataTooShort off (saturating_add64 off n)) else Ok bs)"


section \<open>Bounds\<close>

lemma block_size_bounds:
  assumes "volume_wf V"
  shows "512 \<le> vo_block_size V" "vo_block_size V \<le> 4096" "128 \<le> vo_block_size V div 4"
    "vo_block_size V div 4 \<le> 1024" "vo_block_size V = 4 * (vo_block_size V div 4)"
  using assms by (auto simp: volume_wf_def superblock_wf_def valid_block_size_def vo_block_size_def)

lemma block_offset_bound:
  assumes "volume_wf V"
  shows "vo_block_offset V b + vo_block_size V < 2 ^ 46"
proof -
  have "unat b < 2 ^ 32" using unat_less_power [of b] by simp
  then have "unat b * vo_block_size V \<le> 2 ^ 32 * 4096"
    using block_size_bounds(2) [OF assms] by (intro mult_le_mono) simp_all
  then show ?thesis using block_size_bounds(2) [OF assms] by (simp add: vo_block_offset_def)
qed

lemma span_bound:
  assumes "volume_wf V" and "n \<le> 5"
  shows "(vo_block_size V div 4) ^ n \<le> 2 ^ 50" and "0 < (vo_block_size V div 4) ^ n"
proof -
  have "(vo_block_size V div 4) ^ n \<le> (1024 :: nat) ^ n"
    using block_size_bounds(4) [OF assms(1)] by (rule power_mono) simp
  also have "\<dots> \<le> 1024 ^ 5" using assms(2) by (rule power_increasing) simp
  finally show "(vo_block_size V div 4) ^ n \<le> 2 ^ 50" by simp
  show "0 < (vo_block_size V div 4) ^ n" using block_size_bounds(3) [OF assms(1)] by simp
qed

lemma levels_bound: "tree_wf d \<Longrightarrow> unat (td_levels d) \<le> 5"
  by (auto simp: tree_wf_def QNX6_MAX_LEVELS_def word_le_nat_alt)


section \<open>Bytes of one block\<close>

lemma v_byte_in_block:
  assumes "j + inside < vo_block_size V"
  shows "v_byte V d (lb * vo_block_size V + inside + j) =
    and_then (v_block V d lb) (\<lambda>block. case block of None \<Rightarrow> Ok 0
      | Some b \<Rightarrow> if vo_block_offset V b + inside + j < length (vo_bytes V)
          then Ok (vo_bytes V ! (vo_block_offset V b + inside + j)) else Err (Io UnexpectedEof))"
proof -
  have "(lb * vo_block_size V + inside + j) div vo_block_size V = lb"
    using assms by (intro div_nat_eqI) (simp_all add: algebra_simps)
  moreover have "(lb * vo_block_size V + inside + j) mod vo_block_size V = inside + j"
    using assms by (simp add: add.assoc)
  ultimately show ?thesis by (simp add: v_byte_def Let_def add.assoc cong: if_cong option.case_cong)
qed

lemma v_chunk:
  assumes "n + inside \<le> vo_block_size V" and "0 < n"
  shows "collect (v_byte V d) [lb * vo_block_size V + inside ..< lb * vo_block_size V + inside + n] =
    and_then (v_block V d lb) (\<lambda>block. case block of None \<Rightarrow> Ok (replicate n 0)
      | Some b \<Rightarrow> if vo_block_offset V b + inside + n \<le> length (vo_bytes V)
          then Ok (slice (vo_bytes V) (vo_block_offset V b + inside) n) else Err (Io UnexpectedEof))"
    (is "collect _ [?p ..< _] = ?rhs")
proof -
  let ?f = "\<lambda>j. and_then (v_block V d lb) (\<lambda>block. case block of None \<Rightarrow> Ok 0
      | Some b \<Rightarrow> if vo_block_offset V b + inside + j < length (vo_bytes V)
          then Ok (vo_bytes V ! (vo_block_offset V b + inside + j)) else Err (Io UnexpectedEof))"
  have "collect (v_byte V d) [?p ..< ?p + n] = collect ?f [0 ..< n]"
    unfolding upt_shift [of ?p] collect_map
    by (rule collect_cong) (rule v_byte_in_block, use assms(1) in auto)
  also have "\<dots> = ?rhs"
  proof (cases "v_block V d lb")
    case (Ok block)
    show ?thesis
    proof (cases block)
      case None
      then show ?thesis using Ok by (simp add: collect_Ok map_replicate_const)
    next
      case (Some b)
      let ?a = "vo_block_offset V b + inside"
      have "collect ?f [0 ..< n] = collect (\<lambda>i. if i < length (vo_bytes V) then Ok (vo_bytes V ! i)
          else Err (Io UnexpectedEof)) [?a ..< ?a + n]"
        using Ok Some by (simp only: upt_shift [of ?a] collect_map) simp
      then show ?thesis using Ok Some assms(2) by (simp add: collect_slice)
    qed
  qed (use assms(2) in \<open>simp_all add: upt_rec [of 0 n]\<close>)
  finally show ?thesis .
qed


section \<open>The driver's trees refine the volume's\<close>

lemma physical_block_offset_eq:
  assumes "volume_wf V" and "q_superblock q = vo_superblock V"
  shows "physical_block_offset q b = Ok (vo_block_offset V b)"
proof -
  have "vo_block_offset V b < 2 ^ 46" using block_offset_bound [OF assms(1), of b] by simp
  then have "0x3000 + unat b * unat (sb_block_size (vo_superblock V)) < 2 ^ 46"
    by (simp add: vo_block_offset_def vo_block_size_def)
  then show ?thesis
    using assms(2) by (simp add: physical_block_offset_def checked_mul64_def checked_add64_def
        QNX6_DATA_AREA_OFFSET_def QNX6_BOOT_AREA_SIZE_def QNX6_SUPERBLOCK_AREA_SIZE_def
        vo_block_offset_def vo_block_size_def)
qed

lemma tree_span_eq:
  assumes "volume_wf V" and "n + k \<le> 5"
  shows "tree_span (vo_block_size V div 4) n ((vo_block_size V div 4) ^ k)
    = Ok ((vo_block_size V div 4) ^ (n + k))"
  using assms(2)
proof (induction n arbitrary: k)
  case (Suc n)
  have "(vo_block_size V div 4) ^ k * (vo_block_size V div 4) < 2 ^ 64"
    using span_bound(1) [OF assms(1), of "Suc k"] Suc.prems by (simp add: mult.commute)
  then have c: "checked_mul64 ((vo_block_size V div 4) ^ k) (vo_block_size V div 4)
      = Some (vo_block_size V div 4 * (vo_block_size V div 4) ^ k)"
    by (simp only: checked_mul64_small) (simp add: mult.commute)
  show ?case using Suc.IH [of "Suc k"] Suc.prems by (simp add: c)
qed simp

context byte_reader
begin

lemma read_indirect_pointer_yields:
  assumes wf: "volume_wf V" and "depth < 5" and i: "i < vo_block_size V div 4"
  shows "yields (mounted lawful content V) (\<lambda>q. read_indirect_pointer src q depth b i) (v_pointer V b i)"
proof (rule yieldsI)
  fix q
  assume m: "mounted lawful content V q"
  let ?bc = "q_pointer_cache q ! depth" and ?p = "vo_block_offset V b"
  have d: "depth < length (q_pointer_cache q)" using m assms(2) by (simp add: mounted_def QNX6_MAX_LEVELS_def)
  then have bc: "cache_inv (content (q_reader q)) ?bc" "bc_block_size ?bc = vo_block_size V"
    using m by (auto simp: mounted_def vo_block_size_def)
  have p: "?p < 2 ^ 63" using block_offset_bound [OF wf, of b] by simp
  have l: "lawful (q_reader q)" "content (q_reader q) = vo_bytes V" using m by (simp_all add: mounted_def)
  from cache_read_block_transparent [OF bc(1) l(1) p] obtain bc' s' where
    r: "cache_read_block src ?bc (q_reader q) ?p = (block_at (vo_bytes V) (vo_block_size V) ?p, bc', s')"
      "cache_inv (vo_bytes V) bc'" "bc_block_size bc' = vo_block_size V" "lawful s'" "content s' = vo_bytes V"
    unfolding bc(2) l(2) by blast
  let ?q = "q\<lparr>q_pointer_cache := (q_pointer_cache q)[depth := bc'], q_reader := s'\<rparr>"
  have m': "mounted lawful content V ?q"
    using m r d by (auto simp: mounted_def vo_block_size_def dest!: set_update_subset_insert [THEN subsetD])
  have phys: "physical_block_offset q b = Ok ?p"
    using m by (intro physical_block_offset_eq [OF wf]) (simp add: mounted_def)
  have i4: "i * 4 + 4 \<le> vo_block_size V" using i block_size_bounds(5) [OF wf] by linarith
  then have c: "checked_mul64 i 4 = Some (i * 4)"
    using block_size_bounds(2) [OF wf] by (intro checked_mul64_small) simp
  have order: "sb_byte_order (q_superblock ?q) = sb_byte_order (vo_superblock V)"
    using m by (simp add: mounted_def)
  have "read_indirect_pointer src q depth b i = (v_pointer V b i, ?q)"
    using d i4 order by (simp add: read_indirect_pointer_def phys c r(1) block_at_def v_pointer_def
        read_u32_ok slice_slice mult.commute)
  with m' show "\<exists>q'. read_indirect_pointer src q depth b i = (v_pointer V b i, q') \<and> mounted lawful content V q'"
    by blast
qed

lemma walk_tree_yields:
  assumes wf: "volume_wf V" and "n + depth \<le> 5" and "r < (vo_block_size V div 4) ^ n"
  shows "yields (mounted lawful content V)
    (\<lambda>q. walk_tree src (vo_block_size V div 4) n depth q b r ((vo_block_size V div 4) ^ n)) (v_walk V n b r)"
  using assms(2,3)
proof (induction n arbitrary: depth b r)
  case 0
  show ?case
    by (rule yieldsI) (auto simp: validate_block_def mounted_def not_le)
next
  case (Suc n)
  let ?k = "vo_block_size V div 4"
  have k: "0 < ?k" "0 < ?k ^ n" using block_size_bounds(3) [OF wf] by simp_all
  have i: "r div ?k ^ n < ?k" using Suc.prems(2) by (simp add: less_mult_imp_div_less mult.commute)
  have step: "yields (mounted lawful content V)
      (\<lambda>q. and_do (read_indirect_pointer src q depth b (r div ?k ^ n))
        (\<lambda>b q. walk_tree src ?k n (Suc depth) q b (r mod ?k ^ n) (?k ^ n)))
      (and_then (v_pointer V b (r div ?k ^ n)) (\<lambda>b. v_walk V n b (r mod ?k ^ n)))"
  proof (rule yields_and_do)
    show "yields (mounted lawful content V) (\<lambda>q. read_indirect_pointer src q depth b (r div ?k ^ n))
        (v_pointer V b (r div ?k ^ n))"
      using Suc.prems(1) i by (intro read_indirect_pointer_yields [OF wf]) simp_all
    fix b
    show "yields (mounted lawful content V)
        (\<lambda>q. walk_tree src ?k n (Suc depth) q b (r mod ?k ^ n) (?k ^ n)) (v_walk V n b (r mod ?k ^ n))"
      using Suc.prems(1) k by (intro Suc.IH) simp_all
  qed
  show ?case
  proof (rule yieldsI)
    fix q
    assume m: "mounted lawful content V q"
    then have "walk_tree src ?k (Suc n) depth q b r (?k ^ Suc n)
        = (if b = QNX6_UNUSED_BLOCK then (Ok None, q)
           else if b < sb_num_blocks (vo_superblock V)
           then and_do (read_indirect_pointer src q depth b (r div ?k ^ n))
             (\<lambda>b q. walk_tree src ?k n (Suc depth) q b (r mod ?k ^ n) (?k ^ n))
           else (Err (InvalidBlockPointer b (sb_num_blocks (vo_superblock V))), q))"
      using k by (cases "b < sb_num_blocks (vo_superblock V)")
        (auto simp: validate_block_def mounted_def Let_def not_less)
    with m yieldsD [OF step m] show "\<exists>q'. walk_tree src ?k (Suc n) depth q b r (?k ^ Suc n)
        = (v_walk V (Suc n) b r, q') \<and> mounted lawful content V q'"
      by auto
  qed
qed

lemma map_tree_block_yields:
  assumes wf: "volume_wf V" and d: "tree_wf d"
  shows "yields (mounted lawful content V) (\<lambda>q. map_tree_block src q d lb) (v_block V d lb)"
proof -
  let ?k = "vo_block_size V div 4" and ?n = "unat (td_levels d)"
  have n: "?n \<le> 5" using levels_bound [OF d] .
  have span: "tree_span ?k ?n (Suc 0) = Ok (?k ^ ?n)" using tree_span_eq [OF wf, of ?n 0] n by simp
  have pos: "0 < ?k ^ ?n" "?k \<noteq> 0" using span_bound(2) [OF wf n] block_size_bounds(3) [OF wf] by auto
  have walk: "yields (mounted lawful content V)
      (\<lambda>q. walk_tree src ?k ?n 0 q (td_pointers d ! (lb div ?k ^ ?n)) (lb mod ?k ^ ?n) (?k ^ ?n))
      (v_walk V ?n (td_pointers d ! (lb div ?k ^ ?n)) (lb mod ?k ^ ?n))"
    using n pos by (intro walk_tree_yields [OF wf]) simp_all
  show ?thesis
  proof (rule yields_cong)
    fix q
    assume "mounted lawful content V q"
    then have "unat (sb_block_size (q_superblock q)) = vo_block_size V"
      by (simp add: mounted_def vo_block_size_def)
    then show "map_tree_block src q d lb = (if lb div ?k ^ ?n \<ge> 16 then (Err (TreeCapacityExceeded lb (td_levels d)), q)
        else walk_tree src ?k ?n 0 q (td_pointers d ! (lb div ?k ^ ?n)) (lb mod ?k ^ ?n) (?k ^ ?n))"
      using pos d by (simp add: map_tree_block_def Let_def span tree_wf_def)
  qed (use walk in \<open>auto simp: v_block_def Let_def intro!: yields_intros\<close>)
qed

lemma read_tree_chunk_yields:
  assumes wf: "volume_wf V" and d: "tree_wf d" and n: "n + inside \<le> vo_block_size V" "0 < n"
  shows "yields (mounted lawful content V) (\<lambda>q. read_tree_chunk src q d lb inside n)
    (collect (v_byte V d) [lb * vo_block_size V + inside ..< lb * vo_block_size V + inside + n])"
  unfolding v_chunk [OF n] read_tree_chunk_def
proof (rule yields_and_do [OF map_tree_block_yields [OF wf d]])
  fix block
  have "yields (mounted lawful content V)
      (\<lambda>q. and_do (physical_block_offset q b, q) (\<lambda>offset q.
        and_do (ok_or Overflow (checked_add64 offset inside), q) (\<lambda>physical q.
          let (r, reader) = read_exact_from src (q_reader q) physical n
          in (map_err Io r, q\<lparr>q_reader := reader\<rparr>))))
      (if vo_block_offset V b + inside + n \<le> length (vo_bytes V)
       then Ok (slice (vo_bytes V) (vo_block_offset V b + inside) n) else Err (Io UnexpectedEof))" for b
  proof (rule yieldsI)
    fix q
    assume m: "mounted lawful content V q"
    let ?p = "vo_block_offset V b + inside"
    have "?p < 2 ^ 46" using block_offset_bound [OF wf, of b] n by linarith
    then have p: "?p < 2 ^ 63" "checked_add64 (vo_block_offset V b) inside = Some ?p" by simp_all
    have phys: "physical_block_offset q b = Ok (vo_block_offset V b)"
      using m by (intro physical_block_offset_eq [OF wf]) (simp add: mounted_def)
    have l: "lawful (q_reader q)" "content (q_reader q) = vo_bytes V" using m by (simp_all add: mounted_def)
    have "\<exists>s'. read_exact_from src (q_reader q) ?p n = (block_at (vo_bytes V) n ?p, s')
        \<and> lawful s' \<and> content s' = vo_bytes V"
      using read_exact_from_ok [OF l(1) p(1), of n] read_exact_from_eof [OF l(1) p(1) n(2)]
      unfolding l(2) by (cases "?p + n \<le> length (vo_bytes V)") (auto simp: block_at_def)
    then obtain s' where r: "read_exact_from src (q_reader q) ?p n = (block_at (vo_bytes V) n ?p, s')"
      "lawful s'" "content s' = vo_bytes V" by blast
    have "mounted lawful content V (q\<lparr>q_reader := s'\<rparr>)" using m r by (simp add: mounted_def)
    then show "\<exists>q'. and_do (physical_block_offset q b, q) (\<lambda>offset q.
        and_do (ok_or Overflow (checked_add64 offset inside), q) (\<lambda>physical q.
          let (r, reader) = read_exact_from src (q_reader q) physical n
          in (map_err Io r, q\<lparr>q_reader := reader\<rparr>)))
        = (if ?p + n \<le> length (vo_bytes V) then Ok (slice (vo_bytes V) ?p n) else Err (Io UnexpectedEof), q')
        \<and> mounted lawful content V q'"
      by (simp add: phys p(2) r(1) block_at_def)
  qed
  then show "yields (mounted lawful content V)
      (\<lambda>q. case block of
         Some block \<Rightarrow>
           and_do (physical_block_offset q block, q) (\<lambda>offset q.
           and_do (ok_or Overflow (checked_add64 offset inside), q) (\<lambda>physical q.
             let (r, reader) = read_exact_from src (q_reader q) physical n
             in (map_err Io r, q\<lparr>q_reader := reader\<rparr>)))
       | None \<Rightarrow> (Ok (replicate n 0), q))
      (case block of None \<Rightarrow> Ok (replicate n 0)
       | Some b \<Rightarrow> if vo_block_offset V b + inside + n \<le> length (vo_bytes V)
           then Ok (slice (vo_bytes V) (vo_block_offset V b + inside) n) else Err (Io UnexpectedEof))"
    by (cases block) (auto intro: yields_get)
qed

lemma read_tree_loop_yields:
  assumes wf: "volume_wf V" and d: "tree_wf d" and "offset + amount < 2 ^ 64" and "filled \<le> amount"
  shows "yields (mounted lawful content V) (\<lambda>q. read_tree_loop src q d offset amount filled acc)
    (and_then (collect (v_byte V d) [offset + filled ..< offset + amount]) (\<lambda>bs. Ok (acc @ bs)))"
  using assms(4)
proof (induction "amount - filled" arbitrary: filled acc rule: less_induct)
  case less
  show ?case
  proof (cases "filled < amount")
    case False
    with less.prems show ?thesis
      by (intro yieldsI) (subst read_tree_loop.simps, simp)
  next
    case True
    let ?bs = "vo_block_size V" and ?p = "offset + filled"
    let ?w = "?p mod ?bs"
    let ?k = "min (?bs - ?w) (amount - filled)"
    have bs: "0 < ?bs" using block_size_bounds(1) [OF wf] by simp
    have "?w < ?bs" using bs by simp
    then have k: "0 < ?k" "?k + ?w \<le> ?bs" using True by linarith+
    have c: "checked_add64 offset filled = Some ?p" using assms(3) True by simp
    have split: "[?p ..< offset + amount] = [?p ..< ?p + ?k] @ [?p + ?k ..< offset + amount]"
      using upt_add_eq_append [of ?p "?p + ?k" "amount - filled - ?k"] True by simp
    have chunk: "yields (mounted lawful content V) (\<lambda>q. read_tree_chunk src q d (?p div ?bs) ?w ?k)
        (collect (v_byte V d) [?p ..< ?p + ?k])"
      using read_tree_chunk_yields [OF wf d k(2,1), of "?p div ?bs"] by simp
    have rest: "yields (mounted lawful content V)
        (\<lambda>q. read_tree_loop src q d offset amount (filled + ?k) (acc @ bs))
        (and_then (collect (v_byte V d) [?p + ?k ..< offset + amount]) (\<lambda>cs. Ok ((acc @ bs) @ cs)))" for bs
      using less.hyps [of "filled + ?k" "acc @ bs"] True k(1) by (simp add: add.assoc)
    show ?thesis
    proof (rule yields_cong)
      fix q
      assume "mounted lawful content V q"
      then have "unat (sb_block_size (q_superblock q)) = ?bs" by (simp add: mounted_def vo_block_size_def)
      then show "read_tree_loop src q d offset amount filled acc =
          and_do (read_tree_chunk src q d (?p div ?bs) ?w ?k)
            (\<lambda>bs q. read_tree_loop src q d offset amount (filled + ?k) (acc @ bs))"
        using True bs by (subst read_tree_loop.simps) (simp add: c Let_def)
    next
      show "yields (mounted lawful content V) (\<lambda>q. and_do (read_tree_chunk src q d (?p div ?bs) ?w ?k)
            (\<lambda>bs q. read_tree_loop src q d offset amount (filled + ?k) (acc @ bs)))
          (and_then (collect (v_byte V d) [?p ..< offset + amount]) (\<lambda>bs. Ok (acc @ bs)))"
        using yields_and_do [OF chunk rest]
        by (simp only: split collect_append and_then_assoc and_then.simps append_assoc)
    qed
  qed
qed

lemma read_tree_range_yields:
  assumes wf: "volume_wf V" and d: "tree_wf d"
  shows "yields (mounted lawful content V) (\<lambda>q. read_tree_range src q d offset n) (v_range V d offset n)"
proof (cases "n = 0 \<or> offset \<ge> unat (td_size d)")
  case True
  then show ?thesis by (auto simp: read_tree_range_def v_range_def intro: yields_get)
next
  case False
  have "offset + min (unat (td_size d) - offset) n \<le> unat (td_size d)"
    using False min.cobounded1 [of "unat (td_size d) - offset" n] by linarith
  also have "\<dots> < 2 ^ 64" using unat_less_power [of "td_size d"] by simp
  finally show ?thesis
    using read_tree_loop_yields [OF wf d, of offset "min (unat (td_size d) - offset) n" 0 "[]"] False
    by (simp add: read_tree_range_def v_range_def)
qed

lemma read_tree_exact_yields:
  assumes "volume_wf V" and "tree_wf d"
  shows "yields (mounted lawful content V) (\<lambda>q. read_tree_exact src q d offset n) (v_exact V d offset n)"
  unfolding read_tree_exact_def v_exact_def
  by (intro yields_and_do [OF read_tree_range_yields [OF assms]] yields_if yields_get refl)

end

end
