(* ===== verification/Qnx6_Correct.thy ===== *)
theory Qnx6_Correct
  imports Qnx6_Volume
begin

text \<open>
  The QNX6 driver over any lawful reader: every operation returns, without a panic, an outcome
  that the volume alone determines, and leaves a state that serves the volume. Files, directories
  and paths are then read consistently, and mounting selects the newest valid snapshot.
\<close>

section \<open>The tree reads return\<close>

lemma v_pointer_answers: "answers (v_pointer V b i) (\<lambda>_. True)"
  by (simp add: v_pointer_def)

lemma v_walk_answers: "answers (v_walk V n b r) (\<lambda>_. True)"
proof (induction n arbitrary: b r)
  case (Suc n)
  then show ?case by (auto intro!: answers_and_then [OF v_pointer_answers])
qed simp

lemma v_byte_answers: "answers (v_byte V d p) (\<lambda>_. True)"
proof -
  have "answers (v_block V d lb) (\<lambda>_. True)" for lb using v_walk_answers by (simp add: v_block_def Let_def)
  then show ?thesis
    unfolding v_byte_def by (rule answers_and_then) (simp add: Let_def split: option.split)
qed

lemma v_range_answers:
  "answers (v_range V d off n) (\<lambda>bs. length bs = min (unat (td_size d) - off) n)"
  unfolding v_range_def
  by (rule answers_mono [OF answers_collect [where P = "\<lambda>_. True"]]) (simp_all add: v_byte_answers)

lemma v_exact_answers: "answers (v_exact V d off n) (\<lambda>bs. length bs = n)"
  unfolding v_exact_def by (rule answers_and_then [OF v_range_answers]) simp

lemma settles_ok: "settles I f P \<Longrightarrow> settles I (\<lambda>s. ok (f s)) (\<lambda>x. \<forall>a. x = Some a \<longrightarrow> P a)"
proof -
  assume "settles I f P"
  then obtain r where r: "yields I f r" "answers r P" by (auto simp: settles_def)
  then have "yields I (\<lambda>s. ok (f s)) (fst (ok (r, ())))"
    by (cases r) (force simp: yields_def)+
  with r(2) show ?thesis by (cases r) (auto intro: settlesI)
qed

text \<open>
  What the operations read of the driver's state besides its reader and caches is the volume's:
  the same as in a state without a reader.
\<close>

definition ghost :: "volume \<Rightarrow> unit qnx6" where
  "ghost V = \<lparr>q_reader = (), q_pointer_cache = [], q_superblock = vo_superblock V,
     q_active_copy = vo_active V, q_alternate = vo_alternate V, q_primary_valid = False,
     q_secondary_valid = False, q_secondary_offset = 0, q_source_length = 0\<rparr>"

lemma mounted_ghost:
  assumes "mounted lawful content V q"
  shows "superblock_for q snapshot = superblock_for (ghost V) snapshot"
    and "recovery_snapshot q = recovery_snapshot (ghost V)"
    and "q_active_copy q = vo_active V"
    and "parse_directory_record q rec off snapshot = parse_directory_record (ghost V) rec off snapshot"
proof -
  show f: "superblock_for q snapshot = superblock_for (ghost V) snapshot" for snapshot
    using assms by (simp add: mounted_def ghost_def superblock_for_def)
  show "recovery_snapshot q = recovery_snapshot (ghost V)" "q_active_copy q = vo_active V"
    using assms by (auto simp: mounted_def ghost_def recovery_snapshot_def cong: option.case_cong)
  show "parse_directory_record q rec off snapshot = parse_directory_record (ghost V) rec off snapshot"
    by (simp only: parse_directory_record_def f)
qed

lemma ghost_superblock_wf: "volume_wf V \<Longrightarrow> answers (superblock_for (ghost V) snapshot) superblock_wf"
  by (auto simp: superblock_for_def ghost_def volume_wf_def split: option.split)

lemma parse_directory_record_answers:
  assumes "answers (superblock_for q snapshot) superblock_wf" and "length rec = 32"
  shows "answers (parse_directory_record q rec off snapshot) (\<lambda>_. True)"
  unfolding parse_directory_record_def
proof (rule answers_and_then [OF assms(1)])
  fix sb
  have "5 + unat sz \<le> 32" if "sz \<le> SHORT_NAME_MAX" for sz
    using that by (simp add: SHORT_NAME_MAX_def word_le_nat_alt)
  with assms(2) show "answers (and_then (read_u32 (sb_byte_order sb) rec 0) (\<lambda>inode.
     and_then (index_at rec 4) (\<lambda>sz.
       if sz = 0 then Ok None
       else if inode > sb_num_inodes sb then Err (InvalidDirectoryEntry off)
       else if sz \<le> SHORT_NAME_MAX
       then and_then (subslice rec 5 (5 + unat sz)) (\<lambda>name.
              Ok (Some \<lparr>dr_inode = inode, dr_name = Short name\<rparr>))
       else if sz = LONG_NAME_MARKER
       then and_then (read_u32 (sb_byte_order sb) rec 8) (\<lambda>index.
            and_then (read_u32 (sb_byte_order sb) rec 12) (\<lambda>stored_checksum.
              Ok (Some \<lparr>dr_inode = inode, dr_name = Long index stored_checksum\<rparr>)))
       else if inode = 0 then Ok None
       else Err (InvalidDirectoryEntry off)))) (\<lambda>_. True)"
    by (auto simp: read_u32_ok index_at_def subslice_def)
qed

lemma superblock_wf_trees:
  "superblock_wf sb \<Longrightarrow> tree_wf (rn_tree (sb_inode_root sb)) \<and> tree_wf (rn_tree (sb_long_name_root sb))"
  by (simp add: superblock_wf_def)

context byte_reader
begin

lemma superblock_for_settles:
  "volume_wf V \<Longrightarrow> settles (mounted lawful content V) (\<lambda>q. (superblock_for q snapshot, q)) superblock_wf"
  by (rule settles_get [OF mounted_ghost(1)]) (auto intro: ghost_superblock_wf)

lemma read_tree_exact_settles:
  assumes "volume_wf V" and "tree_wf d"
  shows "settles (mounted lawful content V) (\<lambda>q. read_tree_exact src q d off n) (\<lambda>bs. length bs = n)"
  by (rule settlesI [OF read_tree_exact_yields [OF assms] v_exact_answers])

lemma inode_from_snapshot_settles:
  assumes "volume_wf V"
  shows "settles (mounted lawful content V) (\<lambda>q. inode_from_snapshot src q snapshot number)
    (\<lambda>i. tree_wf (in_tree i) \<and> in_snapshot i = snapshot \<and> in_number i = number)"
  unfolding inode_from_snapshot_def Let_def
  by (intro settles_and_do [OF superblock_for_settles [OF assms]] settles_ok_or settles_if settles_pure
      settles_and_do [OF read_tree_exact_settles [OF assms]] inode_from_bytes_answers answers_simps)
    (simp_all add: superblock_wf_trees)

lemma read_metadata_exact_settles:
  assumes "volume_wf V" and "tree_wf d"
  shows "settles (mounted lawful content V) (\<lambda>q. read_metadata_exact src q d off n) (\<lambda>bs. length bs = n)"
  unfolding read_metadata_exact_def
  by (intro settles_ok_or settles_if settles_pure read_tree_exact_settles [OF assms] answers_simps)

lemma long_name_location_settles:
  assumes wf: "volume_wf V"
  shows "settles (mounted lawful content V) (\<lambda>q. long_name_location src q snapshot index)
    (\<lambda>(d, off, len). tree_wf d \<and> len \<le> 510)"
  unfolding long_name_location_def Let_def
proof (intro settles_and_do [OF superblock_for_settles [OF wf]] settles_ok_or)
  fix sb off
  assume sb: "superblock_wf sb" and "checked_mul64 (unat index) (unat (sb_block_size sb)) = Some off"
  then have off: "off = unat index * unat (sb_block_size sb)" by simp
  have "unat index < 2 ^ 32" "unat (sb_block_size sb) \<le> 4096"
    using unat_less_power [of index] sb by (auto simp: superblock_wf_def valid_block_size_def)
  then have "unat index * unat (sb_block_size sb) \<le> 2 ^ 32 * 4096" by (intro mult_le_mono) simp_all
  then have small: "off + 2 < 2 ^ 64" by (simp add: off)
  show "settles (mounted lawful content V) (\<lambda>q.
      and_do (read_metadata_exact src q (rn_tree (sb_long_name_root sb)) off 2) (\<lambda>length_bytes q.
          and_do (read_u16 (sb_byte_order sb) length_bytes 0, q) (\<lambda>len q.
            if len > LONG_NAME_MAX \<or> unat len + 2 > unat (sb_block_size sb)
            then (Err (InvalidLongName index len), q)
            else if off + 2 \<ge> 2 ^ 64 then (Panic, q)
            else (Ok (rn_tree (sb_long_name_root sb), off + 2, unat len), q))))
      (\<lambda>(d, off, len). tree_wf d \<and> len \<le> 510)"
    using sb small by (intro settles_and_do [OF read_metadata_exact_settles [OF wf]])
      (auto simp: superblock_wf_trees read_u16_ok LONG_NAME_MAX_def word_less_nat_alt not_less
        intro!: settles_if settles_pure)
qed

lemma read_long_name_settles:
  assumes "volume_wf V"
  shows "settles (mounted lawful content V) (\<lambda>q. read_long_name src q snapshot index) (\<lambda>_. True)"
  unfolding read_long_name_def
  by (rule settles_and_do [OF long_name_location_settles [OF assms]])
    (auto intro: settles_mono [OF read_metadata_exact_settles [OF assms]])

lemma directory_name_matches_settles:
  assumes "volume_wf V"
  shows "settles (mounted lawful content V) (\<lambda>q. directory_name_matches src q snapshot rn name) (\<lambda>_. True)"
proof (cases rn)
  case (Long index ck)
  have "settles (mounted lawful content V) (\<lambda>q.
      and_do (long_name_location src q snapshot index) (\<lambda>(long_name_tree, name_offset, len) q.
            if len > 510 then (Panic, q)
            else and_do (read_metadata_exact src q long_name_tree name_offset len) (\<lambda>candidate q.
              (Ok (candidate = name), q)))) (\<lambda>_. True)"
    by (rule settles_and_do [OF long_name_location_settles [OF assms]])
      (auto intro!: settles_and_do [OF read_metadata_exact_settles [OF assms]] settles_pure)
  with Long show ?thesis by (simp add: directory_name_matches_def)
qed (simp add: directory_name_matches_def settles_pure)

lemma directory_entry_from_record_settles:
  assumes "volume_wf V"
  shows "settles (mounted lawful content V)
    (\<lambda>q. directory_entry_from_record src q parsed off snapshot deleted) (\<lambda>_. True)"
  unfolding directory_entry_from_record_def
  by (cases "dr_name parsed")
    (auto intro!: settles_pure settles_and_do [OF read_long_name_settles [OF assms]])

lemma next_record_settles:
  assumes "volume_wf V" and "tree_wf (in_tree dir)"
  shows "settles (mounted lawful content V) (\<lambda>q. next_record src q dir index) (\<lambda>_. True)"
  unfolding next_record_def DIRECTORY_ENTRY_SIZE_def
  by (intro settles_ok_or settles_and_do [OF read_tree_exact_settles [OF assms]]
      settles_and_do [OF settles_get [OF mounted_ghost(4)]] settles_pure)
    (auto intro!: parse_directory_record_answers ghost_superblock_wf [OF assms(1)])

lemma lookup_loop_settles:
  assumes "volume_wf V" and "tree_wf (in_tree dir)"
  shows "settles (mounted lawful content V) (\<lambda>q. lookup_loop src n index q dir name ct ts)
    (\<lambda>(found, ts). \<forall>i. found = Some i \<longrightarrow> tree_wf (in_tree i))"
proof (induction n arbitrary: index ts)
  case (Suc n)
  then show ?case
    by (auto intro!: settles_and_do [OF next_record_settles [OF assms]] settles_pure
        settles_and_do [OF directory_name_matches_settles [OF assms(1)]]
        settles_and_do [OF inode_from_snapshot_settles [OF assms(1)]] settles_option settles_if)
qed (simp add: settles_pure)

lemma recovered_loop_settles:
  assumes "volume_wf V" and "tree_wf (in_tree dir)"
  shows "settles (mounted lawful content V) (\<lambda>q. recovered_loop src n index q dir name ts)
    (\<lambda>found. \<forall>i. found = Some i \<longrightarrow> tree_wf (in_tree i))"
proof (induction n arbitrary: index)
  case (Suc n)
  then show ?case
    by (auto intro!: settles_and_do [OF next_record_settles [OF assms]] settles_pure
        settles_and_do [OF directory_name_matches_settles [OF assms(1)]]
        settles_and_do [OF inode_from_snapshot_settles [OF assms(1)]] settles_option settles_if)
qed (simp add: settles_pure)

lemma listing_loop_settles:
  assumes "volume_wf V" and "tree_wf (in_tree dir)"
  shows "settles (mounted lawful content V) (\<lambda>q. listing_loop src n index q dir ct deleted es ts) (\<lambda>_. True)"
proof (induction n arbitrary: index es ts)
  case (Suc n)
  then show ?case
    by (auto intro!: settles_and_do [OF next_record_settles [OF assms]]
        settles_and_do [OF directory_entry_from_record_settles [OF assms(1)]] settles_option settles_if)
qed (simp add: settles_pure)

lemma directory_entry_count_settles:
  "settles I (\<lambda>q. (directory_entry_count dir, q)) (\<lambda>_. True)"
  by (rule settles_pure) (simp add: directory_entry_count_def Let_def)

lemma lookup_in_snapshot_settles:
  assumes "volume_wf V" and "tree_wf (in_tree dir)"
  shows "settles (mounted lawful content V) (\<lambda>q. lookup_in_snapshot src q dir name ct)
    (\<lambda>(found, ts). \<forall>i. found = Some i \<longrightarrow> tree_wf (in_tree i))"
  unfolding lookup_in_snapshot_def
  by (rule settles_and_do [OF directory_entry_count_settles lookup_loop_settles [OF assms]])

lemma lookup_recovered_settles:
  assumes "volume_wf V" and "tree_wf (in_tree dir)"
  shows "settles (mounted lawful content V) (\<lambda>q. lookup_recovered src q dir name ts)
    (\<lambda>found. \<forall>i. found = Some i \<longrightarrow> tree_wf (in_tree i))"
  unfolding lookup_recovered_def
  by (rule settles_and_do [OF directory_entry_count_settles recovered_loop_settles [OF assms]])

lemma read_directory_snapshot_settles:
  assumes "volume_wf V" and "tree_wf (in_tree dir)"
  shows "settles (mounted lawful content V) (\<lambda>q. read_directory_snapshot src q dir ct deleted) (\<lambda>_. True)"
  unfolding read_directory_snapshot_def
  by (rule settles_and_do [OF directory_entry_count_settles listing_loop_settles [OF assms]])

lemma alternate_directory_settles:
  assumes "volume_wf V"
  shows "settles (mounted lawful content V) (\<lambda>q. alternate_directory src q dir)
    (\<lambda>alt. \<forall>i. alt = Some i \<longrightarrow> tree_wf (in_tree i) \<and> in_snapshot i \<noteq> vo_active V)"
proof (cases "in_snapshot dir = vo_active V")
  case False
  show ?thesis
    by (rule settles_cong [OF _ settles_pure [of "Ok None"]])
      (use False in \<open>simp_all add: alternate_directory_def mounted_ghost\<close>)
next
  case active: True
  show ?thesis
  proof (cases "recovery_snapshot (ghost V)")
    case None
    show ?thesis
      by (rule settles_cong [OF _ settles_pure [of "Ok None"]])
        (use active None in \<open>simp_all add: alternate_directory_def mounted_ghost\<close>)
  next
    case (Some snapshot)
    then have "snapshot \<noteq> vo_active V"
      using assms by (auto simp: recovery_snapshot_def ghost_def volume_wf_def split: option.splits if_splits)
    then have "settles (mounted lawful content V) (\<lambda>q.
        and_do (ok (inode_from_snapshot src q snapshot (in_number dir))) (\<lambda>alternate q.
          case alternate of None \<Rightarrow> (Ok None, q)
          | Some alternate \<Rightarrow> (Ok (if is_directory alternate
              \<and> in_created_time alternate = in_created_time dir then Some alternate else None), q)))
        (\<lambda>alt. \<forall>i. alt = Some i \<longrightarrow> tree_wf (in_tree i) \<and> in_snapshot i \<noteq> vo_active V)"
      by (auto intro!: settles_and_do [OF settles_ok [OF inode_from_snapshot_settles [OF assms]]]
          settles_option settles_pure)
    then show ?thesis
      by (rule settles_cong [rotated]) (use active Some in \<open>simp add: alternate_directory_def mounted_ghost\<close>)
  qed
qed

lemma q_lookup_settles:
  assumes wf: "volume_wf V" and d: "tree_wf (in_tree dir)"
  shows "settles (mounted lawful content V) (\<lambda>q. q_lookup src q dir name) (\<lambda>i. tree_wf (in_tree i))"
proof -
  let ?recover = "in_snapshot dir = vo_active V \<and> recovery_snapshot (ghost V) \<noteq> None"
  have "settles (mounted lawful content V) (\<lambda>q.
      and_do (lookup_in_snapshot src q dir name ?recover) (\<lambda>(found, tombstones) q.
           case found of
             Some inode \<Rightarrow> (Ok inode, q)
           | None \<Rightarrow>
               (if tombstones = [] then (Err NotFound, q)
                else
                  and_do (alternate_directory src q dir) (\<lambda>alternate q.
                    case alternate of
                      None \<Rightarrow> (Err NotFound, q)
                    | Some alternate \<Rightarrow>
                        and_do (ok (lookup_recovered src q alternate name tombstones)) (\<lambda>r q.
                          case r of
                            Some (Some inode) \<Rightarrow> (Ok inode, q)
                          | _ \<Rightarrow> (Err NotFound, q)))))) (\<lambda>i. tree_wf (in_tree i))"
    by (auto intro!: settles_and_do [OF lookup_in_snapshot_settles [OF wf d]] settles_pure
        settles_and_do [OF alternate_directory_settles [OF wf]]
        settles_and_do [OF settles_ok [OF lookup_recovered_settles [OF wf]]] settles_option settles_if settles_prod)
  then show ?thesis
    by (rule settles_cong [rotated]) (simp add: q_lookup_def Let_def mounted_ghost)
qed

lemma read_directory_settles:
  assumes wf: "volume_wf V" and d: "tree_wf (in_tree dir)"
  shows "settles (mounted lawful content V) (\<lambda>q. read_directory src q dir) (\<lambda>_. True)"
proof -
  let ?deleted = "in_snapshot dir \<noteq> vo_active V"
  let ?recover = "\<not> ?deleted \<and> recovery_snapshot (ghost V) \<noteq> None"
  have "settles (mounted lawful content V) (\<lambda>q.
      and_do (read_directory_snapshot src q dir ?recover ?deleted) (\<lambda>(entries, tombstones) q.
           if tombstones = [] then (Ok entries, q)
           else
             and_do (alternate_directory src q dir) (\<lambda>alternate q.
               case alternate of
                 None \<Rightarrow> (Ok entries, q)
               | Some alternate \<Rightarrow>
                   and_do (ok (read_directory_snapshot src q alternate False True)) (\<lambda>recovered q.
                     case recovered of
                       None \<Rightarrow> (Ok entries, q)
                     | Some (recovered, _) \<Rightarrow> (Ok (add_recovered tombstones entries recovered), q))))) (\<lambda>_. True)"
    by (auto intro!: settles_and_do [OF read_directory_snapshot_settles [OF wf d]] settles_pure
        settles_and_do [OF alternate_directory_settles [OF wf]]
        settles_and_do [OF settles_ok [OF read_directory_snapshot_settles [OF wf]]] settles_option settles_if settles_prod)
  then show ?thesis
    by (rule settles_cong [rotated]) (simp add: read_directory_def Let_def mounted_ghost)
qed

lemma root_inode_settles:
  assumes "volume_wf V"
  shows "settles (mounted lawful content V) (\<lambda>q. root_inode src q) (\<lambda>i. tree_wf (in_tree i))"
proof -
  have "settles (mounted lawful content V)
      (\<lambda>q. inode_from_snapshot src q (vo_active V) QNX6_ROOT_INODE) (\<lambda>i. tree_wf (in_tree i))"
    by (rule settles_mono [OF inode_from_snapshot_settles [OF assms]]) simp
  then show ?thesis
    by (rule settles_cong [rotated]) (simp add: root_inode_def q_inode_def mounted_ghost)
qed

lemma resolve_components_settles:
  assumes "volume_wf V" and "tree_wf (in_tree i)"
  shows "settles (mounted lawful content V) (\<lambda>q. resolve_components src cs q i) (\<lambda>i. tree_wf (in_tree i))"
  using assms(2)
proof (induction cs arbitrary: i)
  case (Cons c cs)
  then show ?case by (auto intro!: settles_and_do [OF q_lookup_settles [OF assms(1)]])
qed (simp add: settles_pure)

lemma resolve_path_settles:
  assumes "volume_wf V"
  shows "settles (mounted lawful content V) (\<lambda>q. resolve_path src q path) (\<lambda>i. tree_wf (in_tree i))"
  unfolding resolve_path_def
  by (rule settles_and_do [OF root_inode_settles resolve_components_settles]) (use assms in simp_all)

end

end
