(* ===== verification/Qnx6_Mount.thy ===== *)
theory Qnx6_Mount
  imports Qnx6_Correct
begin

text \<open>
  Mounting a QNX6 volume: \<open>qnx6_new\<close> over any lawful reader. What it finds is described by the
  superblock record at each of the two places.
\<close>

definition superblock_at :: "bytes \<Rightarrow> nat \<Rightarrow> superblock option" where
  "superblock_at c off =
     (if off + QNX6_SUPERBLOCK_SIZE \<le> length c
      then case superblock_from_bytes (slice c off QNX6_SUPERBLOCK_SIZE) of Ok sb \<Rightarrow> Some sb | _ \<Rightarrow> None
      else None)"

definition trailing_offset :: "bytes \<Rightarrow> nat" where
  "trailing_offset c =
     (case superblock_at c QNX6_BOOT_AREA_SIZE of
        Some sb \<Rightarrow> QNX6_DATA_AREA_OFFSET + unat (sb_num_blocks sb) * unat (sb_block_size sb)
      | None \<Rightarrow> length c - QNX6_SUPERBLOCK_AREA_SIZE)"

definition trailing_superblock :: "bytes \<Rightarrow> superblock option" where
  "trailing_superblock c =
     (case superblock_at c (trailing_offset c) of
        None \<Rightarrow> None
      | Some sb \<Rightarrow>
          (if superblock_at c QNX6_BOOT_AREA_SIZE = None \<and> sb_secondary_offset sb \<noteq> Ok (trailing_offset c)
           then None else Some sb))"

lemma superblock_at_wf: "superblock_at c off = Some sb \<Longrightarrow> superblock_wf sb"
  using superblock_from_bytes_answers [of "slice c off QNX6_SUPERBLOCK_SIZE"]
  by (auto simp: superblock_at_def split: if_splits outcome.splits)

lemma secondary_offset_eq:
  assumes "superblock_wf sb"
  shows "sb_secondary_offset sb = Ok (QNX6_DATA_AREA_OFFSET + unat (sb_num_blocks sb) * unat (sb_block_size sb))"
    and "QNX6_DATA_AREA_OFFSET + unat (sb_num_blocks sb) * unat (sb_block_size sb) < 2 ^ 63"
proof -
  have "unat (sb_num_blocks sb) < 2 ^ 32" "unat (sb_block_size sb) \<le> 4096"
    using unat_less_power [of "sb_num_blocks sb"] assms by (auto simp: superblock_wf_def valid_block_size_def)
  then have "unat (sb_num_blocks sb) * unat (sb_block_size sb) \<le> 2 ^ 32 * 4096" by (intro mult_le_mono) simp_all
  then have b: "unat (sb_num_blocks sb) * unat (sb_block_size sb) \<le> 2 ^ 44" by simp
  then show "QNX6_DATA_AREA_OFFSET + unat (sb_num_blocks sb) * unat (sb_block_size sb) < 2 ^ 63"
    by (simp add: QNX6_DATA_AREA_OFFSET_def QNX6_BOOT_AREA_SIZE_def QNX6_SUPERBLOCK_AREA_SIZE_def)
  from b show "sb_secondary_offset sb = Ok (QNX6_DATA_AREA_OFFSET + unat (sb_num_blocks sb) * unat (sb_block_size sb))"
    by (simp add: sb_secondary_offset_def checked_mul64_def checked_add64_def add.commute
        QNX6_DATA_AREA_OFFSET_def QNX6_BOOT_AREA_SIZE_def QNX6_SUPERBLOCK_AREA_SIZE_def)
qed

lemma new_caches_ok:
  "0 < bs \<Longrightarrow> \<exists>bcs. new_caches bs n = Ok bcs \<and> length bcs = n
    \<and> (\<forall>bc \<in> set bcs. cache_inv c bc \<and> bc_block_size bc = bs)"
proof (induction n)
  case (Suc n)
  then show ?case using cache_new_inv [of bs c] by auto
qed simp

context byte_source
begin

lemma read_superblock_ok:
  assumes "lawful s" and "off < 2 ^ 63"
  shows "\<exists>s'. ok (read_superblock src s off) = (Ok (superblock_at (content s) off), s')
    \<and> lawful s' \<and> content s' = content s"
proof (cases "off + QNX6_SUPERBLOCK_SIZE \<le> length (content s)")
  case True
  with read_exact_from_ok [OF assms, of QNX6_SUPERBLOCK_SIZE] obtain s' where
    s': "read_exact_from src s off QNX6_SUPERBLOCK_SIZE = (Ok (slice (content s) off QNX6_SUPERBLOCK_SIZE), s')"
      "lawful s'" "content s' = content s" by blast
  with True superblock_from_bytes_answers [of "slice (content s) off QNX6_SUPERBLOCK_SIZE"] show ?thesis
    by (cases "superblock_from_bytes (slice (content s) off QNX6_SUPERBLOCK_SIZE)")
      (simp_all add: read_superblock_def superblock_at_def)
next
  case False
  with read_exact_from_eof [OF assms, of QNX6_SUPERBLOCK_SIZE] obtain s' where
    "read_exact_from src s off QNX6_SUPERBLOCK_SIZE = (Err UnexpectedEof, s')"
      "lawful s'" "content s' = content s" by (auto simp: not_le QNX6_SUPERBLOCK_SIZE_def)
  with False show ?thesis by (simp add: read_superblock_def superblock_at_def)
qed

lemma find_superblocks_ok:
  assumes l: "lawful s"
  shows "\<exists>s'. find_superblocks src s =
      (if superblock_at (content s) QNX6_BOOT_AREA_SIZE = None \<and> length (content s) < QNX6_SUPERBLOCK_AREA_SIZE
       then Err NoValidSuperblock
       else Ok (superblock_at (content s) QNX6_BOOT_AREA_SIZE, trailing_superblock (content s),
         trailing_offset (content s), length (content s)), s')
    \<and> lawful s' \<and> content s' = content s"
proof -
  let ?c = "content s" and ?P = "superblock_at (content s) QNX6_BOOT_AREA_SIZE"
  obtain s1 where s1: "do_seek src s (End 0) = (Ok (length ?c), s1)" "lawful s1" "content s1 = ?c"
    using seek_end [OF l] by blast
  obtain s2 where s2: "ok (read_superblock src s1 QNX6_BOOT_AREA_SIZE) = (Ok ?P, s2)" "lawful s2" "content s2 = ?c"
    using read_superblock_ok [OF s1(2), of QNX6_BOOT_AREA_SIZE] s1(3) by (auto simp: QNX6_BOOT_AREA_SIZE_def)
  let ?off = "case ?P of Some sb \<Rightarrow> sb_secondary_offset sb
    | None \<Rightarrow> ok_or NoValidSuperblock (checked_sub (length ?c) QNX6_SUPERBLOCK_AREA_SIZE)"
  show ?thesis
  proof (cases "?P = None \<and> length ?c < QNX6_SUPERBLOCK_AREA_SIZE")
    case True
    then show ?thesis using s1 s2 by (auto simp: find_superblocks_def checked_sub_def)
  next
    case False
    have off: "?off = Ok (trailing_offset ?c)" "trailing_offset ?c < 2 ^ 63"
      using False secondary_offset_eq [OF superblock_at_wf] content_bound [OF l]
      by (auto simp: trailing_offset_def checked_sub_def split: option.splits)
    obtain s3 where s3: "ok (read_superblock src s2 (trailing_offset ?c))
        = (Ok (superblock_at ?c (trailing_offset ?c)), s3)" "lawful s3" "content s3 = ?c"
      using read_superblock_ok [OF s2(2) off(2)] s2(3) by auto
    have "find_superblocks src s = (Ok (?P, trailing_superblock ?c, trailing_offset ?c, length ?c), s3)"
      by (simp add: find_superblocks_def s1(1) s2(1) off(1) s3(1) trailing_superblock_def)
    with False s3 show ?thesis by simp
  qed
qed

text \<open>The state built from a choice of snapshot serves the volume.\<close>

lemma mounted_new:
  assumes "lawful s" and "length caches = 5" and "superblock_wf sb"
    and "\<forall>bc \<in> set caches. cache_inv (content s) bc \<and> bc_block_size bc = unat (sb_block_size sb)"
    and "\<forall>copy sb'. alternate = Some (copy, sb') \<longrightarrow> copy \<noteq> active \<and> superblock_wf sb'"
  shows "mounted lawful content \<lparr>vo_bytes = content s, vo_superblock = sb, vo_active = active,
        vo_alternate = alternate, vo_secondary_offset = off\<rparr>
      \<lparr>q_reader = s, q_pointer_cache = caches, q_superblock = sb, q_active_copy = active,
       q_alternate = alternate, q_primary_valid = pv, q_secondary_valid = sv,
       q_secondary_offset = off, q_source_length = len\<rparr>"
    and "volume_wf \<lparr>vo_bytes = content s, vo_superblock = sb, vo_active = active, vo_alternate = alternate,
        vo_secondary_offset = off\<rparr>"
  using assms content_bound [OF assms(1)] by (auto simp: mounted_def volume_wf_def QNX6_MAX_LEVELS_def)

end

lemma choose_snapshot_cases:
  assumes "choose_snapshot p t = Ok (sb, active, alternate)"
  shows "(active = Primary \<longrightarrow> p = Some sb) \<and> (active = Secondary \<longrightarrow> t = Some sb)
    \<and> (\<forall>sb'. p = Some sb' \<or> t = Some sb' \<longrightarrow> sb_serial sb' \<le> sb_serial sb)
    \<and> (\<forall>copy sb'. alternate = Some (copy, sb') \<longrightarrow> copy \<noteq> active \<and> (p = Some sb' \<or> t = Some sb'))"
  using assms by (cases p; cases t) (auto split: if_splits)

text \<open>
  What a mounted driver promises of the snapshot it selected: the record at the place of the
  active copy is its superblock, no valid record has a greater serial number, the trailing copy is
  where the superblock's own geometry puts it, and the root is a directory.
\<close>

definition copy_offset :: "'s qnx6 \<Rightarrow> superblock_copy \<Rightarrow> nat" where
  "copy_offset q copy = (case copy of Primary \<Rightarrow> QNX6_BOOT_AREA_SIZE | Secondary \<Rightarrow> q_secondary_offset q)"

definition newest_snapshot :: "bytes \<Rightarrow> 's qnx6 \<Rightarrow> bool" where
  "newest_snapshot c q \<longleftrightarrow>
     superblock_at c (copy_offset q (q_active_copy q)) = Some (q_superblock q)
     \<and> (\<forall>copy sb. superblock_at c (copy_offset q copy) = Some sb \<longrightarrow> sb_serial sb \<le> sb_serial (q_superblock q))
     \<and> sb_secondary_offset (q_superblock q) = Ok (q_secondary_offset q)"

lemma trailing_geometry:
  assumes "trailing_superblock c = Some sb"
    and "\<And>first. superblock_at c QNX6_BOOT_AREA_SIZE = Some first \<Longrightarrow> immutable_geometry_matches first sb"
  shows "sb_secondary_offset sb = Ok (trailing_offset c)" and "superblock_at c (trailing_offset c) = Some sb"
proof -
  show at: "superblock_at c (trailing_offset c) = Some sb"
    using assms(1) by (auto simp: trailing_superblock_def split: option.splits if_splits)
  show "sb_secondary_offset sb = Ok (trailing_offset c)"
  proof (cases "superblock_at c QNX6_BOOT_AREA_SIZE")
    case None
    then show ?thesis using assms(1) by (auto simp: trailing_superblock_def split: option.splits if_splits)
  next
    case (Some first)
    with assms(2) secondary_offset_eq(1) [OF superblock_at_wf [OF at]] show ?thesis
      by (simp add: trailing_offset_def immutable_geometry_matches_def)
  qed
qed

lemma chosen_is_newest:
  assumes "choose_snapshot (superblock_at c QNX6_BOOT_AREA_SIZE) (trailing_superblock c) = Ok (sb, active, alternate)"
    and "\<And>first second. superblock_at c QNX6_BOOT_AREA_SIZE = Some first \<Longrightarrow>
      trailing_superblock c = Some second \<Longrightarrow> immutable_geometry_matches first second"
    and "q_superblock q = sb" "q_active_copy q = active" "q_secondary_offset q = trailing_offset c"
  shows "newest_snapshot c q"
proof -
  note ch = choose_snapshot_cases [OF assms(1)]
  have t: "superblock_at c (trailing_offset c) = Some sb' \<Longrightarrow>
      superblock_at c QNX6_BOOT_AREA_SIZE \<noteq> None \<Longrightarrow> trailing_superblock c = Some sb'" for sb'
    by (auto simp: trailing_superblock_def split: option.splits)
  show ?thesis
  proof (cases active)
    case Primary
    then have p: "superblock_at c QNX6_BOOT_AREA_SIZE = Some sb" using ch by simp
    with ch t secondary_offset_eq(1) [OF superblock_at_wf [OF p]] assms(3-5) Primary show ?thesis
      by (auto simp: newest_snapshot_def copy_offset_def trailing_offset_def split: superblock_copy.splits)
  next
    case Secondary
    then have s: "trailing_superblock c = Some sb" using ch by simp
    note g = trailing_geometry [OF s assms(2) [OF _ s]]
    have "sb_serial sb' \<le> sb_serial sb" if "superblock_at c (copy_offset q copy) = Some sb'" for copy sb'
      using that ch g(2) assms(5) by (cases copy) (auto simp: copy_offset_def)
    with g assms(3-5) Secondary show ?thesis by (simp add: newest_snapshot_def copy_offset_def)
  qed
qed

text \<open>The volume a driver serves is determined by its state and the bytes.\<close>

definition mounted_volume :: "bytes \<Rightarrow> 's qnx6 \<Rightarrow> volume" where
  "mounted_volume c q = \<lparr>vo_bytes = c, vo_superblock = q_superblock q, vo_active = q_active_copy q,
     vo_alternate = q_alternate q, vo_secondary_offset = q_secondary_offset q\<rparr>"

lemma mounted_volume: "mounted lawful content V q \<Longrightarrow> V = mounted_volume (vo_bytes V) q"
  by (simp add: mounted_def mounted_volume_def)

context byte_source
begin

text \<open>Once a snapshot is chosen, mounting succeeds where the root inode is a directory.\<close>

lemma qnx6_new_run:
  fixes s :: 's
  defines "c \<equiv> content s"
  assumes l: "lawful s" and found: "superblock_at c QNX6_BOOT_AREA_SIZE \<noteq> None \<or> QNX6_SUPERBLOCK_AREA_SIZE \<le> length c"
    and ch: "choose_snapshot (superblock_at c QNX6_BOOT_AREA_SIZE) (trailing_superblock c) = Ok (sb, active, alternate)"
    and g: "\<And>first second. superblock_at c QNX6_BOOT_AREA_SIZE = Some first \<Longrightarrow>
      trailing_superblock c = Some second \<Longrightarrow> immutable_geometry_matches first second"
  defines "V \<equiv> \<lparr>vo_bytes = c, vo_superblock = sb, vo_active = active, vo_alternate = alternate,
      vo_secondary_offset = trailing_offset c\<rparr>"
  obtains q r q' where "volume_wf V" and "mounted lawful content V q" and "root_inode src q = (r, q')"
    and "mounted lawful content V q'" and "answers r (\<lambda>i. tree_wf (in_tree i))"
    and "qnx6_new src s = and_do (r, q_reader q') (\<lambda>inode s.
      if is_directory inode then (Ok q', s) else (Err RootNotDirectory, s))"
proof -
  let ?P = "superblock_at c QNX6_BOOT_AREA_SIZE" and ?T = "trailing_superblock c"
  obtain s' where f: "find_superblocks src s = (Ok (?P, ?T, trailing_offset c, length c), s')"
    "lawful s'" "content s' = c"
    using find_superblocks_ok [OF l] found by (auto simp: c_def)
  have tw: "superblock_wf sb'" if "?P = Some sb' \<or> ?T = Some sb'" for sb'
    using that superblock_at_wf by (auto simp: trailing_superblock_def split: option.splits if_splits)
  have wf: "superblock_wf sb" "\<forall>copy sb'. alternate = Some (copy, sb') \<longrightarrow> copy \<noteq> active \<and> superblock_wf sb'"
    using choose_snapshot_cases [OF ch] tw by (cases active, auto)+
  have "0 < unat (sb_block_size sb)" using wf(1) by (auto simp: superblock_wf_def valid_block_size_def)
  from new_caches_ok [OF this, of 5 c] obtain bcs where
    b: "new_caches (unat (sb_block_size sb)) 5 = Ok bcs" "length bcs = 5"
      "\<forall>bc \<in> set bcs. cache_inv c bc \<and> bc_block_size bc = unat (sb_block_size sb)" by blast
  let ?q = "\<lparr>q_reader = s', q_pointer_cache = bcs, q_superblock = sb, q_active_copy = active,
     q_alternate = alternate, q_primary_valid = (?P \<noteq> None), q_secondary_valid = (?T \<noteq> None),
     q_secondary_offset = trailing_offset c, q_source_length = length c\<rparr>"
  have m: "mounted lawful content V ?q" "volume_wf V"
    using mounted_new [OF f(2) b(2) wf(1) _ wf(2)] b(3) unfolding f(3) V_def by blast+
  obtain r q' where r: "root_inode src ?q = (r, q')" "answers r (\<lambda>i. tree_wf (in_tree i))"
    "mounted lawful content V q'"
    by (rule settlesE [OF root_inode_settles [OF m(2)] m(1)])
  have "(case (?P, ?T) of (Some first, Some second) \<Rightarrow>
      (if immutable_geometry_matches first second then Ok () else Err ConflictingSuperblocks)
    | _ \<Rightarrow> Ok ()) = Ok ()"
    using g by (simp split: option.split)
  then have "qnx6_new src s = and_do (r, q_reader q') (\<lambda>inode s.
      if is_directory inode then (Ok q', s) else (Err RootNotDirectory, s))"
    using ch b(1) r(1) f(1) unfolding qnx6_new_def by (simp add: QNX6_MAX_LEVELS_def)
  from that [OF m(2,1) r(1,3,2) this] show ?thesis .
qed

lemma qnx6_new_answers:
  assumes l: "lawful s"
  shows "answers (fst (qnx6_new src s)) (\<lambda>q. newest_snapshot (content s) q
    \<and> (\<exists>V. volume_wf V \<and> vo_bytes V = content s \<and> mounted lawful content V q))"
proof -
  let ?c = "content s" and ?P = "superblock_at (content s) QNX6_BOOT_AREA_SIZE"
    and ?T = "trailing_superblock (content s)"
  show ?thesis
  proof (cases "(?P = None \<and> length ?c < QNX6_SUPERBLOCK_AREA_SIZE)
      \<or> (\<exists>first second. ?P = Some first \<and> ?T = Some second \<and> \<not> immutable_geometry_matches first second)
      \<or> (?P = None \<and> ?T = None)")
    case True
    then show ?thesis using find_superblocks_ok [OF l] by (auto simp: qnx6_new_def)
  next
    case False
    then have g: "immutable_geometry_matches first second" if "?P = Some first" "?T = Some second" for first second
      using that by blast
    have "\<exists>x. choose_snapshot ?P ?T = Ok x" using False by (cases ?P; cases ?T) auto
    then obtain sb active alternate where ch: "choose_snapshot ?P ?T = Ok (sb, active, alternate)" by auto
    have found: "?P \<noteq> None \<or> QNX6_SUPERBLOCK_AREA_SIZE \<le> length ?c" using False by auto
    obtain q r q' where "volume_wf \<lparr>vo_bytes = ?c, vo_superblock = sb, vo_active = active,
        vo_alternate = alternate, vo_secondary_offset = trailing_offset ?c\<rparr>"
      and q': "mounted lawful content \<lparr>vo_bytes = ?c, vo_superblock = sb, vo_active = active,
        vo_alternate = alternate, vo_secondary_offset = trailing_offset ?c\<rparr> q'"
        "answers r (\<lambda>i. tree_wf (in_tree i))" "qnx6_new src s = and_do (r, q_reader q') (\<lambda>inode s.
          if is_directory inode then (Ok q', s) else (Err RootNotDirectory, s))"
      by (rule qnx6_new_run [OF l found ch g])
    moreover have "newest_snapshot ?c q'"
      using q'(1) by (intro chosen_is_newest [OF ch g]) (simp_all add: mounted_def)
    ultimately show ?thesis using q' by (cases r) auto
  qed
qed

end

end
