(* ===== verification/Qnx6_Agreement.thy ===== *)
theory Qnx6_Agreement
  imports Qnx6_Correct
begin

text \<open>
  Lookup and listing of a QNX6 directory agree, names recovered from the other snapshot included.
  \<open>scanned\<close> relates a run over the records of a directory to the entries and tombstones in it;
  listing computes it, and both lookups are read off it.
\<close>

section \<open>Scans\<close>

inductive scanned ::
  "(nat \<Rightarrow> nat \<times> directory_record option \<Rightarrow> bool) \<Rightarrow> (directory_record \<Rightarrow> nat \<Rightarrow> directory_entry \<Rightarrow> bool) \<Rightarrow>
    nat \<Rightarrow> nat \<Rightarrow> directory_entry list \<Rightarrow> tombstone list \<Rightarrow> bool"
  for R E where
    scanned_end: "scanned R E 0 index [] []"
  | scanned_empty: "R index (off, None) \<Longrightarrow> scanned R E n (Suc index) es ts \<Longrightarrow>
      scanned R E (Suc n) index es ts"
  | scanned_dead: "R index (off, Some p) \<Longrightarrow> dr_inode p = 0 \<Longrightarrow> scanned R E n (Suc index) es ts \<Longrightarrow>
      scanned R E (Suc n) index es (\<lparr>ts_offset = off, ts_name = dr_name p\<rparr> # ts)"
  | scanned_live: "R index (off, Some p) \<Longrightarrow> dr_inode p \<noteq> 0 \<Longrightarrow> E p off e \<Longrightarrow>
      scanned R E n (Suc index) es ts \<Longrightarrow> scanned R E (Suc n) index (e # es) ts"

text \<open>
  The outcome \<open>Y\<close> of a lookup, given the entry \<open>x\<close> it should find: the outcome of reading the
  entry's inode, as \<open>M\<close> has it, or \<open>none\<close>.
\<close>

definition finds ::
  "(directory_entry \<Rightarrow> (qnx6_inode, qnx6_error) outcome \<Rightarrow> bool) \<Rightarrow> ((qnx6_inode \<Rightarrow> 'a) \<Rightarrow> bool) \<Rightarrow>
    superblock_copy \<Rightarrow> 'a \<Rightarrow> directory_entry option \<Rightarrow> (('a, qnx6_error) outcome \<Rightarrow> bool) \<Rightarrow> bool" where
  "finds M K snapshot none x Y \<longleftrightarrow>
     (case x of
        None \<Rightarrow> Y (Ok none)
      | Some e \<Rightarrow> de_snapshot e = snapshot
          \<and> (\<forall>m. M e m \<longrightarrow> (\<exists>f. K f \<and> Y (and_then m (\<lambda>i. Ok (f i))))))"

lemma finds_mono:
  "finds M K snapshot none x Y \<Longrightarrow> (\<And>r. Y r \<Longrightarrow> Y' r) \<Longrightarrow> finds M K snapshot none x Y'"
  unfolding finds_def by (cases x) (simp, fastforce)

lemma find_add_recovered:
  "find (\<lambda>e. de_name e = name) (add_recovered ts es rec) =
    (case find (\<lambda>e. de_name e = name) es of
       Some e \<Rightarrow> Some e
     | None \<Rightarrow> find (\<lambda>e. list_ex (matches_tombstone e) ts \<and> de_name e = name) rec)"
proof (induction rec arbitrary: es)
  case Nil
  then show ?case by (simp split: option.split)
next
  case (Cons e rec)
  have append: "find P (xs @ ys) = (case find P xs of Some x \<Rightarrow> Some x | None \<Rightarrow> find P ys)"
    for P and xs ys :: "directory_entry list"
    by (induction xs) simp_all
  have clash: "find (\<lambda>e. de_name e = name) es \<noteq> None"
    if "list_ex (\<lambda>active. de_name active = de_name e) es" "de_name e = name"
    using that by (auto simp: find_None_iff list_ex_iff)
  show ?case
    using Cons clash by (auto simp: append split: option.splits)
qed

context byte_reader
begin

lemma entry_from_record:
  assumes wf: "volume_wf V" and q: "mounted lawful content V q"
    and e: "yields (mounted lawful content V)
      (\<lambda>q. directory_entry_from_record src q p off snapshot deleted) (Ok e)"
  shows "de_inode e = dr_inode p" and "de_snapshot e = snapshot"
    and "matches_tombstone e ts = tombstone_matches ts off (dr_name p)"
    and "yields (mounted lawful content V) (\<lambda>q. directory_name_matches src q snapshot (dr_name p) name)
        (Ok (de_name e = name))"
proof -
  have "de_inode e = dr_inode p \<and> de_snapshot e = snapshot
    \<and> matches_tombstone e ts = tombstone_matches ts off (dr_name p)
    \<and> yields (mounted lawful content V) (\<lambda>q. directory_name_matches src q snapshot (dr_name p) name)
        (Ok (de_name e = name))"
  proof (cases "dr_name p")
    case (Short bs)
    with yieldsD [OF e q] have "e = \<lparr>de_inode = dr_inode p, de_name = bs, de_long_name_index = None,
        de_checksum_valid = None, de_stored_checksum = None, de_record_offset = off,
        de_snapshot = snapshot, de_deleted = deleted\<rparr>"
      by (auto simp: directory_entry_from_record_def)
    with Short show ?thesis
      by (simp add: matches_tombstone_def directory_name_matches_def yields_get)
  next
    case (Long index ck)
    let ?I = "mounted lawful content V"
    from e Long have "yields ?I (\<lambda>q. and_do (read_long_name src q snapshot index) (\<lambda>name q.
              (Ok \<lparr>de_inode = dr_inode p, de_name = name, de_long_name_index = Some index,
                   de_checksum_valid = Some (long_name_checksum name = ck),
                   de_stored_checksum = Some ck, de_record_offset = off,
                   de_snapshot = snapshot, de_deleted = deleted\<rparr>, q))) (Ok e)"
      by (simp add: directory_entry_from_record_def)
    then obtain bs where bs: "yields ?I (\<lambda>q. read_long_name src q snapshot index) (Ok bs)"
      and e: "e = \<lparr>de_inode = dr_inode p, de_name = bs, de_long_name_index = Some index,
          de_checksum_valid = Some (long_name_checksum bs = ck), de_stored_checksum = Some ck,
          de_record_offset = off, de_snapshot = snapshot, de_deleted = deleted\<rparr>"
      by (rule yields_map_Ok [OF _ q read_long_name_settles [OF wf]])
    have k: "settles ?I (case loc of (d, off, len) \<Rightarrow> \<lambda>q. read_metadata_exact src q d off len) (\<lambda>_. True)"
      if "case loc of (d, off, len) \<Rightarrow> tree_wf d \<and> len \<le> 510" for loc
      using that by (cases loc) (auto intro: settles_mono [OF read_metadata_exact_settles [OF wf]])
    from bs obtain loc where loc: "case loc of (d, off, len) \<Rightarrow> tree_wf d \<and> len \<le> 510"
      "yields ?I (\<lambda>q. long_name_location src q snapshot index) (Ok loc)"
      "yields ?I (case loc of (d, off, len) \<Rightarrow> \<lambda>q. read_metadata_exact src q d off len) (Ok bs)"
      unfolding read_long_name_def
      by (rule yields_and_do_Ok [OF _ q long_name_location_settles [OF wf] k])
    obtain d no len where l: "loc = (d, no, len)" by (cases loc)
    have "yields ?I (\<lambda>q. and_do (read_metadata_exact src q d no len) (\<lambda>candidate q. (Ok (candidate = name), q)))
        (and_then (Ok bs) (\<lambda>bs. Ok (bs = name)))"
      using loc(3) l by (intro yields_and_do yields_get) simp_all
    then have "yields ?I (\<lambda>q. and_do (long_name_location src q snapshot index)
            (\<lambda>(long_name_tree, name_offset, len) q.
              if len > 510 then (Panic, q)
              else and_do (read_metadata_exact src q long_name_tree name_offset len) (\<lambda>candidate q.
                (Ok (candidate = name), q)))) (and_then (Ok loc) (\<lambda>_. Ok (bs = name)))"
      using loc l by (intro yields_and_do) auto
    then show ?thesis
      using Long by (simp add: e directory_name_matches_def matches_tombstone_def)
  qed
  then show "de_inode e = dr_inode p" and "de_snapshot e = snapshot"
    and "matches_tombstone e ts = tombstone_matches ts off (dr_name p)"
    and "yields (mounted lawful content V) (\<lambda>q. directory_name_matches src q snapshot (dr_name p) name)
        (Ok (de_name e = name))" by auto
qed

lemma listing_scanned:
  assumes wf: "volume_wf V" and q: "mounted lawful content V q" and d: "tree_wf (in_tree dir)"
    and "yields (mounted lawful content V) (\<lambda>q. listing_loop src n index q dir ct deleted es ts) (Ok (E, T))"
  shows "\<exists>es' ts'. E = es @ es' \<and> T = ts @ (if ct then ts' else [])
    \<and> scanned (\<lambda>i r. yields (mounted lawful content V) (\<lambda>q. next_record src q dir i) (Ok r))
        (\<lambda>p off e. yields (mounted lawful content V)
           (\<lambda>q. directory_entry_from_record src q p off (in_snapshot dir) deleted) (Ok e)) n index es' ts'"
  using assms(4)
proof (induction n arbitrary: index es ts)
  case 0
  with yieldsD [OF 0 q] show ?case by (auto intro: scanned_end)
next
  case (Suc n)
  let ?I = "mounted lawful content V"
  let ?S = "scanned (\<lambda>i r. yields ?I (\<lambda>q. next_record src q dir i) (Ok r))
    (\<lambda>p off e. yields ?I (\<lambda>q. directory_entry_from_record src q p off (in_snapshot dir) deleted) (Ok e))"
  note ll = listing_loop_settles [OF wf d]
  from Suc.prems obtain off parsed where
    r: "yields ?I (\<lambda>q. next_record src q dir index) (Ok (off, parsed))"
    and k: "yields ?I (\<lambda>q. case parsed of
         None \<Rightarrow> listing_loop src n (Suc index) q dir ct deleted es ts
       | Some parsed \<Rightarrow>
           (if dr_inode parsed = 0
            then listing_loop src n (Suc index) q dir ct deleted es
                   (if ct then ts @ [\<lparr>ts_offset = off, ts_name = dr_name parsed\<rparr>] else ts)
            else
              and_do (directory_entry_from_record src q parsed off (in_snapshot dir) deleted) (\<lambda>entry q.
                listing_loop src n (Suc index) q dir ct deleted (es @ [entry]) ts))) (Ok (E, T))"
    unfolding listing_loop.simps
    by (rule yields_and_do_Ok [OF _ q next_record_settles [OF wf d]])
      (auto intro!: settles_option settles_if ll
        settles_and_do [OF directory_entry_from_record_settles [OF wf]])
  show ?case
  proof (cases parsed)
    case None
    with Suc.IH [of "Suc index" es ts] k obtain es' ts' where
      "E = es @ es'" "T = ts @ (if ct then ts' else [])" "?S n (Suc index) es' ts'" by auto
    with r None show ?thesis by (intro exI conjI scanned_empty) simp_all
  next
    case (Some p)
    show ?thesis
    proof (cases "dr_inode p = 0")
      case True
      let ?t = "\<lparr>ts_offset = off, ts_name = dr_name p\<rparr>"
      from Suc.IH [of "Suc index" es "if ct then ts @ [?t] else ts"] k Some True obtain es' ts' where
        "E = es @ es'" "T = (if ct then ts @ [?t] else ts) @ (if ct then ts' else [])"
        "?S n (Suc index) es' ts'" by auto
      with r Some True show ?thesis
        by (intro exI [of _ es'] exI [of _ "?t # ts'"] conjI scanned_dead) simp_all
    next
      case False
      from k Some False obtain e where
        e: "yields ?I (\<lambda>q. directory_entry_from_record src q p off (in_snapshot dir) deleted) (Ok e)"
        and k': "yields ?I (\<lambda>q. listing_loop src n (Suc index) q dir ct deleted (es @ [e]) ts) (Ok (E, T))"
        by (auto intro: yields_and_do_Ok [OF _ q directory_entry_from_record_settles [OF wf] ll])
      from Suc.IH [OF k'] obtain es' ts' where
        "E = es @ e # es'" "T = ts @ (if ct then ts' else [])" "?S n (Suc index) es' ts'" by auto
      with r e Some False show ?thesis
        by (intro exI [of _ "e # es'"] exI [of _ ts'] conjI scanned_live) simp_all
    qed
  qed
qed

text \<open>Both lookups follow a scan.\<close>

lemma lookup_live:
  assumes wf: "volume_wf V" and q: "mounted lawful content V q"
    and r: "yields (mounted lawful content V) (\<lambda>q. next_record src q dir index) (Ok (off, Some p))"
    and p: "dr_inode p \<noteq> 0"
    and e: "yields (mounted lawful content V)
      (\<lambda>q. directory_entry_from_record src q p off (in_snapshot dir) deleted) (Ok e)"
    and k: "yields (mounted lawful content V) (\<lambda>q. if de_name e = name
          then and_do (inode_from_snapshot src q (in_snapshot dir) (de_inode e)) (\<lambda>i q. (Ok (Some i, acc), q))
          else lookup_loop src n (Suc index) q dir name ct acc) out"
  shows "yields (mounted lawful content V) (\<lambda>q. lookup_loop src (Suc n) index q dir name ct acc) out"
proof -
  have "yields (mounted lawful content V) (\<lambda>q.
      and_do (directory_name_matches src q (in_snapshot dir) (dr_name p) name) (\<lambda>found q.
        if found then and_do (inode_from_snapshot src q (in_snapshot dir) (dr_inode p)) (\<lambda>inode q.
                     (Ok (Some inode, acc), q))
        else lookup_loop src n (Suc index) q dir name ct acc)) (and_then (Ok (de_name e = name)) (\<lambda>_. out))"
    using entry_from_record(4) [OF wf q e] k [unfolded entry_from_record(1) [OF wf q e]]
    by (intro yields_and_do) auto
  with p yields_and_do [OF r, of _ "\<lambda>_. out"] show ?thesis by simp
qed

lemma scanned_lookup:
  assumes wf: "volume_wf V" and q: "mounted lawful content V q"
    and "scanned (\<lambda>i r. yields (mounted lawful content V) (\<lambda>q. next_record src q dir i) (Ok r))
        (\<lambda>p off e. yields (mounted lawful content V)
           (\<lambda>q. directory_entry_from_record src q p off (in_snapshot dir) deleted) (Ok e)) n index es ts"
  shows "finds (\<lambda>e. yields (mounted lawful content V)
        (\<lambda>q. inode_from_snapshot src q (in_snapshot dir) (de_inode e))) (\<lambda>f. \<exists>acc. f = (\<lambda>i. (Some i, acc)))
      (in_snapshot dir) (None, acc @ (if ct then ts else [])) (find (\<lambda>e. de_name e = name) es)
      (yields (mounted lawful content V) (\<lambda>q. lookup_loop src n index q dir name ct acc))"
  using assms(3)
proof (induction arbitrary: acc)
  case scanned_end
  show ?case by (simp add: finds_def yields_get)
next
  case (scanned_empty index off n es ts)
  show ?case
  proof (rule finds_mono [OF scanned_empty.IH [of acc]])
    fix r
    assume "yields (mounted lawful content V) (\<lambda>q. lookup_loop src n (Suc index) q dir name ct acc) r"
    then show "yields (mounted lawful content V) (\<lambda>q. lookup_loop src (Suc n) index q dir name ct acc) r"
      using yields_and_do [OF scanned_empty.hyps(1), of _ "\<lambda>_. r"] by simp
  qed
next
  case (scanned_dead index off p n es ts)
  let ?t = "\<lparr>ts_offset = off, ts_name = dr_name p\<rparr>"
  let ?acc = "if ct then acc @ [?t] else acc"
  have acc: "acc @ (if ct then ?t # ts else []) = ?acc @ (if ct then ts else [])" by simp
  show ?case
    unfolding acc
  proof (rule finds_mono [OF scanned_dead.IH [of ?acc]])
    fix r
    assume "yields (mounted lawful content V) (\<lambda>q. lookup_loop src n (Suc index) q dir name ct ?acc) r"
    then show "yields (mounted lawful content V) (\<lambda>q. lookup_loop src (Suc n) index q dir name ct acc) r"
      using yields_and_do [OF scanned_dead.hyps(1), of _ "\<lambda>_. r"] scanned_dead.hyps(2) by simp
  qed
next
  case (scanned_live index off p e n es ts)
  note live = lookup_live [OF wf q scanned_live.hyps(1,2,3)]
  show ?case
  proof (cases "de_name e = name")
    case True
    have "yields (mounted lawful content V) (\<lambda>q. lookup_loop src (Suc n) index q dir name ct acc)
        (and_then m (\<lambda>i. Ok (Some i, acc)))"
      if "yields (mounted lawful content V) (\<lambda>q. inode_from_snapshot src q (in_snapshot dir) (de_inode e)) m" for m
      using True yields_and_do [OF that, of "\<lambda>i q. (Ok (Some i, acc), q)" "\<lambda>i. Ok (Some i, acc)"]
      by (intro live) (simp add: yields_get)
    with True entry_from_record(2) [OF wf q scanned_live.hyps(3)] show ?thesis
      by (auto simp: finds_def simp del: lookup_loop.simps intro!: exI [of _ "\<lambda>i. (Some i, acc)"])
  next
    case False
    then have "finds (\<lambda>e. yields (mounted lawful content V)
        (\<lambda>q. inode_from_snapshot src q (in_snapshot dir) (de_inode e))) (\<lambda>f. \<exists>acc. f = (\<lambda>i. (Some i, acc)))
      (in_snapshot dir) (None, acc @ (if ct then ts else [])) (find (\<lambda>e. de_name e = name) es)
      (yields (mounted lawful content V) (\<lambda>q. lookup_loop src (Suc n) index q dir name ct acc))"
      by (intro finds_mono [OF scanned_live.IH [of acc]] live) simp
    with False show ?thesis by simp
  qed
qed

lemma recovered_live:
  assumes wf: "volume_wf V" and q: "mounted lawful content V q"
    and r: "yields (mounted lawful content V) (\<lambda>q. next_record src q dir index) (Ok (off, Some p))"
    and p: "dr_inode p \<noteq> 0"
    and e: "yields (mounted lawful content V)
      (\<lambda>q. directory_entry_from_record src q p off (in_snapshot dir) deleted) (Ok e)"
    and k: "yields (mounted lawful content V) (\<lambda>q. if list_ex (matches_tombstone e) tss \<and> de_name e = name
          then and_do (inode_from_snapshot src q (in_snapshot dir) (de_inode e)) (\<lambda>i q. (Ok (Some i), q))
          else recovered_loop src n (Suc index) q dir name tss) out"
  shows "yields (mounted lawful content V) (\<lambda>q. recovered_loop src (Suc n) index q dir name tss) out"
proof (cases "list_ex (matches_tombstone e) tss")
  case False
  then have "\<not> list_ex (\<lambda>ts. tombstone_matches ts off (dr_name p)) tss"
    by (simp add: list_ex_iff entry_from_record(3) [OF wf q e])
  with False k yields_and_do [OF r, of _ "\<lambda>_. out"] show ?thesis by simp
next
  case True
  then have t: "list_ex (\<lambda>ts. tombstone_matches ts off (dr_name p)) tss"
    by (simp add: list_ex_iff entry_from_record(3) [OF wf q e])
  have "yields (mounted lawful content V) (\<lambda>q.
      and_do (directory_name_matches src q (in_snapshot dir) (dr_name p) name) (\<lambda>found q.
        if found then and_do (inode_from_snapshot src q (in_snapshot dir) (dr_inode p)) (\<lambda>inode q.
                     (Ok (Some inode), q))
        else recovered_loop src n (Suc index) q dir name tss)) (and_then (Ok (de_name e = name)) (\<lambda>_. out))"
    using entry_from_record(4) [OF wf q e] k [unfolded entry_from_record(1) [OF wf q e]] True
    by (intro yields_and_do) auto
  with p t yields_and_do [OF r, of _ "\<lambda>_. out"] show ?thesis by simp
qed

lemma scanned_recovered:
  assumes wf: "volume_wf V" and q: "mounted lawful content V q"
    and "scanned (\<lambda>i r. yields (mounted lawful content V) (\<lambda>q. next_record src q dir i) (Ok r))
        (\<lambda>p off e. yields (mounted lawful content V)
           (\<lambda>q. directory_entry_from_record src q p off (in_snapshot dir) deleted) (Ok e)) n index es ts"
  shows "finds (\<lambda>e. yields (mounted lawful content V)
        (\<lambda>q. inode_from_snapshot src q (in_snapshot dir) (de_inode e))) (\<lambda>f. f = Some)
      (in_snapshot dir) None (find (\<lambda>e. list_ex (matches_tombstone e) tss \<and> de_name e = name) es)
      (yields (mounted lawful content V) (\<lambda>q. recovered_loop src n index q dir name tss))"
  using assms(3)
proof induction
  case scanned_end
  show ?case by (simp add: finds_def yields_get)
next
  case (scanned_empty index off n es ts)
  show ?case
  proof (rule finds_mono [OF scanned_empty.IH])
    fix r
    assume "yields (mounted lawful content V) (\<lambda>q. recovered_loop src n (Suc index) q dir name tss) r"
    then show "yields (mounted lawful content V) (\<lambda>q. recovered_loop src (Suc n) index q dir name tss) r"
      using yields_and_do [OF scanned_empty.hyps(1), of _ "\<lambda>_. r"] by simp
  qed
next
  case (scanned_dead index off p n es ts)
  show ?case
  proof (rule finds_mono [OF scanned_dead.IH])
    fix r
    assume "yields (mounted lawful content V) (\<lambda>q. recovered_loop src n (Suc index) q dir name tss) r"
    then show "yields (mounted lawful content V) (\<lambda>q. recovered_loop src (Suc n) index q dir name tss) r"
      using yields_and_do [OF scanned_dead.hyps(1), of _ "\<lambda>_. r"] scanned_dead.hyps(2) by simp
  qed
next
  case (scanned_live index off p e n es ts)
  note live = recovered_live [OF wf q scanned_live.hyps(1,2,3)]
  show ?case
  proof (cases "list_ex (matches_tombstone e) tss \<and> de_name e = name")
    case True
    have "yields (mounted lawful content V) (\<lambda>q. recovered_loop src (Suc n) index q dir name tss)
        (and_then m (\<lambda>i. Ok (Some i)))"
      if "yields (mounted lawful content V) (\<lambda>q. inode_from_snapshot src q (in_snapshot dir) (de_inode e)) m" for m
      using True yields_and_do [OF that, of "\<lambda>i q. (Ok (Some i), q)" "\<lambda>i. Ok (Some i)"]
      by (intro live) (simp add: yields_get)
    with True entry_from_record(2) [OF wf q scanned_live.hyps(3)] show ?thesis
      by (auto simp: finds_def simp del: recovered_loop.simps)
  next
    case False
    have "finds (\<lambda>e. yields (mounted lawful content V)
        (\<lambda>q. inode_from_snapshot src q (in_snapshot dir) (de_inode e))) (\<lambda>f. f = Some)
      (in_snapshot dir) None (find (\<lambda>e. list_ex (matches_tombstone e) tss \<and> de_name e = name) es)
      (yields (mounted lawful content V) (\<lambda>q. recovered_loop src (Suc n) index q dir name tss))"
      using False by (intro finds_mono [OF scanned_live.IH] live) (simp only: if_False)
    with False show ?thesis by (simp only: find.simps if_False)
  qed
qed

text \<open>What a lookup answers, by what its steps answer.\<close>

lemma q_lookup_eq:
  "mounted lawful content V q \<Longrightarrow> q_lookup src q dir name =
    and_do (lookup_in_snapshot src q dir name
        (in_snapshot dir = vo_active V \<and> recovery_snapshot (ghost V) \<noteq> None)) (\<lambda>(found, tombstones) q.
           case found of
             Some inode \<Rightarrow> (Ok inode, q)
           | None \<Rightarrow>
               (if tombstones = [] then (Err NotFound, q)
                else
                  and_do (alternate_directory src q dir) (\<lambda>alternate q.
                    case alternate of
                      None \<Rightarrow> (Err NotFound, q)
                    | Some alternate \<Rightarrow>
                        and_do (ok (lookup_recovered src q alternate name tombstones)) (\<lambda>r q.
                          case r of
                            Some (Some inode) \<Rightarrow> (Ok inode, q)
                          | _ \<Rightarrow> (Err NotFound, q)))))"
  by (simp add: q_lookup_def Let_def mounted_ghost)

lemma yields_ok:
  assumes "yields I f r" and "answers r P"
  shows "yields I (\<lambda>s. ok (f s)) (case r of Ok a \<Rightarrow> Ok (Some a) | _ \<Rightarrow> Ok None)"
  using assms by (cases r) (force simp: yields_def)+

lemma q_lookup_yields:
  assumes wf: "volume_wf V"
    and l: "yields (mounted lawful content V) (\<lambda>q. lookup_in_snapshot src q dir name
        (in_snapshot dir = vo_active V \<and> recovery_snapshot (ghost V) \<noteq> None)) r"
  shows "r = and_then m (\<lambda>i. Ok (Some i, acc)) \<Longrightarrow>
      yields (mounted lawful content V) (\<lambda>q. q_lookup src q dir name) m"
    and "r = Ok (None, []) \<Longrightarrow> yields (mounted lawful content V) (\<lambda>q. q_lookup src q dir name) (Err NotFound)"
    and "r = Ok (None, ts) \<Longrightarrow> yields (mounted lawful content V) (\<lambda>q. alternate_directory src q dir) (Ok None) \<Longrightarrow>
      yields (mounted lawful content V) (\<lambda>q. q_lookup src q dir name) (Err NotFound)"
    and "r = Ok (None, ts) \<Longrightarrow> ts \<noteq> [] \<Longrightarrow>
      yields (mounted lawful content V) (\<lambda>q. alternate_directory src q dir) (Ok (Some alt)) \<Longrightarrow>
      yields (mounted lawful content V) (\<lambda>q. lookup_recovered src q alt name ts) out \<Longrightarrow> answers out P \<Longrightarrow>
      yields (mounted lawful content V) (\<lambda>q. q_lookup src q dir name)
        (case out of Ok (Some i) \<Rightarrow> Ok i | _ \<Rightarrow> Err NotFound)"
proof -
  have tail: "yields (mounted lawful content V) (\<lambda>q. q_lookup src q dir name) (and_then r h)"
    if "\<And>found ts. r = Ok (found, ts) \<Longrightarrow> yields (mounted lawful content V) (\<lambda>q.
         case found of
           Some inode \<Rightarrow> (Ok inode, q)
         | None \<Rightarrow>
             (if ts = [] then (Err NotFound, q)
              else
                and_do (alternate_directory src q dir) (\<lambda>alternate q.
                  case alternate of
                    None \<Rightarrow> (Err NotFound, q)
                  | Some alternate \<Rightarrow>
                      and_do (ok (lookup_recovered src q alternate name ts)) (\<lambda>r q.
                        case r of
                          Some (Some inode) \<Rightarrow> (Ok inode, q)
                        | _ \<Rightarrow> (Err NotFound, q))))) (h (found, ts))" for h
    apply (rule yields_cong [OF q_lookup_eq], assumption, rule yields_and_do [OF l])
    subgoal for x by (cases x) (simp only: prod.case that)
    done
  show "yields (mounted lawful content V) (\<lambda>q. q_lookup src q dir name) m"
    if "r = and_then m (\<lambda>i. Ok (Some i, acc))"
    using tail [of "\<lambda>(found, ts). case found of Some i \<Rightarrow> Ok i | None \<Rightarrow> Err NotFound"] that
    by (cases m) (auto intro!: yields_get)
  show "yields (mounted lawful content V) (\<lambda>q. q_lookup src q dir name) (Err NotFound)"
    if "r = Ok (None, [])"
    using tail [of "\<lambda>_. Err NotFound"] that by (auto intro!: yields_get)
  show "yields (mounted lawful content V) (\<lambda>q. q_lookup src q dir name) (Err NotFound)"
    if r: "r = Ok (None, ts)"
      and a: "yields (mounted lawful content V) (\<lambda>q. alternate_directory src q dir) (Ok None)"
  proof -
    have "yields (mounted lawful content V) (\<lambda>q. q_lookup src q dir name) (and_then r (\<lambda>_. Err NotFound))"
    proof (rule tail)
      fix found ts'
      assume "r = Ok (found, ts')"
      then have f: "found = None" using r by simp
      have none: "yields (mounted lawful content V) (\<lambda>q. and_do (alternate_directory src q dir) g) (Err NotFound)"
        if "yields (mounted lawful content V) (g None) (Err NotFound)" for g
        using yields_and_do [OF a, of g "\<lambda>_. Err NotFound"] that by simp
      show "yields (mounted lawful content V) (\<lambda>q. case found of
           Some inode \<Rightarrow> (Ok inode, q)
         | None \<Rightarrow>
             (if ts' = [] then (Err NotFound, q)
              else
                and_do (alternate_directory src q dir) (\<lambda>alternate q.
                  case alternate of
                    None \<Rightarrow> (Err NotFound, q)
                  | Some alternate \<Rightarrow>
                      and_do (ok (lookup_recovered src q alternate name ts')) (\<lambda>r q.
                        case r of
                          Some (Some inode) \<Rightarrow> (Ok inode, q)
                        | _ \<Rightarrow> (Err NotFound, q))))) (Err NotFound)"
        unfolding f by (cases "ts' = []") (auto intro!: none)
    qed
    with r show ?thesis by simp
  qed
  show "yields (mounted lawful content V) (\<lambda>q. q_lookup src q dir name)
      (case out of Ok (Some i) \<Rightarrow> Ok i | _ \<Rightarrow> Err NotFound)"
    if r: "r = Ok (None, ts)" "ts \<noteq> []" and a: "yields (mounted lawful content V)
        (\<lambda>q. alternate_directory src q dir) (Ok (Some alt))"
      and o: "yields (mounted lawful content V) (\<lambda>q. lookup_recovered src q alt name ts) out" "answers out P"
  proof -
    let ?res = "case out of Ok (Some i) \<Rightarrow> Ok i | _ \<Rightarrow> Err NotFound"
    have "yields (mounted lawful content V) (\<lambda>q. and_do (ok (lookup_recovered src q alt name ts)) (\<lambda>r q.
        case r of Some (Some inode) \<Rightarrow> (Ok inode, q) | _ \<Rightarrow> (Err NotFound, q)))
        (and_then (case out of Ok a \<Rightarrow> Ok (Some a) | _ \<Rightarrow> Ok None)
          (\<lambda>r. case r of Some (Some i) \<Rightarrow> Ok i | _ \<Rightarrow> Err NotFound))"
      by (intro yields_and_do [OF yields_ok [OF o]] yields_option yields_get) simp_all
    moreover have "and_then (case out of Ok a \<Rightarrow> Ok (Some a) | _ \<Rightarrow> Ok None)
          (\<lambda>r. case r of Some (Some i) \<Rightarrow> Ok i | _ \<Rightarrow> Err NotFound) = ?res"
      by (cases out) simp_all
    ultimately show ?thesis
      using tail [of "\<lambda>_. ?res"] r yields_and_do [OF a, of _ "\<lambda>_. ?res"] by simp
  qed
qed

lemma read_directory_snapshot_scanned:
  assumes wf: "volume_wf V" and q: "mounted lawful content V q" and d: "tree_wf (in_tree dir)"
    and "yields (mounted lawful content V) (\<lambda>q. read_directory_snapshot src q dir ct deleted) (Ok (es, ts))"
  obtains count ts' where "directory_entry_count dir = Ok count" and "ts = (if ct then ts' else [])"
    and "scanned (\<lambda>i r. yields (mounted lawful content V) (\<lambda>q. next_record src q dir i) (Ok r))
        (\<lambda>p off e. yields (mounted lawful content V)
           (\<lambda>q. directory_entry_from_record src q p off (in_snapshot dir) deleted) (Ok e)) count 0 es ts'"
proof -
  obtain count where c: "directory_entry_count dir = Ok count"
    using yieldsD [OF assms(4) q] by (cases "directory_entry_count dir") (auto simp: read_directory_snapshot_def)
  then show thesis
    using listing_scanned [OF wf q d, of count 0 ct deleted "[]" "[]" es ts] assms(4) that
    by (auto simp: read_directory_snapshot_def)
qed

lemma lookup_of_listing:
  assumes wf: "volume_wf V" and q: "mounted lawful content V q" and d: "tree_wf (in_tree dir)"
    and l: "yields (mounted lawful content V) (\<lambda>q. read_directory_snapshot src q dir
        (in_snapshot dir = vo_active V \<and> recovery_snapshot (ghost V) \<noteq> None) deleted) (Ok (es, ts))"
  shows "finds (\<lambda>e. yields (mounted lawful content V) (\<lambda>q. directory_entry_inode src q e))
      (\<lambda>f. \<exists>acc. f = (\<lambda>i. (Some i, acc))) (in_snapshot dir) (None, ts) (find (\<lambda>e. de_name e = name) es)
      (yields (mounted lawful content V) (\<lambda>q. lookup_in_snapshot src q dir name
        (in_snapshot dir = vo_active V \<and> recovery_snapshot (ghost V) \<noteq> None)))"
proof -
  let ?ct = "in_snapshot dir = vo_active V \<and> recovery_snapshot (ghost V) \<noteq> None"
  obtain count ts' where c: "directory_entry_count dir = Ok count" and ts: "ts = (if ?ct then ts' else [])"
    and s: "scanned (\<lambda>i r. yields (mounted lawful content V) (\<lambda>q. next_record src q dir i) (Ok r))
        (\<lambda>p off e. yields (mounted lawful content V)
           (\<lambda>q. directory_entry_from_record src q p off (in_snapshot dir) deleted) (Ok e)) count 0 es ts'"
    by (rule read_directory_snapshot_scanned [OF wf q d l])
  have eq: "(\<lambda>q. lookup_in_snapshot src q dir name ?ct) = (\<lambda>q. lookup_loop src count 0 q dir name ?ct [])"
    by (simp add: lookup_in_snapshot_def c)
  from scanned_lookup [OF wf q s, where name = name and ct = ?ct and acc = "[]"] show ?thesis
    unfolding eq ts by (auto simp: finds_def directory_entry_inode_def split: option.splits)
qed

lemma recovered_of_listing:
  assumes wf: "volume_wf V" and q: "mounted lawful content V q" and d: "tree_wf (in_tree dir)"
    and l: "yields (mounted lawful content V) (\<lambda>q. read_directory_snapshot src q dir ct deleted) (Ok (es, ts))"
  shows "finds (\<lambda>e. yields (mounted lawful content V) (\<lambda>q. directory_entry_inode src q e)) (\<lambda>f. f = Some)
      (in_snapshot dir) None (find (\<lambda>e. list_ex (matches_tombstone e) tss \<and> de_name e = name) es)
      (yields (mounted lawful content V) (\<lambda>q. lookup_recovered src q dir name tss))"
proof -
  obtain count ts' where c: "directory_entry_count dir = Ok count"
    and s: "scanned (\<lambda>i r. yields (mounted lawful content V) (\<lambda>q. next_record src q dir i) (Ok r))
        (\<lambda>p off e. yields (mounted lawful content V)
           (\<lambda>q. directory_entry_from_record src q p off (in_snapshot dir) deleted) (Ok e)) count 0 es ts'"
    by (rule read_directory_snapshot_scanned [OF wf q d l])
  have eq: "(\<lambda>q. lookup_recovered src q dir name tss) = (\<lambda>q. recovered_loop src count 0 q dir name tss)"
    by (simp add: lookup_recovered_def c)
  from scanned_recovered [OF wf q s, where name = name and tss = tss] show ?thesis
    unfolding eq by (auto simp: finds_def directory_entry_inode_def split: option.splits)
qed

lemma read_directory_eq:
  "mounted lawful content V q \<Longrightarrow> read_directory src q dir =
    and_do (read_directory_snapshot src q dir
        (in_snapshot dir = vo_active V \<and> recovery_snapshot (ghost V) \<noteq> None) (in_snapshot dir \<noteq> vo_active V))
      (\<lambda>(entries, tombstones) q.
           if tombstones = [] then (Ok entries, q)
           else
             and_do (alternate_directory src q dir) (\<lambda>alternate q.
               case alternate of
                 None \<Rightarrow> (Ok entries, q)
               | Some alternate \<Rightarrow>
                   and_do (ok (read_directory_snapshot src q alternate False True)) (\<lambda>recovered q.
                     case recovered of
                       None \<Rightarrow> (Ok entries, q)
                     | Some (recovered, _) \<Rightarrow> (Ok (add_recovered tombstones entries recovered), q))))"
  by (simp add: read_directory_def Let_def mounted_ghost)

text \<open>A listing is the directory's own entries and those recovered from the alternate.\<close>

lemma read_directory_parts:
  assumes wf: "volume_wf V" and q: "mounted lawful content V q" and d: "tree_wf (in_tree dir)"
    and l: "read_directory src q dir = (Ok entries, q1)"
  obtains es ts where "yields (mounted lawful content V) (\<lambda>q. read_directory_snapshot src q dir
        (in_snapshot dir = vo_active V \<and> recovery_snapshot (ghost V) \<noteq> None) (in_snapshot dir \<noteq> vo_active V))
        (Ok (es, ts))"
    and "ts = [] \<Longrightarrow> entries = es"
    and "yields (mounted lawful content V) (\<lambda>q. alternate_directory src q dir) (Ok None) \<Longrightarrow> entries = es"
    and "\<And>alt rec ts2. ts \<noteq> [] \<Longrightarrow>
      yields (mounted lawful content V) (\<lambda>q. alternate_directory src q dir) (Ok (Some alt)) \<Longrightarrow>
      yields (mounted lawful content V) (\<lambda>q. read_directory_snapshot src q alt False True) (Ok (rec, ts2)) \<Longrightarrow>
      entries = add_recovered ts es rec"
proof -
  let ?ct = "in_snapshot dir = vo_active V \<and> recovery_snapshot (ghost V) \<noteq> None"
    and ?del = "in_snapshot dir \<noteq> vo_active V"
  obtain r q' where r: "read_directory_snapshot src q dir ?ct ?del = (r, q')" "mounted lawful content V q'"
    "yields (mounted lawful content V) (\<lambda>q. read_directory_snapshot src q dir ?ct ?del) r"
    by (rule settlesE [OF read_directory_snapshot_settles [OF wf d] q])
  obtain es ts where o: "r = Ok (es, ts)" using l r(1) unfolding read_directory_eq [OF q] by (cases r) auto
  note l' = l [unfolded read_directory_eq [OF q] r(1) o and_do.simps prod.case]
  show thesis
  proof (rule that [OF r(3) [unfolded o]])
    show "entries = es" if "ts = []" using l' that by simp
    show "entries = es" if "yields (mounted lawful content V) (\<lambda>q. alternate_directory src q dir) (Ok None)"
      using l' yieldsD [OF that r(2)] by (auto split: if_splits)
    show "entries = add_recovered ts es rec" if ne: "ts \<noteq> []"
      and a: "yields (mounted lawful content V) (\<lambda>q. alternate_directory src q dir) (Ok (Some alt))"
      and s: "yields (mounted lawful content V) (\<lambda>q. read_directory_snapshot src q alt False True) (Ok (rec, ts2))"
      for alt rec ts2
    proof -
      obtain qa where qa: "alternate_directory src q' dir = (Ok (Some alt), qa)" "mounted lawful content V qa"
        using yieldsD [OF a r(2)] by blast
      obtain qs where "read_directory_snapshot src qa alt False True = (Ok (rec, ts2), qs)"
        using yieldsD [OF s qa(2)] by blast
      with l' ne qa show ?thesis by simp
    qed
  qed
qed

lemma alternate_directory_Ok:
  assumes wf: "volume_wf V" and q: "mounted lawful content V q"
  obtains alt where "yields (mounted lawful content V) (\<lambda>q. alternate_directory src q dir) (Ok alt)"
    and "\<And>i. alt = Some i \<Longrightarrow> tree_wf (in_tree i) \<and> in_snapshot i \<noteq> vo_active V"
proof -
  obtain r q' where r: "alternate_directory src q dir = (r, q')"
    "answers r (\<lambda>alt. \<forall>i. alt = Some i \<longrightarrow> tree_wf (in_tree i) \<and> in_snapshot i \<noteq> vo_active V)"
    "yields (mounted lawful content V) (\<lambda>q. alternate_directory src q dir) r"
    by (rule settlesE [OF alternate_directory_settles [OF wf] q])
  have "r \<noteq> Err e" for e
  proof (cases "recovery_snapshot q")
    case (Some snapshot)
    show ?thesis
    proof (cases "inode_from_snapshot src q snapshot (in_number dir)")
      case (Pair m q'')
      with r(1) Some show ?thesis
        by (cases m) (auto simp: alternate_directory_def split: if_splits)
    qed
  qed (use r(1) in \<open>auto simp: alternate_directory_def split: if_splits\<close>)
  with r(2) obtain alt where "r = Ok alt" by (auto simp: answers_def)
  with r that show thesis by auto
qed

lemma lookup_agrees:
  assumes wf: "volume_wf V" and q: "mounted lawful content V q" and d: "tree_wf (in_tree dir)"
    and l: "read_directory src q dir = (Ok entries, q1)"
    and a: "\<And>alt. yields (mounted lawful content V) (\<lambda>q. alternate_directory src q dir) (Ok (Some alt)) \<Longrightarrow>
      \<exists>listing. yields (mounted lawful content V) (\<lambda>q. read_directory_snapshot src q alt False True) (Ok listing)"
  shows "case find (\<lambda>e. de_name e = name) entries of
      None \<Rightarrow> yields (mounted lawful content V) (\<lambda>q. q_lookup src q dir name) (Err NotFound)
    | Some e \<Rightarrow> \<forall>m. yields (mounted lawful content V) (\<lambda>q. directory_entry_inode src q e) m \<longrightarrow>
        yields (mounted lawful content V) (\<lambda>q. q_lookup src q dir name)
          (if de_snapshot e = in_snapshot dir then m else case m of Ok i \<Rightarrow> Ok i | _ \<Rightarrow> Err NotFound)"
proof -
  let ?I = "mounted lawful content V"
  let ?ct = "in_snapshot dir = vo_active V \<and> recovery_snapshot (ghost V) \<noteq> None"
  let ?find = "find (\<lambda>e. de_name e = name)"
  obtain es ts where p: "yields ?I (\<lambda>q. read_directory_snapshot src q dir ?ct (in_snapshot dir \<noteq> vo_active V)) (Ok (es, ts))"
    "ts = [] \<Longrightarrow> entries = es" "yields ?I (\<lambda>q. alternate_directory src q dir) (Ok None) \<Longrightarrow> entries = es"
    "\<And>alt rec ts2. ts \<noteq> [] \<Longrightarrow> yields ?I (\<lambda>q. alternate_directory src q dir) (Ok (Some alt)) \<Longrightarrow>
      yields ?I (\<lambda>q. read_directory_snapshot src q alt False True) (Ok (rec, ts2)) \<Longrightarrow>
      entries = add_recovered ts es rec"
    by (rule read_directory_parts [OF wf q d l]) blast
  note own = lookup_of_listing [OF wf q d p(1), where name = name]
  obtain alt where alt: "yields ?I (\<lambda>q. alternate_directory src q dir) (Ok alt)"
    "\<And>i. alt = Some i \<Longrightarrow> tree_wf (in_tree i) \<and> in_snapshot i \<noteq> vo_active V"
    by (rule alternate_directory_Ok [OF wf q, where dir = dir]) blast
  show ?thesis
  proof (cases "?find es")
    case (Some e)
    have "?find entries = Some e"
    proof (cases "ts = [] \<or> alt = None")
      case True
      with p(2,3) alt(1) Some show ?thesis by auto
    next
      case False
      then obtain i rec ts2 where "alt = Some i" "ts \<noteq> []"
        "yields ?I (\<lambda>q. read_directory_snapshot src q i False True) (Ok (rec, ts2))"
        using a alt(1) by (metis option.exhaust surj_pair)
      with p(4) alt(1) Some show ?thesis by (simp add: find_add_recovered)
    qed
    moreover have "de_snapshot e = in_snapshot dir" using own Some by (simp add: finds_def)
    moreover have "yields ?I (\<lambda>q. q_lookup src q dir name) m"
      if m: "yields ?I (\<lambda>q. directory_entry_inode src q e) m" for m
    proof -
      obtain acc where "yields ?I (\<lambda>q. lookup_in_snapshot src q dir name ?ct)
          (and_then m (\<lambda>i. Ok (Some i, acc)))"
        using own m unfolding finds_def Some option.case by blast
      from q_lookup_yields(1) [OF wf this refl] show ?thesis .
    qed
    ultimately show ?thesis by simp
  next
    case None
    then have missing: "yields ?I (\<lambda>q. lookup_in_snapshot src q dir name ?ct) (Ok (None, ts))"
      using own by (simp add: finds_def)
    show ?thesis
    proof (cases "ts = [] \<or> alt = None")
      case True
      with p(2,3) alt(1) None have "?find entries = None" by auto
      with True q_lookup_yields(2,3) [OF wf missing] alt(1) show ?thesis by auto
    next
      case False
      then obtain i rec ts2 where i: "alt = Some i" "ts \<noteq> []"
        and s: "yields ?I (\<lambda>q. read_directory_snapshot src q i False True) (Ok (rec, ts2))"
        using a alt(1) by (metis option.exhaust surj_pair)
      have e: "?find entries = find (\<lambda>e. list_ex (matches_tombstone e) ts \<and> de_name e = name) rec"
        using p(4) [OF i(2) _ s] alt(1) i(1) None by (simp add: find_add_recovered)
      obtain ts' where "ts = (if ?ct then ts' else [])"
        by (rule read_directory_snapshot_scanned [OF wf q d p(1)])
      with i(2) have ct: "in_snapshot dir = vo_active V" by (auto split: if_splits)
      have t: "tree_wf (in_tree i)" "in_snapshot i \<noteq> in_snapshot dir" using alt(2) i(1) ct by auto
      note rec = recovered_of_listing [OF wf q t(1) s, where tss = ts and name = name]
        and found = q_lookup_yields(4) [OF wf missing refl i(2) alt(1) [unfolded i(1)]]
      show ?thesis
      proof (cases "?find entries")
        case n: None
        then have "yields ?I (\<lambda>q. lookup_recovered src q i name ts) (Ok None)"
          using rec e by (simp add: finds_def)
        from found [OF this] n show ?thesis by simp
      next
        case (Some x)
        then have x: "find (\<lambda>e. list_ex (matches_tombstone e) ts \<and> de_name e = name) rec = Some x"
          using e by simp
        have "yields ?I (\<lambda>q. q_lookup src q dir name) (case m of Ok i \<Rightarrow> Ok i | _ \<Rightarrow> Err NotFound)"
          if m: "yields ?I (\<lambda>q. directory_entry_inode src q x) m" for m
        proof -
          have r: "yields ?I (\<lambda>q. lookup_recovered src q i name ts) (and_then m (\<lambda>i. Ok (Some i)))"
            using rec m unfolding finds_def x option.case by blast
          have "answers m (\<lambda>_. True)"
            by (rule yields_answers [OF m _ q]) (auto simp: directory_entry_inode_def
                intro: settles_mono [OF inode_from_snapshot_settles [OF wf]])
          with found [OF r, where P = "\<lambda>_. True"] show ?thesis by (cases m) simp_all
        qed
        moreover have "de_snapshot x = in_snapshot i" using rec by (simp add: finds_def x)
        ultimately show ?thesis using Some t(2) by simp
      qed
    qed
  qed
qed

end

end
