(* ===== verification/Qnx6_Properties.thy ===== *)
theory Qnx6_Properties
  imports Qnx6_Checks Qnx6_Mount Qnx6_Agreement
begin

text \<open>
  The properties of the QNX6 driver, each with a witness on a small volume: one directory with
  the file \<open>a\<close>, which holds the three bytes 1, 2, 3.
\<close>

section \<open>A sample volume\<close>

definition sample_inodes :: bytes where
  "sample_inodes =
     32 # replicate 31 0 @ [0xED, 0x41, 0, 0, 1, 0, 0, 0] @ replicate 88 0
     @ 3 # replicate 31 0 @ [0xA4, 0x81, 0, 0, 2, 0, 0, 0] @ replicate 88 0"

definition sample_bytes :: bytes where
  "sample_bytes =
     replicate 0x2000 0 @ sample_superblock_bytes @ replicate 3584 0
     @ sample_inodes @ replicate 256 0
     @ [2, 0, 0, 0, 1, 0x61] @ replicate 506 0
     @ [1, 2, 3] @ replicate 1021 0"

definition sample_volume :: volume where
  "sample_volume = \<lparr>vo_bytes = sample_bytes, vo_superblock = sample_superblock, vo_active = Primary,
     vo_alternate = None, vo_secondary_offset = 0x3800\<rparr>"

definition sample_state :: "cursor qnx6" where
  "sample_state =
     \<lparr>q_reader = \<lparr>cur_bytes = sample_bytes, cur_pos = 7\<rparr>,
      q_pointer_cache = replicate 5 \<lparr>bc_block_size = 512, bc_start = None, bc_bytes = []\<rparr>,
      q_superblock = sample_superblock, q_active_copy = Primary, q_alternate = None,
      q_primary_valid = True, q_secondary_valid = False, q_secondary_offset = 0x3800,
      q_source_length = 0x3800\<rparr>"

definition sample_tree :: "u64 \<Rightarrow> u32 \<Rightarrow> tree_descriptor" where
  "sample_tree n b = \<lparr>td_size = n, td_pointers = b # replicate 15 0, td_levels = 0\<rparr>"

definition sample_inode :: "u32 \<Rightarrow> u64 \<Rightarrow> u32 \<Rightarrow> u16 \<Rightarrow> qnx6_inode" where
  "sample_inode k n b mode =
     \<lparr>in_number = k, in_snapshot = Primary, in_tree = sample_tree n b, in_uid = 0, in_gid = 0,
      in_created_time = 0, in_modified_time = 0, in_accessed_time = 0, in_changed_time = 0,
      in_mode = mode, in_extended_mode = 0, in_status = 0\<rparr>"

abbreviation "sample_dir \<equiv> sample_inode 1 32 1 0x41ED"
abbreviation "sample_file \<equiv> sample_inode 2 3 2 0x81A4"

lemma length_sample: "length sample_inodes = 256" "length sample_bytes = 0x3800"
  by (simp_all add: sample_inodes_def sample_bytes_def)

lemma sample_wf: "volume_wf sample_volume" "superblock_wf sample_superblock"
  using superblock_from_bytes_answers [of sample_superblock_bytes]
  by (simp_all add: volume_wf_def sample_volume_def length_sample sample_superblock_accepted)

lemma sample_mounted: "mounted cursor_inv cur_bytes sample_volume sample_state"
  by (simp add: mounted_def sample_state_def sample_volume_def cursor_inv_def length_sample cache_inv_def
      QNX6_MAX_LEVELS_def sample_superblock_def)

lemma sample_inode_wf: "tree_wf (in_tree (sample_inode k n b mode))"
  by (simp add: sample_inode_def sample_tree_def tree_wf_def QNX6_MAX_LEVELS_def)

lemma sample_file_types: "is_directory sample_dir" "\<not> is_directory sample_file"
  by (simp_all add: is_directory_def inode_file_type_def sample_inode_def Let_def)

text \<open>Reads within the one block of a small tree.\<close>

lemma sample_block_size: "vo_block_size sample_volume = 512"
  by (simp add: vo_block_size_def sample_volume_def sample_superblock_def)

lemma sample_read:
  assumes "b < 4" and "td_levels d = 0" and "td_pointers d ! 0 = b"
    and "off + n \<le> unat (td_size d)" and "off + n \<le> 512"
  shows "v_exact sample_volume d off n = Ok (slice sample_bytes (0x3000 + unat b * 512 + off) n)"
proof (cases "n = 0")
  case False
  have block: "v_block sample_volume d 0 = Ok (Some b)"
    using assms(1-3) by (auto simp: v_block_def sample_volume_def sample_superblock_def QNX6_UNUSED_BLOCK_def)
  have "unat b < 4" using assms(1) by (simp add: word_less_nat_alt)
  then have fits: "0x3000 + unat b * 512 + off + n \<le> length sample_bytes"
    using assms(5) by (simp add: length_sample)
  have m: "min (unat (td_size d) - off) n = n" using assms(4) by simp
  have "v_range sample_volume d off n = Ok (slice sample_bytes (0x3000 + unat b * 512 + off) n)"
    using v_chunk [of n off sample_volume d 0] assms(5) False fits
    by (simp add: v_range_def m block sample_block_size vo_block_offset_def) (simp add: sample_volume_def)
  then show ?thesis using fits by (simp add: v_exact_def)
qed (use assms in \<open>simp add: v_exact_def v_range_def\<close>)

lemma sample_contents:
  "slice sample_bytes 0x3000 128 = take 128 sample_inodes"
  "slice sample_bytes 0x3080 128 = drop 128 sample_inodes"
  "slice sample_bytes 0x3200 32 = [2, 0, 0, 0, 1, 0x61] @ replicate 26 0"
  "slice sample_bytes 0x3400 3 = [1, 2, 3]"
  "slice sample_bytes 0x3401 2 = [2, 3]"
  by (simp_all add: sample_bytes_def slice_def length_sample)

lemma zero_pointers:
  assumes "\<forall>off \<ge> k. off + 4 \<le> length bs \<longrightarrow> slice bs off 4 = replicate 4 0"
  shows "k \<le> off \<Longrightarrow> off + 4 * n \<le> length bs \<Longrightarrow> read_pointers Little bs off n = Ok (replicate n 0)"
  using assms by (induction n arbitrary: off) (simp_all add: read_u32_ok from_le_bytes_def)

lemma sample_inode_parse:
  fixes lo m0 m1 b :: u8
  defines "bs \<equiv> lo # replicate 31 0 @ [m0, m1, 0, 0, b, 0, 0, 0] @ replicate 88 0"
  shows "inode_from_bytes k Primary bs Little
    = Ok (sample_inode k (word_of_nat (unat lo)) (word_of_nat (unat b)) (word_of_nat (unat m0 + 256 * unat m1)))"
proof -
  have len: "length bs = 128" by (simp add: bs_def)
  have low: "slice bs off 4 = replicate 4 0" if "1 \<le> off" "off + 4 \<le> 32" for off
  proof (rule nth_equalityI)
    fix i
    assume "i < length (slice bs off 4)"
    then show "slice bs off 4 ! i = replicate 4 0 ! i"
      using that by (auto simp: bs_def nth_Cons' nth_append)
  qed (use that in \<open>simp add: len\<close>)
  have high: "\<forall>off \<ge> 40. off + 4 \<le> length bs \<longrightarrow> slice bs off 4 = replicate 4 0"
    by (auto simp: bs_def slice_def drop_Cons' min_def)
  have parts: "slice bs 0 8 = lo # replicate 7 0" "slice bs 32 2 = [m0, m1]" "slice bs 34 2 = [0, 0]"
    "slice bs 36 4 = [b, 0, 0, 0]" "bs ! 100 = 0" "bs ! 101 = 0"
    by (simp_all add: bs_def slice_def nth_Cons' nth_append)
  have "read_pointers Little bs 36 (Suc 15) = Ok (word_of_nat (unat b) # replicate 15 0)"
    using zero_pointers [OF high, of 40 15]
    by (simp only: read_pointers.simps) (simp add: read_u32_ok len parts from_le_bytes_def)
  then have p: "read_pointers Little bs 36 16 = Ok (word_of_nat (unat b) # replicate 15 0)" by simp
  show ?thesis
    by (simp add: inode_from_bytes_def tree_parse_def p index_at_def len parts read_u64_ok read_u32_ok
        read_u16_ok low from_le_bytes_def sample_inode_def sample_tree_def QNX6_MAX_LEVELS_def)
qed

lemma sample_ghost: "superblock_for (ghost sample_volume) Primary = Ok sample_superblock"
  by (simp add: superblock_for_def ghost_def sample_volume_def)

lemma sample_inode_bytes:
  "v_exact sample_volume (rn_tree (sb_inode_root sample_superblock)) 0 128
    = Ok (32 # replicate 31 0 @ [0xED, 0x41, 0, 0, 1, 0, 0, 0] @ replicate 88 0)"
  "v_exact sample_volume (rn_tree (sb_inode_root sample_superblock)) 128 128
    = Ok (3 # replicate 31 0 @ [0xA4, 0x81, 0, 0, 2, 0, 0, 0] @ replicate 88 0)"
  using sample_read [of 0 "rn_tree (sb_inode_root sample_superblock)" 0 128] sample_contents(1)
    sample_read [of 0 "rn_tree (sb_inode_root sample_superblock)" 128 128] sample_contents(2)
  by (simp_all add: sample_superblock_def sample_inodes_def)

text \<open>The sample volume, read through any reader that serves its bytes.\<close>

context byte_reader
begin

lemma sample_inode_yields:
  assumes "v_exact sample_volume (rn_tree (sb_inode_root sample_superblock)) off 128 = Ok bs"
    and "inode_from_bytes k Primary bs Little = Ok i" and "k \<noteq> 0" "k \<le> 2" "off = (unat k - 1) * 128"
  shows "yields (mounted lawful content sample_volume) (\<lambda>q. inode_from_snapshot src q Primary k) (Ok i)"
proof -
  have "yields (mounted lawful content sample_volume)
      (\<lambda>q. and_do (superblock_for q Primary, q) (\<lambda>sb q.
        and_do (read_tree_exact src q (rn_tree (sb_inode_root sample_superblock)) off 128) (\<lambda>bs q.
          (inode_from_bytes k Primary bs Little, q))))
      (and_then (Ok sample_superblock) (\<lambda>_.
        and_then (v_exact sample_volume (rn_tree (sb_inode_root sample_superblock)) off 128) (\<lambda>bs.
          inode_from_bytes k Primary bs Little)))"
    by (intro yields_and_do yields_get read_tree_exact_yields sample_wf refl)
      (simp_all add: mounted_ghost sample_ghost superblock_wf_trees sample_wf)
  then have "yields (mounted lawful content sample_volume)
      (\<lambda>q. and_do (superblock_for q Primary, q) (\<lambda>sb q.
        and_do (read_tree_exact src q (rn_tree (sb_inode_root sample_superblock)) off 128) (\<lambda>bs q.
          (inode_from_bytes k Primary bs Little, q)))) (Ok i)"
    by (simp add: assms(1,2))
  moreover have "\<not> 16 < k" "\<not> Suc 0 < unat k - Suc 0"
    using assms(4) by (auto simp: word_le_nat_alt word_less_nat_alt)
  ultimately show ?thesis
    by (elim yields_cong [rotated]) (simp add: inode_from_snapshot_def mounted_ghost sample_ghost assms(3,5)
        QNX6_INODE_SIZE_def checked_mul64_def checked_add64_def sample_superblock_def Let_def)
qed

lemma sample_inodes_yield:
  "yields (mounted lawful content sample_volume) (\<lambda>q. inode_from_snapshot src q Primary 1) (Ok sample_dir)"
  "yields (mounted lawful content sample_volume) (\<lambda>q. inode_from_snapshot src q Primary 2) (Ok sample_file)"
  using sample_inode_yields [OF sample_inode_bytes(1), of 1 sample_dir]
    sample_inode_yields [OF sample_inode_bytes(2), of 2 sample_file]
    sample_inode_parse [of 1 32 "0xED" "0x41" 1] sample_inode_parse [of 2 3 "0xA4" "0x81" 2]
  by simp_all

lemma sample_record_yields:
  "yields (mounted lawful content sample_volume)
    (\<lambda>q. next_record src q sample_dir 0) (Ok (0, Some \<lparr>dr_inode = 2, dr_name = Short [0x61]\<rparr>))"
proof -
  let ?rec = "2 # 0 # 0 # 0 # 1 # 0x61 # replicate 26 0 :: bytes"
  have bs: "v_exact sample_volume (in_tree sample_dir) 0 32 = Ok ?rec"
    using sample_read [of 1 "in_tree sample_dir" 0 32] sample_contents(3)
    by (simp add: sample_inode_def sample_tree_def)
  have parse: "parse_directory_record (ghost sample_volume) ?rec 0 Primary
      = Ok (Some \<lparr>dr_inode = 2, dr_name = Short [0x61]\<rparr>)"
    by (simp add: parse_directory_record_def sample_ghost read_u32_ok index_at_def subslice_def slice_def
        sample_superblock_def from_le_bytes_def SHORT_NAME_MAX_def)
  have "yields (mounted lawful content sample_volume)
      (\<lambda>q. and_do (read_tree_exact src q (in_tree sample_dir) 0 32) (\<lambda>rec q.
        and_do (parse_directory_record q rec 0 Primary, q) (\<lambda>parsed q. (Ok (0, parsed), q))))
      (and_then (v_exact sample_volume (in_tree sample_dir) 0 32) (\<lambda>rec.
        and_then (parse_directory_record (ghost sample_volume) rec 0 Primary) (\<lambda>parsed. Ok (0, parsed))))"
    by (intro yields_and_do yields_get read_tree_exact_yields sample_wf sample_inode_wf refl)
      (simp_all add: mounted_ghost)
  then show ?thesis
    by (simp add: bs parse next_record_def checked_mul64_def DIRECTORY_ENTRY_SIZE_def) (simp add: sample_inode_def)
qed

lemma sample_root: 
  assumes "mounted lawful content sample_volume q"
  shows "\<exists>q'. root_inode src q = (Ok sample_dir, q') \<and> mounted lawful content sample_volume q'"
  using yieldsD [OF sample_inodes_yield(1) assms] assms
  by (simp add: root_inode_def q_inode_def QNX6_ROOT_INODE_def mounted_ghost(3)) (simp add: sample_volume_def)

lemma sample_resolves:
  assumes "mounted lawful content sample_volume q"
  shows "\<exists>q'. resolve_path src q [0x2F, 0x61] = (Ok sample_file, q')"
proof -
  obtain q1 where q1: "root_inode src q = (Ok sample_dir, q1)" "mounted lawful content sample_volume q1"
    using sample_root [OF assms] by blast
  obtain q2 where q2: "next_record src q1 sample_dir 0 = (Ok (0, Some \<lparr>dr_inode = 2, dr_name = Short [0x61]\<rparr>), q2)"
    "mounted lawful content sample_volume q2"
    using yieldsD [OF sample_record_yields q1(2)] by blast
  obtain q3 where q3: "inode_from_snapshot src q2 Primary 2 = (Ok sample_file, q3)"
    using yieldsD [OF sample_inodes_yield(2) q2(2)] by blast
  have c: "directory_entry_count sample_dir = Ok (Suc 0)" "in_snapshot sample_dir = Primary"
    using sample_file_types(1)
    by (simp_all add: directory_entry_count_def) (simp_all add: sample_inode_def sample_tree_def DIRECTORY_ENTRY_SIZE_def)
  have "lookup_in_snapshot src q1 sample_dir [0x61] t = (Ok (Some sample_file, []), q3)" for t
    by (simp add: lookup_in_snapshot_def c q2(1) q3 directory_name_matches_def)
  then show ?thesis
    by (simp add: resolve_path_def q1(1) path_components_def q_lookup_def Let_def)
qed

end

lemma sample_superblocks:
  "superblock_at sample_bytes QNX6_BOOT_AREA_SIZE = Some sample_superblock"
  "trailing_offset sample_bytes = 0x3800" "trailing_superblock sample_bytes = None"
proof -
  have "slice sample_bytes 0x2000 0x200 = sample_superblock_bytes"
    by (simp add: sample_bytes_def slice_def)
  then show p: "superblock_at sample_bytes QNX6_BOOT_AREA_SIZE = Some sample_superblock"
    by (simp add: superblock_at_def QNX6_BOOT_AREA_SIZE_def QNX6_SUPERBLOCK_SIZE_def length_sample
        sample_superblock_accepted)
  show t: "trailing_offset sample_bytes = 0x3800"
    by (simp add: trailing_offset_def p)
      (simp add: QNX6_DATA_AREA_OFFSET_def QNX6_BOOT_AREA_SIZE_def QNX6_SUPERBLOCK_AREA_SIZE_def sample_superblock_def)
  show "trailing_superblock sample_bytes = None"
    by (simp add: trailing_superblock_def t superblock_at_def length_sample QNX6_SUPERBLOCK_SIZE_def)
qed

context byte_source
begin

lemma sample_mounts:
  assumes "lawful s" and c: "content s = sample_bytes"
  shows "\<exists>q s'. qnx6_new src s = (Ok q, s') \<and> mounted lawful content sample_volume q"
proof -
  have V: "\<lparr>vo_bytes = content s, vo_superblock = sample_superblock, vo_active = Primary, vo_alternate = None,
      vo_secondary_offset = trailing_offset (content s)\<rparr> = sample_volume"
    by (simp add: c sample_superblocks sample_volume_def)
  obtain q r q' where "mounted lawful content sample_volume q" "root_inode src q = (r, q')"
    "mounted lawful content sample_volume q'"
    "qnx6_new src s = and_do (r, q_reader q') (\<lambda>inode s.
      if is_directory inode then (Ok q', s) else (Err RootNotDirectory, s))"
    by (rule qnx6_new_run [of s sample_superblock Primary None, unfolded V])
      (simp_all add: assms sample_superblocks)
  with sample_root sample_file_types(1) show ?thesis by fastforce
qed

end

lemma sample_file_range: "v_range sample_volume (in_tree sample_file) 1 10 = Ok [2, 3]"
proof -
  have "v_exact sample_volume (in_tree sample_file) 1 2 = Ok [2, 3]"
    using sample_read [of 2 "in_tree sample_file" 1 2] sample_contents(5)
    by (simp add: sample_inode_def sample_tree_def)
  then have "v_range sample_volume (in_tree sample_file) 1 2 = Ok [2, 3]"
    by (auto simp: v_exact_def and_then_eq_Ok_iff split: if_splits)
  then show ?thesis by (simp add: v_range_def sample_inode_def sample_tree_def)
qed

definition sample_entry :: directory_entry where
  "sample_entry = \<lparr>de_inode = 2, de_name = [0x61], de_long_name_index = None, de_checksum_valid = None,
     de_stored_checksum = None, de_record_offset = 0, de_snapshot = Primary, de_deleted = False\<rparr>"

lemma sample_listing: "\<exists>q'. read_directory cursor_source sample_state sample_dir = (Ok [sample_entry], q')"
proof -
  have c: "directory_entry_count sample_dir = Ok (Suc 0)"
    using sample_file_types(1)
    by (simp add: directory_entry_count_def) (simp add: sample_inode_def sample_tree_def DIRECTORY_ENTRY_SIZE_def)
  obtain q' where "next_record cursor_source sample_state sample_dir 0
      = (Ok (0, Some \<lparr>dr_inode = 2, dr_name = Short [0x61]\<rparr>), q')"
    using yieldsD [OF cursor.sample_record_yields sample_mounted] by blast
  then show ?thesis
    by (simp add: read_directory_def read_directory_snapshot_def c directory_entry_from_record_def
        recovery_snapshot_def) (simp add: sample_entry_def sample_inode_def sample_state_def)
qed

section \<open>Reading\<close>

text \<open>
  C5: in every state of the driver, whatever its pointer caches hold and wherever its reader
  stands, a read of a file returns the bytes the volume defines for the range, byte by byte
  through the file's pointer tree, with zeros for holes, or the first error on the way.
\<close>

theorem qnx6_reads_follow_the_volume:
  assumes "byte_reader src lawful pos content" and "volume_wf V" and "mounted lawful content V q"
    and "tree_wf (in_tree inode)" and "\<not> is_directory inode"
  shows "\<exists>q'. read_file_range src q inode offset n =
      (collect (v_byte V (in_tree inode))
         [offset ..< offset + min (unat (td_size (in_tree inode)) - offset) n], q')
    \<and> mounted lawful content V q'"
  using yieldsD [OF byte_reader.read_tree_range_yields [OF assms(1,2,4)] assms(3)] assms(5)
  by (simp add: read_file_range_def v_range_def)

theorem qnx6_reads_follow_the_volume_witness:
  "fst (read_file_range cursor_source sample_state sample_file 1 10) = Ok [2, 3]"
  using qnx6_reads_follow_the_volume [OF cursor.byte_reader_axioms sample_wf(1) sample_mounted
      sample_inode_wf sample_file_types(2), of 1 10] sample_file_range
  by (auto simp: v_range_def)

text \<open>
  C15: a range read of a file returns the matching part of what reading the whole file returns,
  also after other reads; reads past the end return what is left of the file.
\<close>

theorem qnx6_range_reads_agree_with_whole_file:
  assumes "byte_reader src lawful pos content" and "volume_wf V" and "mounted lawful content V q"
    and "tree_wf (in_tree inode)" and "read_file src q inode = (Ok bs, q')"
  shows "length bs = unat (td_size (in_tree inode))
    \<and> mounted lawful content V q' \<and> fst (read_file_range src q' inode offset n) = Ok (slice bs offset n)"
proof -
  let ?n = "unat (td_size (in_tree inode))"
  note y = byte_reader.read_tree_range_yields [OF assms(1,2,4)]
  have nd: "\<not> is_directory inode" using assms(5) by (auto simp: read_file_def)
  obtain q1 where q1: "read_tree_range src q (in_tree inode) 0 ?n = (v_range V (in_tree inode) 0 ?n, q1)"
    "mounted lawful content V q1" using yieldsD [OF y assms(3)] by blast
  then obtain cs where cs: "v_range V (in_tree inode) 0 ?n = Ok cs" "q' = q1" "bs = resize_zero cs ?n"
    using assms(5) nd by (cases "v_range V (in_tree inode) 0 ?n") (auto simp: read_file_def read_file_range_def)
  then have c: "length cs = ?n" "\<forall>i < ?n. v_byte V (in_tree inode) i = Ok (cs ! i)"
    by (simp_all add: v_range_def collect_eq_Ok_iff)
  then have bs: "bs = cs" using cs(3) by (simp add: resize_zero_def)
  have "v_range V (in_tree inode) offset n = Ok (slice cs offset n)"
    using c by (auto simp: v_range_def collect_eq_Ok_iff min.commute)
  with yieldsD [OF y q1(2), of offset n] nd bs c cs(2) q1(2) show ?thesis
    by (auto simp: read_file_range_def)
qed

theorem qnx6_range_reads_agree_with_whole_file_witness:
  "\<exists>q'. read_file cursor_source sample_state sample_file = (Ok [1, 2, 3], q')
    \<and> fst (read_file_range cursor_source q' sample_file 1 10) = Ok [2, 3]"
proof -
  have "v_exact sample_volume (in_tree sample_file) 0 3 = Ok [1, 2, 3]"
    using sample_read [of 2 "in_tree sample_file" 0 3] sample_contents(4)
    by (simp add: sample_inode_def sample_tree_def)
  then have v: "v_range sample_volume (in_tree sample_file) 0 3 = Ok [1, 2, 3]"
    by (auto simp: v_exact_def and_then_eq_Ok_iff split: if_splits)
  have n: "unat (td_size (in_tree sample_file)) = 3" by (simp add: sample_inode_def sample_tree_def)
  have w: "tree_wf (in_tree sample_file)" by (rule sample_inode_wf)
  obtain q' where q': "read_tree_range cursor_source sample_state (in_tree sample_file) 0 3 = (Ok [1, 2, 3], q')"
    using yieldsD [OF cursor.read_tree_range_yields [OF sample_wf(1) w] sample_mounted, of 0 3] v by auto
  then have r: "read_file cursor_source sample_state sample_file = (Ok [1, 2, 3], q')"
    using sample_file_types(2) n by (simp add: read_file_def read_file_range_def resize_zero_def)
  from qnx6_range_reads_agree_with_whole_file [OF cursor.byte_reader_axioms sample_wf(1) sample_mounted
      sample_inode_wf r, of 1 10] r show ?thesis
    by (auto simp: slice_def)
qed


section \<open>Directories and paths\<close>

text \<open>
  C6: looking a name up finds the first entry the directory's listing has under that name, and
  answers with that entry's inode or with the error of reading it; a name that is not listed is
  not found. This covers the deleted names both recover from the other snapshot, for which an
  unreadable inode counts as not found, provided the other snapshot's directory can be listed.
\<close>

theorem qnx6_lookup_agrees_with_listing:
  assumes "byte_reader src lawful pos content" and wf: "volume_wf V" and q: "mounted lawful content V q"
    and d: "tree_wf (in_tree dir)" and l: "read_directory src q dir = (Ok entries, q1)"
    and a: "\<forall>alt q'. alternate_directory src q dir = (Ok (Some alt), q') \<longrightarrow>
      (\<exists>listing q''. read_directory_snapshot src q' alt False True = (Ok listing, q''))"
  shows "fst (q_lookup src q dir name) =
    (case find (\<lambda>e. de_name e = name) entries of
       None \<Rightarrow> Err NotFound
     | Some e \<Rightarrow>
         (let inode = fst (directory_entry_inode src q e)
          in if de_snapshot e = in_snapshot dir then inode
             else case inode of Ok i \<Rightarrow> Ok i | _ \<Rightarrow> Err NotFound))"
proof -
  note settle = byte_reader.alternate_directory_settles [OF assms(1) wf]
    byte_reader.read_directory_snapshot_settles [OF assms(1) wf]
    byte_reader.inode_from_snapshot_settles [OF assms(1) wf]
  have alt: "\<exists>listing. yields (mounted lawful content V)
      (\<lambda>q. read_directory_snapshot src q i False True) (Ok listing)"
    if y: "yields (mounted lawful content V) (\<lambda>q. alternate_directory src q dir) (Ok (Some i))" for i
  proof -
    obtain q' where q': "alternate_directory src q dir = (Ok (Some i), q')" "mounted lawful content V q'"
      using yieldsD [OF y q] by blast
    have "tree_wf (in_tree i)" using yields_answers [OF y settle(1) q] by simp
    with a q' show ?thesis using settles_yields(1) [OF settle(2)] by blast
  qed
  have at_q: "fst (f q) = r" if "yields (mounted lawful content V) f r" for f r
    using yieldsD [OF that q] by auto
  note agrees = byte_reader.lookup_agrees [OF assms(1) wf q d l alt, of name]
  show ?thesis
  proof (cases "find (\<lambda>e. de_name e = name) entries")
    case None
    then have "yields (mounted lawful content V) (\<lambda>q. q_lookup src q dir name) (Err NotFound)"
      using agrees by simp
    from at_q [OF this] None show ?thesis by simp
  next
    case (Some e)
    obtain m q2 where m: "directory_entry_inode src q e = (m, q2)" by fastforce
    with settles_yields(1) [OF settle(3) q] have
      y: "yields (mounted lawful content V) (\<lambda>q. directory_entry_inode src q e) m"
      by (simp add: directory_entry_inode_def)
    then have "yields (mounted lawful content V) (\<lambda>q. q_lookup src q dir name)
        (if de_snapshot e = in_snapshot dir then m else case m of Ok i \<Rightarrow> Ok i | _ \<Rightarrow> Err NotFound)"
      using agrees Some by simp
    from at_q [OF this] Some m show ?thesis by simp
  qed
qed

theorem qnx6_lookup_agrees_with_listing_witness:
  "fst (q_lookup cursor_source sample_state sample_dir [0x61]) = Ok sample_file
   \<and> fst (q_lookup cursor_source sample_state sample_dir [0x62]) = Err NotFound"
proof -
  obtain q' where l: "read_directory cursor_source sample_state sample_dir = (Ok [sample_entry], q')"
    using sample_listing by blast
  have a: "\<forall>alt q'. alternate_directory cursor_source sample_state sample_dir = (Ok (Some alt), q') \<longrightarrow>
      (\<exists>listing q''. read_directory_snapshot cursor_source q' alt False True = (Ok listing, q''))"
    by (simp add: alternate_directory_def recovery_snapshot_def sample_state_def)
  have i: "fst (directory_entry_inode cursor_source sample_state sample_entry) = Ok sample_file"
    using yieldsD [OF cursor.sample_inodes_yield(2) sample_mounted] by (auto simp: directory_entry_inode_def sample_entry_def)
  note lookup = qnx6_lookup_agrees_with_listing [OF cursor.byte_reader_axioms sample_wf(1) sample_mounted
      sample_inode_wf l a]
  from lookup [of "[0x61]"] lookup [of "[0x62]"] i show ?thesis
    by (simp add: sample_entry_def) (simp add: sample_inode_def)
qed

lemma split_on_append: "split_on x (xs @ x # ys) = split_on x xs @ split_on x ys"
proof (induction xs)
  case (Cons y xs)
  have "split_on x zs \<noteq> []" for zs :: "'a list" by (induction zs) (auto split: list.split)
  with Cons show ?case by (cases "split_on x xs") auto
qed simp

lemma resolve_components_append:
  "resolve_components src (cs @ ds) q i =
    and_do (resolve_components src cs q i) (\<lambda>i q. resolve_components src ds q i)"
  by (induction cs arbitrary: q i) (simp_all add: and_do_assoc)

text \<open>
  A path is resolved component by component: resolving two paths joined by a slash is
  resolving the first and looking the components of the second up from there.
\<close>

lemma qnx6_paths_resolve_by_components:
  "resolve_path src q (a @ 0x2F # b) =
    and_do (resolve_path src q a) (\<lambda>inode q. resolve_components src (path_components b) q inode)"
  by (simp add: resolve_path_def path_components_def split_on_append resolve_components_append and_do_assoc)


section \<open>Totality\<close>

text \<open>
  C7: every operation of a mounted driver returns a result or an error on every volume, however
  damaged: it does not panic, overflow or loop, and the driver still serves the volume afterwards.
\<close>

theorem qnx6_operations_are_total:
  assumes "byte_reader src lawful pos content" and "volume_wf V" and "mounted lawful content V q"
    and "tree_wf (in_tree inode)"
  shows "(case q_inode src q number of (r, q') \<Rightarrow> returns r \<and> mounted lawful content V q')
    \<and> (case read_file src q inode of (r, q') \<Rightarrow> returns r \<and> mounted lawful content V q')
    \<and> (case read_file_range src q inode offset n of (r, q') \<Rightarrow> returns r \<and> mounted lawful content V q')
    \<and> (case read_directory src q inode of (r, q') \<Rightarrow> returns r \<and> mounted lawful content V q')
    \<and> (case directory_entry_inode src q entry of (r, q') \<Rightarrow> returns r \<and> mounted lawful content V q')
    \<and> (case q_lookup src q inode name of (r, q') \<Rightarrow> returns r \<and> mounted lawful content V q')
    \<and> (case resolve_path src q path of (r, q') \<Rightarrow> returns r \<and> mounted lawful content V q')"
proof -
  have total: "case f q of (r, q') \<Rightarrow> returns r \<and> mounted lawful content V q'"
    if "settles (mounted lawful content V) f P" for f P
    by (rule settlesE [OF that assms(3)]) (simp add: answers_returns)
  have range: "settles (mounted lawful content V) (\<lambda>q. read_tree_range src q (in_tree inode) off k) (\<lambda>_. True)" for off k
    by (rule settlesI [OF byte_reader.read_tree_range_yields [OF assms(1,2,4)]
          answers_mono [OF v_range_answers]]) simp
  have inode: "settles (mounted lawful content V) (\<lambda>q. q_inode src q number) (\<lambda>i. tree_wf (in_tree i))"
  proof (rule settles_cong)
    show "settles (mounted lawful content V) (\<lambda>q. inode_from_snapshot src q (vo_active V) number)
        (\<lambda>i. tree_wf (in_tree i))"
      by (rule settles_mono [OF byte_reader.inode_from_snapshot_settles [OF assms(1,2)]]) simp
  qed (simp add: q_inode_def mounted_ghost)
  have whole: "settles (mounted lawful content V) (\<lambda>q. read_file src q inode) (\<lambda>_. True)"
    unfolding read_file_def read_file_range_def Let_def
    by (intro settles_if settles_pure) (auto intro!: settles_and_do [OF range] settles_pure)
  have file_range: "settles (mounted lawful content V) (\<lambda>q. read_file_range src q inode offset n) (\<lambda>_. True)"
    unfolding read_file_range_def by (intro settles_if settles_pure range) simp
  have entry: "settles (mounted lawful content V) (\<lambda>q. directory_entry_inode src q entry) (\<lambda>_. True)"
    unfolding directory_entry_inode_def
    by (rule settles_mono [OF byte_reader.inode_from_snapshot_settles [OF assms(1,2)]]) simp
  show ?thesis
    by (intro conjI total [OF inode] total [OF whole] total [OF file_range]
      total [OF byte_reader.read_directory_settles [OF assms(1,2,4)]] total [OF entry]
      total [OF byte_reader.q_lookup_settles [OF assms(1,2,4)]]
      total [OF byte_reader.resolve_path_settles [OF assms(1,2)]])
qed

theorem qnx6_operations_are_total_witness:
  "returns (fst (read_directory cursor_source sample_state sample_dir))
   \<and> returns (fst (resolve_path cursor_source sample_state [0x2F, 0x61]))"
  using qnx6_operations_are_total [OF cursor.byte_reader_axioms sample_wf(1) sample_mounted,
      where inode = sample_dir and path = "[0x2F, 0x61]" and number = 1 and offset = 0 and n = 0
        and name = "[]" and entry = sample_entry] sample_inode_wf
  by (simp add: split_beta)

text \<open>
  C8: mounting returns a driver or an error on every byte source. A mounted driver serves the
  source's bytes through the newest valid snapshot: its superblock is the valid record at the
  place of its active copy, no valid record at either place has a greater serial number, and the
  trailing copy is where the superblock's own geometry puts it.
\<close>

theorem qnx6_mounts_the_newest_snapshot:
  assumes "byte_source src lawful pos content" and "lawful s"
  shows "answers (fst (qnx6_new src s)) (\<lambda>q. newest_snapshot (content s) q
    \<and> (\<exists>V. volume_wf V \<and> vo_bytes V = content s \<and> mounted lawful content V q))"
  by (rule byte_source.qnx6_new_answers [OF assms])

theorem qnx6_mounts_the_newest_snapshot_witness:
  "\<exists>q s'. qnx6_new cursor_source \<lparr>cur_bytes = sample_bytes, cur_pos = 0\<rparr> = (Ok q, s')
     \<and> q_superblock q = sample_superblock \<and> newest_snapshot sample_bytes q"
proof -
  let ?s = "\<lparr>cur_bytes = sample_bytes, cur_pos = 0\<rparr>"
  have l: "cursor_inv ?s" by (simp add: cursor_inv_def length_sample)
  then obtain q s' where "qnx6_new cursor_source ?s = (Ok q, s')" "mounted cursor_inv cur_bytes sample_volume q"
    using cursor.sample_mounts [of ?s] by auto
  with qnx6_mounts_the_newest_snapshot [OF cursor.byte_source_axioms l] show ?thesis
    by (auto simp: mounted_def sample_volume_def)
qed

end
