(* ===== verification/Boot_Sector.thy ===== *)
theory Boot_Sector
  imports Byte_Source
begin

text \<open>
  \<open>fsmnt-parser-core/src/boot_sector/mod.rs\<close>: the on-disk structures of IBM-compatible boot
  sectors, the header, the DOS BIOS parameter block, the extended blocks of FAT12/16, FAT32 and
  NTFS, and the exFAT boot sector. A structure is read from a slice of exactly its size; integers
  are little-endian, and since the sources only compare and multiply them they are natural numbers
  here.
\<close>

section \<open>Structures\<close>

definition BOOT_SECTOR_SIZE :: nat where "BOOT_SECTOR_SIZE = 512"

definition BOOT_SIGNATURE :: nat where "BOOT_SIGNATURE = 0xAA55"

record boot_sector_header =
  jump_instruction :: bytes
  oem_id :: bytes

definition parse_header :: "bytes \<Rightarrow> boot_sector_header option" where
  "parse_header bs = (if length bs = 11
     then Some \<lparr>jump_instruction = slice bs 0 3, oem_id = slice bs 3 8\<rparr> else None)"

definition is_ntfs :: "boot_sector_header \<Rightarrow> bool" where
  "is_ntfs h \<longleftrightarrow> oem_id h = ascii ''NTFS    ''"

definition is_exfat :: "boot_sector_header \<Rightarrow> bool" where
  "is_exfat h \<longleftrightarrow> oem_id h = ascii ''EXFAT   ''"

definition is_bitlocker :: "boot_sector_header \<Rightarrow> bool" where
  "is_bitlocker h \<longleftrightarrow> oem_id h = ascii ''-FVE-FS-''"

record dos_bpb =
  bytes_per_sector :: nat
  sectors_per_cluster :: nat
  reserved_sectors :: nat
  num_fats :: nat
  root_entry_count :: nat
  total_sectors_16 :: nat
  media_descriptor :: nat
  sectors_per_fat_16 :: nat
  sectors_per_track :: nat
  num_heads :: nat
  hidden_sectors :: nat
  total_sectors_32 :: nat

text \<open>The offsets are relative to 0x0B.\<close>

definition parse_dos_bpb :: "bytes \<Rightarrow> dos_bpb option" where
  "parse_dos_bpb bs = (if length bs = 25
     then Some \<lparr>bytes_per_sector = le_field bs 0 2, sectors_per_cluster = le_field bs 2 1,
       reserved_sectors = le_field bs 3 2, num_fats = le_field bs 5 1, root_entry_count = le_field bs 6 2,
       total_sectors_16 = le_field bs 8 2, media_descriptor = le_field bs 10 1,
       sectors_per_fat_16 = le_field bs 11 2, sectors_per_track = le_field bs 13 2,
       num_heads = le_field bs 15 2, hidden_sectors = le_field bs 17 4, total_sectors_32 = le_field bs 21 4\<rparr>
     else None)"

definition bpb_total_sectors :: "dos_bpb \<Rightarrow> nat" where
  "bpb_total_sectors bpb =
     (if total_sectors_16 bpb \<noteq> 0 then total_sectors_16 bpb else total_sectors_32 bpb)"

definition looks_like_ntfs :: "dos_bpb \<Rightarrow> bool" where
  "looks_like_ntfs bpb \<longleftrightarrow> reserved_sectors bpb = 0 \<and> num_fats bpb = 0 \<and> root_entry_count bpb = 0
     \<and> sectors_per_fat_16 bpb = 0"

record fat16_ebpb =
  f16_drive_number :: nat
  f16_reserved1 :: nat
  f16_boot_signature :: nat
  f16_volume_serial_number :: nat
  f16_volume_label :: bytes
  f16_filesystem_type :: bytes

definition parse_fat16_ebpb :: "bytes \<Rightarrow> fat16_ebpb option" where
  "parse_fat16_ebpb bs = (if length bs = 26
     then Some \<lparr>f16_drive_number = le_field bs 0 1, f16_reserved1 = le_field bs 1 1,
       f16_boot_signature = le_field bs 2 1, f16_volume_serial_number = le_field bs 3 4,
       f16_volume_label = slice bs 7 11, f16_filesystem_type = slice bs 18 8\<rparr>
     else None)"

record fat32_ebpb =
  sectors_per_fat_32 :: nat
  ext_flags :: nat
  fs_version :: nat
  root_cluster_32 :: nat
  fs_info_sector :: nat
  backup_boot_sector :: nat
  f32_reserved :: bytes
  f32_drive_number :: nat
  f32_reserved1 :: nat
  f32_boot_signature :: nat
  f32_volume_serial_number :: nat
  f32_volume_label :: bytes
  f32_filesystem_type :: bytes

definition parse_fat32_ebpb :: "bytes \<Rightarrow> fat32_ebpb option" where
  "parse_fat32_ebpb bs = (if length bs = 54
     then Some \<lparr>sectors_per_fat_32 = le_field bs 0 4, ext_flags = le_field bs 4 2, fs_version = le_field bs 6 2,
       root_cluster_32 = le_field bs 8 4, fs_info_sector = le_field bs 12 2,
       backup_boot_sector = le_field bs 14 2, f32_reserved = slice bs 16 12,
       f32_drive_number = le_field bs 28 1, f32_reserved1 = le_field bs 29 1,
       f32_boot_signature = le_field bs 30 1, f32_volume_serial_number = le_field bs 31 4,
       f32_volume_label = slice bs 35 11, f32_filesystem_type = slice bs 46 8\<rparr>
     else None)"

record ntfs_ebpb =
  ntfs_total_sectors :: nat
  mft_lcn :: nat
  mft_mirror_lcn :: nat
  clusters_per_mft_record :: u8
  clusters_per_index_buffer :: u8
  ntfs_volume_serial_number :: nat
  ntfs_checksum :: nat

definition parse_ntfs_ebpb :: "bytes \<Rightarrow> ntfs_ebpb option" where
  "parse_ntfs_ebpb bs = (if length bs = 48
     then Some \<lparr>ntfs_total_sectors = le_field bs 4 8, mft_lcn = le_field bs 12 8,
       mft_mirror_lcn = le_field bs 20 8, clusters_per_mft_record = bs ! 28,
       clusters_per_index_buffer = bs ! 32, ntfs_volume_serial_number = le_field bs 36 8,
       ntfs_checksum = le_field bs 44 4\<rparr>
     else None)"

text \<open>The signed field of the NTFS block: a cluster count, or minus the logarithm of a size.\<close>

definition decode_cluster_size_field :: "u8 \<Rightarrow> nat \<Rightarrow> (nat, 'e) outcome" where
  "decode_cluster_size_field v cluster_size =
     (let magnitude = nat \<bar>sint v\<bar>
      in if 0 \<le> sint v then mul32 magnitude cluster_size
         else Ok (if magnitude < 32 then 2 ^ magnitude else 0))"

definition mft_record_size :: "ntfs_ebpb \<Rightarrow> nat \<Rightarrow> (nat, 'e) outcome" where
  "mft_record_size e cluster_size = decode_cluster_size_field (clusters_per_mft_record e) cluster_size"

definition index_buffer_size :: "ntfs_ebpb \<Rightarrow> nat \<Rightarrow> (nat, 'e) outcome" where
  "index_buffer_size e cluster_size = decode_cluster_size_field (clusters_per_index_buffer e) cluster_size"

record exfat_boot_sector =
  xf_jump_instruction :: bytes
  filesystem_name :: bytes
  must_be_zero :: bytes
  partition_offset :: nat
  volume_length :: nat
  fat_offset :: nat
  fat_length :: nat
  cluster_heap_offset :: nat
  xf_cluster_count :: nat
  root_directory_cluster :: nat
  xf_volume_serial_number :: nat
  filesystem_revision :: nat
  volume_flags :: nat
  bytes_per_sector_shift :: nat
  sectors_per_cluster_shift :: nat
  number_of_fats :: nat
  drive_select :: nat
  percent_in_use :: nat
  xf_boot_code :: bytes
  xf_boot_signature :: nat

definition parse_exfat_boot_sector :: "bytes \<Rightarrow> exfat_boot_sector option" where
  "parse_exfat_boot_sector bs = (if length bs = 512
     then Some \<lparr>xf_jump_instruction = slice bs 0 3, filesystem_name = slice bs 3 8,
       must_be_zero = slice bs 0x0B 53, partition_offset = le_field bs 0x40 8,
       volume_length = le_field bs 0x48 8, fat_offset = le_field bs 0x50 4, fat_length = le_field bs 0x54 4,
       cluster_heap_offset = le_field bs 0x58 4, xf_cluster_count = le_field bs 0x5C 4,
       root_directory_cluster = le_field bs 0x60 4, xf_volume_serial_number = le_field bs 0x64 4,
       filesystem_revision = le_field bs 0x68 2, volume_flags = le_field bs 0x6A 2,
       bytes_per_sector_shift = le_field bs 0x6C 1, sectors_per_cluster_shift = le_field bs 0x6D 1,
       number_of_fats = le_field bs 0x6E 1, drive_select = le_field bs 0x6F 1,
       percent_in_use = le_field bs 0x70 1, xf_boot_code = slice bs 0x78 390,
       xf_boot_signature = le_field bs 0x1FE 2\<rparr>
     else None)"

definition exfat_is_valid :: "exfat_boot_sector \<Rightarrow> bool" where
  "exfat_is_valid x \<longleftrightarrow> filesystem_name x = ascii ''EXFAT   '' \<and> list_all (\<lambda>b. b = 0) (must_be_zero x)
     \<and> xf_boot_signature x = BOOT_SIGNATURE \<and> 9 \<le> bytes_per_sector_shift x \<and> bytes_per_sector_shift x \<le> 12"

text \<open>\<open>1u32 << shift\<close> panics when the shift is 32 or more.\<close>

definition exfat_bytes_per_sector :: "exfat_boot_sector \<Rightarrow> (nat, 'e) outcome" where
  "exfat_bytes_per_sector x =
     (if bytes_per_sector_shift x < 32 then Ok (2 ^ bytes_per_sector_shift x) else Panic)"

end
