(* ===== verification/Fat_Table.thy ===== *)
theory Fat_Table
  imports Block_Cache Boot_Sector
begin

text \<open>
  \<open>fs-fat/src/fat.rs\<close>: the geometry of a FAT volume and its allocation table. A boot sector is
  parsed into a \<open>fat\<close>, whose arithmetic is checked at 32 bits; a cluster number is turned into a
  byte offset; the successor of a cluster is read from the table, directly or through the cache of
  one sector. The source spells the decoding of an entry twice, and so does the model.
\<close>

section \<open>Errors and geometry\<close>

text \<open>\<open>fs-fat/src/error.rs\<close>\<close>

datatype fat_error =
    InvalidBootSignature nat
  | BitLockerEncrypted bytes
  | InvalidBytesPerSector nat
  | InvalidSectorsPerCluster nat
  | BootSectorParseFailed
  | BpbParseFailed
  | BpbOverflow
  | InvalidFatType nat
  | InvalidRootEntryCount nat
  | InvalidNumFats nat
  | InvalidReservedSectors nat
  | InvalidTotalSectors
  | InvalidCluster nat
  | BadCluster nat
  | ClusterChainLoop nat
  | NotADirectory
  | IsADirectory
  | NotFound
  | MalformedDirEntry nat
  | InvalidTime
  | Io io_error

datatype fat_type = Fat12 | Fat16 | Fat32

definition FAT16_MIN_CLUSTERS :: nat where "FAT16_MIN_CLUSTERS = 0x0FF5"

definition FAT32_MIN_CLUSTERS :: nat where "FAT32_MIN_CLUSTERS = 0xFFF5"

definition from_clusters :: "nat \<Rightarrow> fat_type" where
  "from_clusters total_clusters =
     (if total_clusters < FAT16_MIN_CLUSTERS then Fat12
      else if total_clusters < FAT32_MIN_CLUSTERS then Fat16 else Fat32)"

record fat =
  f_type :: fat_type
  f_cluster_size :: nat
  f_sector_size :: nat
  f_size :: nat
  f_sectors_per_fat :: nat
  f_fat_start_sector :: nat
  f_root_dir_sectors :: nat
  f_first_data_sector :: nat
  f_total_clusters :: nat
  f_root_cluster :: nat
  f_serial_number :: nat

record fat_geometry =
  g_kind :: fat_type
  g_cluster_size :: nat
  g_sector_size :: nat
  g_table_start_sector :: nat
  g_data_start_sector :: nat
  g_cluster_count :: nat

definition file_geometry :: "fat \<Rightarrow> fat_geometry" where
  "file_geometry f = \<lparr>g_kind = f_type f, g_cluster_size = f_cluster_size f, g_sector_size = f_sector_size f,
     g_table_start_sector = f_fat_start_sector f, g_data_start_sector = f_first_data_sector f,
     g_cluster_count = f_total_clusters f\<rparr>"

definition geometry_cluster_offset :: "fat_geometry \<Rightarrow> nat \<Rightarrow> (nat, fat_error) outcome" where
  "geometry_cluster_offset g cluster =
     (if cluster < 2 \<or> saturating_add32 (g_cluster_count g) 1 < cluster then Err (InvalidCluster cluster)
      else and_then (mul64 (cluster - 2) (g_cluster_size g)) (\<lambda>relative.
             and_then (mul64 (g_data_start_sector g) (g_sector_size g)) (\<lambda>base. add64 base relative)))"


section \<open>The boot sector\<close>

definition validate_sectors_per_cluster :: "nat \<Rightarrow> (unit, fat_error) outcome" where
  "validate_sectors_per_cluster n =
     (if n = 0 \<or> \<not> is_power_of_two n then Err (InvalidSectorsPerCluster n) else Ok ())"

text \<open>The extended block of a complete 512-byte sector.\<close>

definition fat32_boot_sector :: "bytes \<Rightarrow> fat32_ebpb option" where
  "fat32_boot_sector bs = (if length bs = 512 then parse_fat32_ebpb (slice bs 0x24 54) else None)"

definition fat16_boot_sector :: "bytes \<Rightarrow> fat16_ebpb option" where
  "fat16_boot_sector bs = (if length bs = 512 then parse_fat16_ebpb (slice bs 0x24 26) else None)"

definition new_fat32 :: "bytes \<Rightarrow> dos_bpb \<Rightarrow> nat \<Rightarrow> (fat, fat_error) outcome" where
  "new_fat32 boot_sector bpb sector_size =
     and_then (ok_or BootSectorParseFailed (fat32_boot_sector boot_sector)) (\<lambda>ebpb.
     and_then (validate_sectors_per_cluster (sectors_per_cluster bpb)) (\<lambda>_.
     and_then (ok_or BpbOverflow (checked_mul32 sector_size (sectors_per_cluster bpb))) (\<lambda>cluster_size.
     and_then (ok_or BpbOverflow (checked_mul32 (num_fats bpb) (sectors_per_fat_32 ebpb))) (\<lambda>fat_area.
     and_then (ok_or BpbOverflow (Option.bind (checked_add32 (reserved_sectors bpb) fat_area)
         (\<lambda>v. checked_add32 v 0))) (\<lambda>first_data_sector.
       let total_sectors = bpb_total_sectors bpb;
           data_sectors = total_sectors - first_data_sector;
           total_clusters = data_sectors div sectors_per_cluster bpb
       in Ok \<lparr>f_type = from_clusters total_clusters, f_cluster_size = cluster_size,
            f_sector_size = sector_size, f_size = total_sectors * sector_size,
            f_sectors_per_fat = sectors_per_fat_32 ebpb, f_fat_start_sector = reserved_sectors bpb,
            f_root_dir_sectors = 0, f_first_data_sector = first_data_sector,
            f_total_clusters = total_clusters, f_root_cluster = root_cluster_32 ebpb,
            f_serial_number = f32_volume_serial_number ebpb\<rparr>)))))"

definition new_fat12_16 :: "bytes \<Rightarrow> dos_bpb \<Rightarrow> nat \<Rightarrow> (fat, fat_error) outcome" where
  "new_fat12_16 boot_sector bpb sector_size =
     and_then (ok_or BootSectorParseFailed (fat16_boot_sector boot_sector)) (\<lambda>ebpb.
     and_then (validate_sectors_per_cluster (sectors_per_cluster bpb)) (\<lambda>_.
     and_then (ok_or BpbOverflow (checked_mul32 sector_size (sectors_per_cluster bpb))) (\<lambda>cluster_size.
     and_then (ok_or BpbOverflow (checked_mul32 (root_entry_count bpb) 32)) (\<lambda>root_dir_bytes.
     let root_dir_sectors = div_ceil root_dir_bytes sector_size in
     and_then (ok_or BpbOverflow (checked_mul32 (num_fats bpb) (sectors_per_fat_16 bpb))) (\<lambda>fat_area.
     and_then (ok_or BpbOverflow (Option.bind (checked_add32 (reserved_sectors bpb) fat_area)
         (\<lambda>v. checked_add32 v root_dir_sectors))) (\<lambda>first_data_sector.
       let total_sectors = bpb_total_sectors bpb;
           data_sectors = total_sectors - first_data_sector;
           total_clusters = data_sectors div sectors_per_cluster bpb
       in Ok \<lparr>f_type = from_clusters total_clusters, f_cluster_size = cluster_size,
            f_sector_size = sector_size, f_size = total_sectors * sector_size,
            f_sectors_per_fat = sectors_per_fat_16 bpb, f_fat_start_sector = reserved_sectors bpb,
            f_root_dir_sectors = root_dir_sectors, f_first_data_sector = first_data_sector,
            f_total_clusters = total_clusters, f_root_cluster = 0,
            f_serial_number = f16_volume_serial_number ebpb\<rparr>))))))"

text \<open>What \<open>Fat::new\<close> does once it has the 512 bytes.\<close>

definition fat_from_boot_sector :: "bytes \<Rightarrow> (fat, fat_error) outcome" where
  "fat_from_boot_sector bs =
     (if le_field bs 510 2 \<noteq> BOOT_SIGNATURE then Err (InvalidBootSignature (le_field bs 510 2))
      else if slice bs 3 8 = ascii ''-FVE-FS-'' then Err (BitLockerEncrypted (slice bs 3 8))
      else
        and_then (ok_or BpbParseFailed (parse_dos_bpb (slice bs 0x0B 25))) (\<lambda>bpb.
          let sector_size = bytes_per_sector bpb in
          if sector_size \<notin> {512, 1024, 2048, 4096} then Err (InvalidBytesPerSector sector_size)
          else if sectors_per_fat_16 bpb = 0 \<and> root_entry_count bpb = 0
          then new_fat32 bs bpb sector_size
          else new_fat12_16 bs bpb sector_size))"

definition fat_new :: "'s source \<Rightarrow> 's \<Rightarrow> (fat, fat_error) outcome \<times> 's" where
  "fat_new src s =
     and_do (apfst (map_err Io) (read_exact_from src s 0 BOOT_SECTOR_SIZE)) (\<lambda>bs s.
       (fat_from_boot_sector bs, s))"

definition cluster_offset :: "fat \<Rightarrow> nat \<Rightarrow> (nat, fat_error) outcome" where
  "cluster_offset f cluster = geometry_cluster_offset (file_geometry f) cluster"

definition root_dir_offset :: "fat \<Rightarrow> nat" where
  "root_dir_offset f = (f_first_data_sector f - f_root_dir_sectors f) * f_sector_size f"

definition root_dir_size :: "fat \<Rightarrow> (nat, fat_error) outcome" where
  "root_dir_size f = mul32 (f_root_dir_sectors f) (f_sector_size f)"


section \<open>The allocation table\<close>

text \<open>The entry at \<open>bytes\<close>, decoded in \<open>next_cluster_cached\<close>.\<close>

definition decode_cached :: "fat_type \<Rightarrow> nat \<Rightarrow> bytes \<Rightarrow> (nat option, fat_error) outcome" where
  "decode_cached kind cluster bytes =
     (case kind of
        Fat12 \<Rightarrow>
          (let entry = from_le_bytes (take 2 bytes) :: u16;
               value = (if word_of_nat cluster AND 1 = (1 :: u32) then drop_bit 4 entry else entry AND 0x0FFF)
           in if 0x0FF8 \<le> value then Ok None
              else if value = 0x0FF7 then Err (BadCluster cluster) else Ok (Some (unat value)))
      | Fat16 \<Rightarrow>
          (let value = from_le_bytes (take 2 bytes) :: u16
           in if 0xFFF8 \<le> value then Ok None
              else if value = 0xFFF7 then Err (BadCluster cluster) else Ok (Some (unat value)))
      | Fat32 \<Rightarrow>
          (let value = (from_le_bytes bytes :: u32) AND 0x0FFFFFFF
           in if 0x0FFFFFF8 \<le> value then Ok None
              else if value = 0x0FFFFFF7 then Err (BadCluster cluster) else Ok (Some (unat value))))"

definition next_cluster_cached ::
  "'s source \<Rightarrow> fat_geometry \<Rightarrow> nat \<Rightarrow> block_cache \<times> 's \<Rightarrow> (nat option, fat_error) outcome \<times> block_cache \<times> 's" where
  "next_cluster_cached src g cluster st =
     (if cluster < 2 \<or> saturating_add32 (g_cluster_count g) 1 < cluster then (Err (InvalidCluster cluster), st)
      else
        and_do (case g_kind g of
            Fat12 \<Rightarrow> and_then (add32 cluster (cluster div 2)) (\<lambda>p. Ok (p, 2))
          | Fat16 \<Rightarrow> Ok (cluster * 2, 2)
          | Fat32 \<Rightarrow> Ok (cluster * 4, 4), st) (\<lambda>(fat_offset, entry_len) st.
        and_do (and_then (mul64 (g_table_start_sector g) (g_sector_size g)) (\<lambda>b. add64 b fat_offset), st)
          (\<lambda>byte_offset (bc, s).
        and_do (apfst (map_err Io) (cache_read_exact_at src bc s byte_offset entry_len)) (\<lambda>bytes st.
          (decode_cached (g_kind g) cluster bytes, st)))))"

definition next_cluster_fat12 :: "'s source \<Rightarrow> fat \<Rightarrow> 's \<Rightarrow> nat \<Rightarrow> (nat option, fat_error) outcome \<times> 's" where
  "next_cluster_fat12 src f s cluster =
     and_do (add32 cluster (cluster div 2), s) (\<lambda>fat_offset s.
     and_do (and_then (mul64 (f_fat_start_sector f) (f_sector_size f)) (\<lambda>b. add64 b fat_offset), s)
       (\<lambda>fat_byte_offset s.
     and_do (apfst (map_err Io) (read_exact_from src s fat_byte_offset 2)) (\<lambda>buf s.
       let entry = from_le_bytes buf :: u16;
           value = (if word_of_nat cluster AND 1 = (1 :: u32) then drop_bit 4 entry else entry AND 0x0FFF)
       in (if 0x0FF8 \<le> value then Ok None
           else if value = 0x0FF7 then Err (BadCluster cluster) else Ok (Some (unat value)), s))))"

definition next_cluster_fat16 :: "'s source \<Rightarrow> fat \<Rightarrow> 's \<Rightarrow> nat \<Rightarrow> (nat option, fat_error) outcome \<times> 's" where
  "next_cluster_fat16 src f s cluster =
     and_do (and_then (mul64 (f_fat_start_sector f) (f_sector_size f)) (\<lambda>b. add64 b (cluster * 2)), s)
       (\<lambda>fat_byte_offset s.
     and_do (apfst (map_err Io) (read_exact_from src s fat_byte_offset 2)) (\<lambda>buf s.
       let value = from_le_bytes buf :: u16
       in (if 0xFFF8 \<le> value then Ok None
           else if value = 0xFFF7 then Err (BadCluster cluster) else Ok (Some (unat value)), s)))"

definition next_cluster_fat32 :: "'s source \<Rightarrow> fat \<Rightarrow> 's \<Rightarrow> nat \<Rightarrow> (nat option, fat_error) outcome \<times> 's" where
  "next_cluster_fat32 src f s cluster =
     and_do (and_then (mul64 (f_fat_start_sector f) (f_sector_size f)) (\<lambda>b. add64 b (cluster * 4)), s)
       (\<lambda>fat_byte_offset s.
     and_do (apfst (map_err Io) (read_exact_from src s fat_byte_offset 4)) (\<lambda>buf s.
       let value = (from_le_bytes buf :: u32) AND 0x0FFFFFFF
       in (if 0x0FFFFFF8 \<le> value then Ok None
           else if value = 0x0FFFFFF7 then Err (BadCluster cluster) else Ok (Some (unat value)), s)))"

text \<open>The guard adds one to the cluster count without a check, so it panics at the largest count.\<close>

definition next_cluster :: "'s source \<Rightarrow> fat \<Rightarrow> 's \<Rightarrow> nat \<Rightarrow> (nat option, fat_error) outcome \<times> 's" where
  "next_cluster src f s cluster =
     (if cluster < 2 then (Err (InvalidCluster cluster), s)
      else and_do (add32 (f_total_clusters f) 1, s) (\<lambda>last s.
        if last < cluster then (Err (InvalidCluster cluster), s)
        else case f_type f of
            Fat12 \<Rightarrow> next_cluster_fat12 src f s cluster
          | Fat16 \<Rightarrow> next_cluster_fat16 src f s cluster
          | Fat32 \<Rightarrow> next_cluster_fat32 src f s cluster))"


section \<open>Geometry of an accepted volume\<close>

text \<open>The bounds every accepted boot sector gives.\<close>

definition fat_wf :: "fat \<Rightarrow> bool" where
  "fat_wf f \<longleftrightarrow> f_sector_size f \<in> {512, 1024, 2048, 4096} \<and> 0 < f_cluster_size f
     \<and> f_cluster_size f \<le> 2 ^ 19 \<and> f_sector_size f dvd f_cluster_size f
     \<and> f_total_clusters f < 2 ^ 32 \<and> f_first_data_sector f < 2 ^ 32 \<and> f_root_cluster f < 2 ^ 32
     \<and> f_fat_start_sector f < 2 ^ 16
     \<and> f_fat_start_sector f + f_root_dir_sectors f \<le> f_first_data_sector f
     \<and> f_root_dir_sectors f \<le> 4096 \<and> f_type f = from_clusters (f_total_clusters f)
     \<and> (f_total_clusters f = 0 \<or>
          f_first_data_sector f * f_sector_size f + f_total_clusters f * f_cluster_size f \<le> f_size f)
     \<and> f_size f < 2 ^ 44"

lemma power_of_two_le_128:
  assumes "is_power_of_two n" and "n < 256"
  shows "n \<le> 128"
proof -
  obtain k where k: "n = 2 ^ k" using assms(1) by (auto simp: is_power_of_two_def)
  have "(2 :: nat) ^ k < 2 ^ 8" using assms(2) k by simp
  then have "k < 8" by (rule power_less_imp_less_exp [rotated]) simp
  then have "(2 :: nat) ^ k \<le> 2 ^ 7" by (intro power_increasing) simp_all
  then show ?thesis using k by simp
qed

lemma clusters_fit:
  assumes "clusters = (sectors - first) div spc" and "0 < clusters"
  shows "first * ss + clusters * (ss * spc) \<le> sectors * (ss :: nat)"
proof -
  have "clusters * spc \<le> sectors - first" using assms(1) by (simp add: div_times_less_eq_dividend)
  moreover have "0 < sectors - first" using assms by (cases "sectors - first") simp_all
  ultimately have "first + clusters * spc \<le> sectors" by simp
  then have "(first + clusters * spc) * ss \<le> sectors * ss" by (rule mult_le_mono1)
  then show ?thesis by (simp add: algebra_simps)
qed

lemma root_dir_sectors_bound:
  assumes "count < 65536" and "512 \<le> ss"
  shows "div_ceil (count * 32) ss \<le> 4096"
proof (rule ccontr)
  assume "\<not> ?thesis"
  then have "4097 * ss \<le> div_ceil (count * 32) ss * ss" by (intro mult_le_mono1) simp
  also have "\<dots> < count * 32 + ss" using assms(2) by (intro div_ceil_le(2)) simp
  finally show False using assms by simp
qed

text \<open>The fields of a parameter block keep to their widths.\<close>

definition bpb_wf :: "dos_bpb \<Rightarrow> bool" where
  "bpb_wf bpb \<longleftrightarrow> sectors_per_cluster bpb < 256 \<and> reserved_sectors bpb < 2 ^ 16
     \<and> num_fats bpb < 256 \<and> root_entry_count bpb < 65536 \<and> sectors_per_fat_16 bpb < 65536
     \<and> bpb_total_sectors bpb < 2 ^ 32"

lemma parse_dos_bpb_wf:
  assumes "parse_dos_bpb bs = Some bpb"
  shows "bpb_wf bpb"
proof -
  have "le_field bs off 2 < 2 ^ 32" for off
    using le_field_bounds(2) [of bs off] by simp
  then show ?thesis
    using assms le_field_bounds [of bs]
    by (auto simp: parse_dos_bpb_def bpb_wf_def bpb_total_sectors_def split: if_splits)
qed

lemma fat_size_bound:
  assumes "sectors < 2 ^ 32" and "ss \<in> {512, 1024, 2048, 4096 :: nat}"
  shows "sectors * ss < 2 ^ 44"
proof -
  have "sectors * ss \<le> (2 ^ 32 - 1) * 4096" using assms by (intro mult_le_mono) auto
  then show ?thesis by simp
qed

lemma spc_facts:
  assumes "validate_sectors_per_cluster (sectors_per_cluster bpb) = Ok u" and "bpb_wf bpb"
    and "ss \<in> {512, 1024, 2048, 4096 :: nat}"
  shows "0 < sectors_per_cluster bpb" and "ss * sectors_per_cluster bpb \<le> 2 ^ 19"
proof -
  have "0 < sectors_per_cluster bpb" "sectors_per_cluster bpb \<le> 128"
    using assms(1,2) power_of_two_le_128
    by (auto simp: validate_sectors_per_cluster_def bpb_wf_def split: if_splits)
  moreover have "ss * sectors_per_cluster bpb \<le> 4096 * 128"
    using assms(3) calculation(2) by (intro mult_le_mono) auto
  ultimately show "0 < sectors_per_cluster bpb" "ss * sectors_per_cluster bpb \<le> 2 ^ 19" by simp_all
qed

lemma fat_layout_wf:
  assumes spc: "validate_sectors_per_cluster (sectors_per_cluster bpb) = Ok u" and bpb: "bpb_wf bpb"
    and ss: "ss \<in> {512, 1024, 2048, 4096}" and "root \<le> 4096" and "root_cluster < 2 ^ 32"
    and "reserved_sectors bpb + root \<le> first" and "first < 2 ^ 32"
  shows "fat_wf \<lparr>f_type = from_clusters ((bpb_total_sectors bpb - first) div sectors_per_cluster bpb),
    f_cluster_size = ss * sectors_per_cluster bpb, f_sector_size = ss, f_size = bpb_total_sectors bpb * ss,
    f_sectors_per_fat = n, f_fat_start_sector = reserved_sectors bpb, f_root_dir_sectors = root,
    f_first_data_sector = first,
    f_total_clusters = (bpb_total_sectors bpb - first) div sectors_per_cluster bpb,
    f_root_cluster = root_cluster, f_serial_number = serial\<rparr>"
proof -
  have "(bpb_total_sectors bpb - first) div sectors_per_cluster bpb \<le> bpb_total_sectors bpb"
    by (metis diff_le_self div_le_dividend le_trans)
  also have "\<dots> < 2 ^ 32" using bpb by (simp add: bpb_wf_def)
  finally show ?thesis
    using spc_facts [OF spc bpb ss] fat_size_bound [OF _ ss, of "bpb_total_sectors bpb"] assms
      clusters_fit [OF refl, of "bpb_total_sectors bpb" first "sectors_per_cluster bpb" ss]
    by (auto simp: fat_wf_def bpb_wf_def)
qed

lemma new_fat32_wf:
  assumes "new_fat32 bs bpb ss = Ok f" and "bpb_wf bpb" and "ss \<in> {512, 1024, 2048, 4096}"
  shows "fat_wf f"
proof -
  have "root_cluster_32 e < 2 ^ 32" if "fat32_boot_sector bs = Some e" for e
    using that le_field_bounds(3) by (auto simp: fat32_boot_sector_def parse_fat32_ebpb_def split: if_splits)
  with assms show ?thesis
    by (auto simp: new_fat32_def and_then_eq_Ok_iff Let_def bind_eq_Some_conv simp del: One_nat_def
        intro!: fat_layout_wf)
qed

lemma new_fat12_16_wf:
  assumes "new_fat12_16 bs bpb ss = Ok f" and "bpb_wf bpb" and "ss \<in> {512, 1024, 2048, 4096}"
  shows "fat_wf f"
proof -
  have "div_ceil (root_entry_count bpb * 32) ss \<le> 4096"
    using assms by (intro root_dir_sectors_bound) (auto simp: bpb_wf_def)
  with assms show ?thesis
    by (auto simp: new_fat12_16_def and_then_eq_Ok_iff Let_def bind_eq_Some_conv intro!: fat_layout_wf)
qed

lemma new_fat_returns: "returns (new_fat32 bs bpb ss)" "returns (new_fat12_16 bs bpb ss)"
  by (auto simp: new_fat32_def new_fat12_16_def validate_sectors_per_cluster_def Let_def
      intro!: returns_and_then)

lemma fat_from_boot_sector_answers: "answers (fat_from_boot_sector bs) fat_wf"
proof -
  have "returns (fat_from_boot_sector bs)"
    by (auto simp: fat_from_boot_sector_def Let_def new_fat_returns intro!: returns_and_then)
  moreover have "fat_wf f" if "fat_from_boot_sector bs = Ok f" for f
    using that new_fat32_wf new_fat12_16_wf parse_dos_bpb_wf
    by (auto simp: fat_from_boot_sector_def Let_def and_then_eq_Ok_iff split: if_splits)
  ultimately show ?thesis by (cases "fat_from_boot_sector bs") auto
qed

end
