(* ===== verification/Fat_Link.thy ===== *)
theory Fat_Link
  imports Fat_Table
begin

text \<open>
  The allocation table as a function of the volume's bytes: the link of a cluster, and that both
  lookups of \<open>fs-fat/src/fat.rs\<close>, the direct one and the one through the cache of a sector, compute
  it.
\<close>

section \<open>The meaning of a table entry\<close>

definition entry_offset :: "fat_type \<Rightarrow> nat \<Rightarrow> nat" where
  "entry_offset kind cl = (case kind of Fat12 \<Rightarrow> cl + cl div 2 | Fat16 \<Rightarrow> cl * 2 | Fat32 \<Rightarrow> cl * 4)"

definition entry_len :: "fat_type \<Rightarrow> nat" where
  "entry_len kind = (case kind of Fat12 \<Rightarrow> 2 | Fat16 \<Rightarrow> 2 | Fat32 \<Rightarrow> 4)"

definition entry_value :: "fat_type \<Rightarrow> nat \<Rightarrow> nat \<Rightarrow> nat" where
  "entry_value kind cl v =
     (case kind of Fat12 \<Rightarrow> if odd cl then v div 16 else v mod 4096 | Fat16 \<Rightarrow> v | Fat32 \<Rightarrow> v mod 2 ^ 28)"

definition end_mark :: "fat_type \<Rightarrow> nat" where
  "end_mark kind = (case kind of Fat12 \<Rightarrow> 0xFF8 | Fat16 \<Rightarrow> 0xFFF8 | Fat32 \<Rightarrow> 0x0FFFFFF8)"

definition entry_link :: "fat_type \<Rightarrow> nat \<Rightarrow> nat \<Rightarrow> (nat option, fat_error) outcome" where
  "entry_link kind cl v =
     (if end_mark kind \<le> v then Ok None
      else if v + 1 = end_mark kind then Err (BadCluster cl) else Ok (Some v))"

definition valid_cluster :: "fat_geometry \<Rightarrow> nat \<Rightarrow> bool" where
  "valid_cluster g cl \<longleftrightarrow> 2 \<le> cl \<and> cl \<le> saturating_add32 (g_cluster_count g) 1"

definition entry_position :: "fat_geometry \<Rightarrow> nat \<Rightarrow> nat" where
  "entry_position g cl = g_table_start_sector g * g_sector_size g + entry_offset (g_kind g) cl"

text \<open>
  The successor of a cluster, as a function of the volume's bytes, when bytes can be read in whole
  blocks of \<open>b\<close> only.
\<close>

definition fat_link :: "nat \<Rightarrow> bytes \<Rightarrow> fat_geometry \<Rightarrow> nat \<Rightarrow> (nat option, fat_error) outcome" where
  "fat_link b c g cl =
     (if valid_cluster g cl
      then
        let p = entry_position g cl; n = entry_len (g_kind g)
        in if ((p + n - 1) div b + 1) * b \<le> length c
           then entry_link (g_kind g) cl (entry_value (g_kind g) cl (le_field c p n))
           else Err (Io UnexpectedEof)
      else Err (InvalidCluster cl))"

definition geometry_wf :: "fat_geometry \<Rightarrow> bool" where
  "geometry_wf g \<longleftrightarrow> g_sector_size g \<in> {512, 1024, 2048, 4096} \<and> 0 < g_cluster_size g
     \<and> g_cluster_size g \<le> 2 ^ 19 \<and> g_sector_size g dvd g_cluster_size g
     \<and> g_cluster_count g < 2 ^ 32 \<and> g_data_start_sector g < 2 ^ 32 \<and> g_table_start_sector g < 2 ^ 16
     \<and> g_kind g = from_clusters (g_cluster_count g)"

lemma fat_geometry_wf: "fat_wf f \<Longrightarrow> geometry_wf (file_geometry f)"
  by (auto simp: fat_wf_def geometry_wf_def file_geometry_def)

lemma valid_cluster_bounds:
  assumes "valid_cluster g cl"
  shows "2 \<le> cl" and "cl < 2 ^ 32" and "cl \<le> g_cluster_count g + 1"
  using assms by (auto simp: valid_cluster_def saturating_add32_def)

lemma geometry_products:
  assumes "geometry_wf g"
  shows "g_table_start_sector g * g_sector_size g < 2 ^ 28"
    and "g_data_start_sector g * g_sector_size g < 2 ^ 44"
proof -
  have "g_table_start_sector g * g_sector_size g \<le> (2 ^ 16 - 1) * 4096"
    "g_data_start_sector g * g_sector_size g \<le> (2 ^ 32 - 1) * 4096"
    using assms by (intro mult_le_mono; auto simp: geometry_wf_def)+
  then show "g_table_start_sector g * g_sector_size g < 2 ^ 28"
    "g_data_start_sector g * g_sector_size g < 2 ^ 44" by simp_all
qed

lemma fat12_clusters: "geometry_wf g \<Longrightarrow> g_kind g = Fat12 \<Longrightarrow> g_cluster_count g < 0xFF5"
  by (auto simp: geometry_wf_def from_clusters_def FAT16_MIN_CLUSTERS_def split: if_splits)

lemma entry_offset_bound:
  assumes "geometry_wf g" and "valid_cluster g cl"
  shows "entry_offset (g_kind g) cl < 2 ^ 34"
  using valid_cluster_bounds [OF assms(2)] fat12_clusters [OF assms(1)]
  by (cases "g_kind g") (auto simp: entry_offset_def)

lemma entry_position_bound:
  assumes "geometry_wf g" and "valid_cluster g cl"
  shows "entry_position g cl < 2 ^ 35"
  using entry_offset_bound [OF assms] geometry_products(1) [OF assms(1)] by (simp add: entry_position_def)


section \<open>The decoders compute it\<close>

lemma odd_word: "word_of_nat cl AND 1 = (1 :: u32) \<longleftrightarrow> odd cl"
proof -
  have "unat (word_of_nat cl AND 1 :: u32) = (cl mod 2 ^ 32) mod 2"
    by (simp only: unsigned_and_eq unsigned_1, simp add: unat_of_nat and_one_eq)
  also have "\<dots> = cl mod 2" by (simp add: mod_mod_cancel)
  finally show ?thesis by (simp add: word_unat_eq_iff odd_iff_mod_2_eq_one)
qed

lemma unat_from_le_u16: "length bs = 2 \<Longrightarrow> unat (from_le_bytes bs :: u16) = le_nat bs"
  using le_nat_bound [of bs] by (simp add: from_le_bytes_def unat_of_nat)

lemma unat_from_le_u32: "length bs = 4 \<Longrightarrow> unat (from_le_bytes bs :: u32) = le_nat bs"
  using le_nat_bound [of bs] by (simp add: from_le_bytes_def unat_of_nat)

lemma unat_and_0xFFF: "unat (w AND 0xFFF :: u16) = unat w mod 4096"
proof -
  have "unat (w AND 0xFFF) = unat w AND 4095" by (simp only: unsigned_and_eq) simp
  also have "\<dots> = take_bit 12 (unat w)" by (simp add: take_bit_eq_mask mask_eq_exp_minus_1)
  finally show ?thesis by (simp add: take_bit_eq_mod)
qed

lemma unat_and_0x0FFFFFFF: "unat (w AND 0x0FFFFFFF :: u32) = unat w mod 2 ^ 28"
proof -
  have "unat (w AND 0x0FFFFFFF) = unat w AND 268435455" by (simp only: unsigned_and_eq) simp
  also have "\<dots> = take_bit 28 (unat w)" by (simp add: take_bit_eq_mask mask_eq_exp_minus_1)
  finally show ?thesis by (simp add: take_bit_eq_mod)
qed

lemma unat_drop_4: "unat (drop_bit 4 w :: u16) = unat w div 16"
  using unat_less_power [of w]
  by (simp only: unsigned_drop_bit_eq, simp add: drop_bit_eq_div take_bit_nat_eq_self)

text \<open>Comparisons of an entry with a marker, as the sources write them.\<close>

lemma link_word:
  assumes "unat (value :: 'w::len word) = v" and "unat mark = end_mark kind" and "unat bad + 1 = end_mark kind"
  shows "(if mark \<le> value then Ok None else if value = bad then Err (BadCluster cl) else Ok (Some (unat value)))
    = entry_link kind cl v"
  using assms by (auto simp: entry_link_def word_le_nat_alt word_unat_eq_iff)

lemma decode12:
  assumes "length bs = 2"
  shows "unat (if word_of_nat cl AND 1 = (1 :: u32) then drop_bit 4 (from_le_bytes bs :: u16)
      else from_le_bytes bs AND 0x0FFF) = entry_value Fat12 cl (le_nat bs)"
  by (simp add: odd_word unat_drop_4 unat_and_0xFFF unat_from_le_u16 [OF assms] entry_value_def)

lemma decode16: "length bs = 2 \<Longrightarrow> unat (from_le_bytes bs :: u16) = entry_value Fat16 cl (le_nat bs)"
  by (simp add: unat_from_le_u16 entry_value_def)

lemma decode32:
  "length bs = 4 \<Longrightarrow> unat ((from_le_bytes bs :: u32) AND 0x0FFFFFFF) = entry_value Fat32 cl (le_nat bs)"
  by (simp add: unat_from_le_u32 unat_and_0x0FFFFFFF entry_value_def)

lemma decode_cached_eq:
  assumes "length bs = entry_len kind"
  shows "decode_cached kind cl bs = entry_link kind cl (entry_value kind cl (le_nat bs))"
proof (cases kind)
  case Fat12
  then have l: "length bs = 2" "take 2 bs = bs" using assms by (simp_all add: entry_len_def)
  show ?thesis unfolding Fat12 decode_cached_def Let_def fat_type.case l(2)
    by (rule link_word [OF decode12 [OF l(1)]]) (simp_all add: end_mark_def)
next
  case Fat16
  then have l: "length bs = 2" "take 2 bs = bs" using assms by (simp_all add: entry_len_def)
  show ?thesis unfolding Fat16 decode_cached_def Let_def fat_type.case l(2)
    by (rule link_word [OF decode16 [OF l(1)]]) (simp_all add: end_mark_def)
next
  case Fat32
  then have l: "length bs = 4" using assms by (simp add: entry_len_def)
  show ?thesis unfolding Fat32 decode_cached_def Let_def fat_type.case
    by (rule link_word [OF decode32 [OF l]]) (simp_all add: end_mark_def)
qed

context byte_reader
begin

lemma next_cluster_cached_link:
  assumes wf: "geometry_wf g" and inv: "cache_inv (content s) bc" and l: "lawful s"
  shows "\<exists>bc' s'. next_cluster_cached src g cl (bc, s) = (fat_link (bc_block_size bc) (content s) g cl, bc', s')
    \<and> cache_inv (content s) bc' \<and> bc_block_size bc' = bc_block_size bc \<and> lawful s' \<and> content s' = content s"
proof (cases "valid_cluster g cl")
  case False
  then have "next_cluster_cached src g cl (bc, s) = (Err (InvalidCluster cl), bc, s)"
    by (auto simp: next_cluster_cached_def valid_cluster_def)
  with False inv l show ?thesis by (simp add: fat_link_def)
next
  case True
  let ?k = "g_kind g" and ?p = "entry_position g cl"
  have p: "?p < 2 ^ 35" and off: "entry_offset ?k cl < 2 ^ 34"
    using entry_position_bound [OF wf True] entry_offset_bound [OF wf True] by simp_all
  have n: "0 < entry_len ?k" "entry_len ?k \<le> 4" by (cases ?k; simp add: entry_len_def)+
  have sel: "(case ?k of Fat12 \<Rightarrow> and_then (add32 cl (cl div 2)) (\<lambda>p. Ok (p, 2))
      | Fat16 \<Rightarrow> Ok (cl * 2, 2) | Fat32 \<Rightarrow> Ok (cl * 4, 4)) = Ok (entry_offset ?k cl, entry_len ?k)"
    using fat12_clusters [OF wf] valid_cluster_bounds(3) [OF True]
    by (cases ?k) (auto simp: entry_offset_def entry_len_def)
  have base: "and_then (mul64 (g_table_start_sector g) (g_sector_size g)) (\<lambda>b. add64 b (entry_offset ?k cl)) = Ok ?p"
    using p geometry_products(1) [OF wf] by (simp add: entry_position_def)
  have "?p + entry_len ?k < 2 ^ 63" using p n(2) by simp
  from cache_read_exact_at_total [OF inv l n(1) this] obtain bc' s' where
    r: "cache_read_exact_at src bc s ?p (entry_len ?k)
      = (if ((?p + entry_len ?k - 1) div bc_block_size bc + 1) * bc_block_size bc \<le> length (content s)
         then Ok (slice (content s) ?p (entry_len ?k)) else Err UnexpectedEof, bc', s')"
      "cache_inv (content s) bc'" "bc_block_size bc' = bc_block_size bc" "lawful s'" "content s' = content s"
    by blast
  have "next_cluster_cached src g cl (bc, s) = and_do (apfst (map_err Io) (cache_read_exact_at src bc s ?p (entry_len ?k)))
      (\<lambda>bytes st. (decode_cached ?k cl bytes, st))"
    using True by (simp add: next_cluster_cached_def valid_cluster_def sel base del: One_nat_def)
  moreover have "length (slice (content s) ?p (entry_len ?k)) = entry_len ?k"
    if "((?p + entry_len ?k - 1) div bc_block_size bc + 1) * bc_block_size bc \<le> length (content s)"
  proof -
    have "0 < bc_block_size bc" using inv by (simp add: cache_inv_def)
    then have "?p + entry_len ?k - 1 < ((?p + entry_len ?k - 1) div bc_block_size bc + 1) * bc_block_size bc"
      by (metis Suc_eq_plus1 dividend_less_div_times mult.commute mult_Suc_right add.commute)
    then show ?thesis using that n(1) by (intro length_slice_fits) linarith
  qed
  ultimately have "next_cluster_cached src g cl (bc, s) = (fat_link (bc_block_size bc) (content s) g cl, bc', s')"
    using True by (simp add: r(1) fat_link_def Let_def decode_cached_eq le_field_def del: One_nat_def length_slice)
  with r(2-5) show ?thesis by blast
qed

lemma read_entry:
  assumes "lawful s" and "p < 2 ^ 35" and "0 < n" and "n \<le> 4"
  shows "\<exists>s'. read_exact_from src s p n
      = (if ((p + n - 1) div 1 + 1) * 1 \<le> length (content s) then Ok (slice (content s) p n) else Err UnexpectedEof, s')
    \<and> lawful s' \<and> content s' = content s"
proof -
  have p: "p < 2 ^ 63" using assms(2) by simp
  show ?thesis
    using read_exact_from_ok [OF assms(1) p, of n] read_exact_from_eof [OF assms(1) p, of n] assms(3)
    by (cases "p + n \<le> length (content s)") (auto simp: not_le)
qed

text \<open>
  The uncached lookup reads the same entry byte by byte; its three decoders agree with the cached
  one.
\<close>

lemma next_cluster_link:
  assumes wf: "fat_wf f" and l: "lawful s" and max: "f_total_clusters f + 1 < 2 ^ 32"
  shows "\<exists>s'. next_cluster src f s cl = (fat_link 1 (content s) (file_geometry f) cl, s')
    \<and> lawful s' \<and> content s' = content s"
proof (cases "valid_cluster (file_geometry f) cl")
  case False
  then have "next_cluster src f s cl = (Err (InvalidCluster cl), s)"
    using max by (auto simp: next_cluster_def valid_cluster_def file_geometry_def saturating_add32_def)
  with False l show ?thesis by (simp add: fat_link_def)
next
  case True
  let ?g = "file_geometry f"
  let ?k = "f_type f" and ?p = "entry_position ?g cl"
  note gwf = fat_geometry_wf [OF wf]
  have k: "g_kind ?g = ?k" by (simp add: file_geometry_def)
  have p: "?p < 2 ^ 35" using entry_position_bound [OF gwf True] .
  have "0 < entry_len ?k" "entry_len ?k \<le> 4" by (cases ?k; simp add: entry_len_def)+
  from read_entry [OF l p this] obtain s' where
    r: "read_exact_from src s ?p (entry_len ?k)
      = (if ((?p + entry_len ?k - 1) div 1 + 1) * 1 \<le> length (content s)
         then Ok (slice (content s) ?p (entry_len ?k)) else Err UnexpectedEof, s')"
      "lawful s'" "content s' = content s"
    by blast
  have base: "and_then (mul64 (f_fat_start_sector f) (f_sector_size f)) (\<lambda>b. add64 b (entry_offset ?k cl))
      = (Ok ?p :: (nat, fat_error) outcome)"
    using p geometry_products(1) [OF gwf] by (simp add: entry_position_def file_geometry_def)
  have len: "length (slice (content s) ?p (entry_len ?k)) = entry_len ?k"
    if "((?p + entry_len ?k - 1) div 1 + 1) * 1 \<le> length (content s)"
    using that \<open>0 < entry_len ?k\<close> by (intro length_slice_fits) simp
  have "next_cluster src f s cl = (case ?k of Fat12 \<Rightarrow> next_cluster_fat12 src f s cl
      | Fat16 \<Rightarrow> next_cluster_fat16 src f s cl | Fat32 \<Rightarrow> next_cluster_fat32 src f s cl)"
    using True max by (auto simp: next_cluster_def valid_cluster_def file_geometry_def saturating_add32_def)
  also have "\<dots> = and_do (apfst (map_err Io) (read_exact_from src s ?p (entry_len ?k)))
      (\<lambda>bs s. (decode_cached ?k cl bs, s))"
  proof (cases ?k)
    case Fat12
    then have "(add32 cl (cl div 2) :: (nat, fat_error) outcome) = Ok (entry_offset Fat12 cl)"
      using fat12_clusters [OF gwf] valid_cluster_bounds(3) [OF True] k
      by (simp add: entry_offset_def)
    moreover have "take 2 (slice c p 2) = slice c p 2" for c :: bytes and p by simp
    ultimately show ?thesis
      using r(1) base unfolding Fat12
      by (cases "?p + 2 \<le> length (content s)")
        (simp_all only: fat_type.case next_cluster_fat12_def decode_cached_def Let_def, auto simp: entry_len_def)
  next
    case Fat16
    then show ?thesis
      using r(1) base by (cases "?p + 2 \<le> length (content s)")
        (simp_all add: next_cluster_fat16_def decode_cached_def Let_def entry_len_def entry_offset_def)
  next
    case Fat32
    then show ?thesis
      using r(1) base by (cases "?p + 4 \<le> length (content s)")
        (simp_all add: next_cluster_fat32_def decode_cached_def Let_def entry_len_def entry_offset_def)
  qed
  also have "\<dots> = (fat_link 1 (content s) ?g cl, s')"
    using True by (simp add: r(1) fat_link_def Let_def decode_cached_eq len le_field_def k del: length_slice)
  finally show ?thesis using r by blast
qed

end

text \<open>On a volume of whole blocks the granularity does not matter.\<close>

lemma fat_link_whole_blocks:
  assumes "b dvd length c" and "0 < b"
  shows "fat_link b c g cl = fat_link 1 c g cl"
proof -
  have "((x div b + 1) * b \<le> length c) = (x + 1 \<le> length c)" for x
  proof -
    obtain m where m: "length c = m * b" using assms(1) by (auto simp: dvd_def mult.commute)
    have "(x div b + 1) * b \<le> m * b \<longleftrightarrow> x div b + 1 \<le> m"
      using assms(2) by (simp only: mult_le_cancel2) simp
    then have "(x div b + 1) * b \<le> m * b \<longleftrightarrow> x div b < m" by (simp only: less_eq_Suc_le Suc_eq_plus1)
    also have "\<dots> \<longleftrightarrow> x < m * b" using assms(2) by (simp add: div_less_iff_less_mult)
    finally show ?thesis by (simp add: m less_eq_Suc_le)
  qed
  then show ?thesis by (simp add: fat_link_def Let_def)
qed

lemma cluster_offset_valid:
  assumes "geometry_wf g" and "valid_cluster g cl"
  shows "geometry_cluster_offset g cl
    = Ok (g_data_start_sector g * g_sector_size g + (cl - 2) * g_cluster_size g)"
    and "g_data_start_sector g * g_sector_size g + (cl - 2) * g_cluster_size g < 2 ^ 52"
proof -
  have "(cl - 2) * g_cluster_size g \<le> (2 ^ 32 - 1) * 2 ^ 19"
    using assms valid_cluster_bounds(2) [OF assms(2)] by (intro mult_le_mono) (auto simp: geometry_wf_def)
  moreover have "g_data_start_sector g * g_sector_size g < 2 ^ 44" by (rule geometry_products(2) [OF assms(1)])
  ultimately have b: "(cl - 2) * g_cluster_size g < 2 ^ 51" "g_data_start_sector g * g_sector_size g < 2 ^ 44"
    by simp_all
  then show "g_data_start_sector g * g_sector_size g + (cl - 2) * g_cluster_size g < 2 ^ 52" by simp
  with b assms(2) show "geometry_cluster_offset g cl
      = Ok (g_data_start_sector g * g_sector_size g + (cl - 2) * g_cluster_size g)"
    by (auto simp: geometry_cluster_offset_def valid_cluster_def)
qed

lemma cluster_offset_invalid:
  "\<not> valid_cluster g cl \<Longrightarrow> geometry_cluster_offset g cl = Err (InvalidCluster cl)"
  by (auto simp: geometry_cluster_offset_def valid_cluster_def)

end
