(* ===== verification/Value_Reader.thy ===== *)
theory Value_Reader
  imports Byte_Source
begin

text \<open>
  \<open>fsmnt-parser-core/src/io/traits.rs\<close>: \<open>FsReadSeek\<close>, the trait of the values a parser hands out
  (the data of a file), which are read and positioned through a device reader passed along. The
  locale \<open>value_reader\<close> is the contract: a seek clamps to the length of the data, a read returns a
  prefix of what is at the position, and nothing only at the end. The trait's provided method
  \<open>read_exact\<close> is proved once against the contract.
\<close>

text \<open>The state \<open>'v\<close> holds the value and its device reader.\<close>

record ('v, 'e) value_ops =
  v_read :: "'v \<Rightarrow> nat \<Rightarrow> (bytes, 'e) outcome \<times> 'v"
  v_seek :: "'v \<Rightarrow> seek_from \<Rightarrow> (nat, 'e) outcome \<times> 'v"

text \<open>\<open>interrupted\<close> is \<open>e.io_kind() == Some(ErrorKind::Interrupted)\<close>.\<close>

partial_function (option) value_read_exact_loop ::
  "('v, 'e) value_ops \<Rightarrow> ('e \<Rightarrow> bool) \<Rightarrow> 'e \<Rightarrow> 'v \<Rightarrow> nat \<Rightarrow> bytes \<Rightarrow> ((bytes, 'e) outcome \<times> 'v) option" where
  "value_read_exact_loop ops interrupted eof v n acc =
     (if n = 0 then Some (Ok acc, v)
      else let (r, v') = v_read ops v n in
        case r of
          Ok bs \<Rightarrow>
            (if bs = [] then Some (Err eof, v')
             else if length bs > n then Some (Panic, v')
             else value_read_exact_loop ops interrupted eof v' (n - length bs) (acc @ bs))
        | Err e \<Rightarrow> (if interrupted e then value_read_exact_loop ops interrupted eof v' n acc
                    else Some (Err e, v'))
        | Panic \<Rightarrow> Some (Panic, v')
        | Diverge \<Rightarrow> Some (Diverge, v'))"

definition value_read_exact ::
  "('v, 'e) value_ops \<Rightarrow> ('e \<Rightarrow> bool) \<Rightarrow> 'e \<Rightarrow> 'v \<Rightarrow> nat \<Rightarrow> (bytes, 'e) outcome \<times> 'v" where
  "value_read_exact ops interrupted eof v n =
     (case value_read_exact_loop ops interrupted eof v n [] of Some r \<Rightarrow> r | None \<Rightarrow> (Diverge, v))"

locale value_reader =
  fixes ops :: "('v, 'e) value_ops"
    and lawful :: "'v \<Rightarrow> bool"
    and pos :: "'v \<Rightarrow> nat"
    and data :: "'v \<Rightarrow> bytes"
  assumes value_seek: "lawful v \<Longrightarrow>
      \<exists>v'. v_seek ops v (Start p) = (Ok (min p (length (data v))), v') \<and> lawful v'
        \<and> pos v' = min p (length (data v)) \<and> data v' = data v"
    and value_read: "lawful v \<Longrightarrow>
      \<exists>k v'. v_read ops v n = (Ok (slice (data v) (pos v) k), v') \<and> lawful v'
        \<and> k \<le> n \<and> k \<le> length (data v) - pos v \<and> pos v' = pos v + k \<and> data v' = data v
        \<and> (k = 0 \<longrightarrow> n = 0 \<or> length (data v) \<le> pos v)"
begin

lemma read_exact_loop_answers:
  assumes "lawful v"
  shows "\<exists>v'. value_read_exact_loop ops interrupted eof v n acc
      = Some (if n = 0 \<or> pos v + n \<le> length (data v) then Ok (acc @ slice (data v) (pos v) n) else Err eof, v')
    \<and> lawful v' \<and> data v' = data v \<and> (n = 0 \<or> pos v + n \<le> length (data v) \<longrightarrow> pos v' = pos v + n)"
  using assms
proof (induction n arbitrary: v acc rule: less_induct)
  case (less n)
  from value_read [OF less.prems, of n] obtain k v' where
    r: "v_read ops v n = (Ok (slice (data v) (pos v) k), v')" "lawful v'" "k \<le> n"
       "k \<le> length (data v) - pos v" "pos v' = pos v + k" "data v' = data v"
    and k0: "k = 0 \<longrightarrow> n = 0 \<or> length (data v) \<le> pos v"
    by blast
  consider "n = 0" | "0 < n" "k = 0" | "0 < n" "0 < k" by linarith
  then show ?case
  proof cases
    case 1
    with less.prems show ?thesis by (subst value_read_exact_loop.simps) simp
  next
    case 2
    with k0 r show ?thesis by (subst value_read_exact_loop.simps) (auto simp: Let_def)
  next
    case 3
    have ln: "length (slice (data v) (pos v) k) = k" using r(4) by simp
    have ne: "slice (data v) (pos v) k \<noteq> []" using ln 3(2) by (metis list.size(3) less_irrefl)
    have split: "slice (data v) (pos v) k @ slice (data v) (pos v + k) (n - k) = slice (data v) (pos v) n"
      using slice_append_slice [of "data v" "pos v" k "n - k"] r(3) by simp
    have fits: "n - k = 0 \<or> pos v' + (n - k) \<le> length (data v') \<longleftrightarrow> n = 0 \<or> pos v + n \<le> length (data v)"
      using r 3 by auto
    have "n - k < n" using 3 r(3) by simp
    from less.IH [OF this r(2), of "acc @ slice (data v) (pos v) k"] obtain v'' where
      "value_read_exact_loop ops interrupted eof v' (n - k) (acc @ slice (data v) (pos v) k)
        = Some (if n = 0 \<or> pos v + n \<le> length (data v) then Ok (acc @ slice (data v) (pos v) n) else Err eof, v'')"
      "lawful v''" "data v'' = data v"
      "n = 0 \<or> pos v + n \<le> length (data v) \<longrightarrow> pos v'' = pos v + n"
      unfolding fits using r(3,5,6) split by auto
    moreover have "value_read_exact_loop ops interrupted eof v n acc
        = value_read_exact_loop ops interrupted eof v' (n - k) (acc @ slice (data v) (pos v) k)"
      using 3 r(1,3) ne ln by (subst value_read_exact_loop.simps) (simp add: Let_def)
    ultimately show ?thesis by auto
  qed
qed

lemma read_exact_answers:
  assumes "lawful v"
  shows "\<exists>v'. value_read_exact ops interrupted eof v n
      = (if n = 0 \<or> pos v + n \<le> length (data v) then Ok (slice (data v) (pos v) n) else Err eof, v')
    \<and> lawful v' \<and> data v' = data v \<and> (n = 0 \<or> pos v + n \<le> length (data v) \<longrightarrow> pos v' = pos v + n)"
  using read_exact_loop_answers [OF assms, of interrupted eof n "[]"] by (auto simp: value_read_exact_def)

text \<open>Positioning and reading a range, as every client does.\<close>

lemma seek_read_exact:
  assumes "lawful v"
  shows "\<exists>v'. and_do (v_seek ops v (Start p)) (\<lambda>_ v. value_read_exact ops interrupted eof v n)
      = (if n = 0 \<or> p + n \<le> length (data v) then Ok (slice (data v) p n) else Err eof, v')
    \<and> lawful v' \<and> data v' = data v"
proof -
  obtain v1 where v1: "v_seek ops v (Start p) = (Ok (min p (length (data v))), v1)" "lawful v1"
      "pos v1 = min p (length (data v))" "data v1 = data v"
    using value_seek [OF assms] by blast
  obtain v' where "value_read_exact ops interrupted eof v1 n
      = (if n = 0 \<or> pos v1 + n \<le> length (data v1) then Ok (slice (data v1) (pos v1) n) else Err eof, v')"
      "lawful v'" "data v' = data v1"
    using read_exact_answers [OF v1(2)] by blast
  moreover have "n = 0 \<or> pos v1 + n \<le> length (data v1) \<longleftrightarrow> n = 0 \<or> p + n \<le> length (data v)"
    using v1(3,4) by auto
  moreover have "slice (data v1) (pos v1) n = slice (data v) p n" if "n = 0 \<or> p + n \<le> length (data v)"
    using that v1(3,4) by (auto simp: min_def)
  ultimately show ?thesis using v1 by auto
qed

end

end
