(* ===== verification/Fat_Value.thy ===== *)
theory Fat_Value
  imports Fat_Link Value_Reader
begin

text \<open>
  \<open>fs-fat/src/value.rs\<close>: the data of a FAT file, read by following its cluster chain. The state of
  a value is paired with the volume's reader. The loops of \<open>seek_to_position\<close> and of \<open>read\<close> end
  because every step along the chain is counted against the number of clusters of the volume,
  whatever the allocation table says.
\<close>

section \<open>The reader\<close>

record fat_file_value =
  fv_geometry :: fat_geometry
  fv_first_cluster :: "nat option"
  fv_current_cluster :: "nat option"
  fv_position_in_cluster :: nat
  fv_stream_position :: nat
  fv_data_size :: nat
  fv_clusters_traversed :: nat
  fv_fat_cache :: block_cache

type_synonym 's fat_value = "fat_file_value \<times> 's"

definition fv_new :: "fat \<Rightarrow> nat option \<Rightarrow> nat \<Rightarrow> (fat_file_value, io_error) outcome" where
  "fv_new f first_cluster data_size =
     (let geometry = file_geometry f in
      and_then (cache_new (g_sector_size geometry)) (\<lambda>fat_cache.
        Ok \<lparr>fv_geometry = geometry, fv_first_cluster = first_cluster, fv_current_cluster = first_cluster,
            fv_position_in_cluster = 0, fv_stream_position = 0, fv_data_size = data_size,
            fv_clusters_traversed = 0, fv_fat_cache = fat_cache\<rparr>))"

definition fv_rewind :: "fat_file_value \<Rightarrow> fat_file_value" where
  "fv_rewind v = v\<lparr>fv_current_cluster := fv_first_cluster v, fv_position_in_cluster := 0,
     fv_stream_position := 0, fv_clusters_traversed := 0\<rparr>"

definition fv_remaining :: "fat_file_value \<Rightarrow> nat" where
  "fv_remaining v = fv_data_size v - fv_stream_position v"

definition advance_cluster :: "'s source \<Rightarrow> 's fat_value \<Rightarrow> (bool, fat_error) outcome \<times> 's fat_value" where
  "advance_cluster src st =
     (let (v, s) = st; max_clusters = g_cluster_count (fv_geometry v) in
      case fv_current_cluster v of
        None \<Rightarrow> (Ok False, st)
      | Some current \<Rightarrow>
          if max_clusters \<le> fv_clusters_traversed v then (Err (ClusterChainLoop max_clusters), st)
          else
            and_do (apsnd (\<lambda>(bc, s). (v\<lparr>fv_fat_cache := bc\<rparr>, s))
                (next_cluster_cached src (fv_geometry v) current (fv_fat_cache v, s))) (\<lambda>next (v, s).
              case next of
                Some n \<Rightarrow> (Ok True, v\<lparr>fv_current_cluster := Some n, fv_position_in_cluster := 0,
                  fv_clusters_traversed := fv_clusters_traversed v + 1\<rparr>, s)
              | None \<Rightarrow> (Ok False, v\<lparr>fv_current_cluster := None\<rparr>, s)))"

text \<open>What is left of the chain's budget.\<close>

definition fv_budget :: "'s fat_value \<Rightarrow> nat" where
  "fv_budget st = g_cluster_count (fv_geometry (fst st)) - fv_clusters_traversed (fst st)"

lemma advance_cluster_budget:
  "advance_cluster src (v, s) = (Ok True, st') \<Longrightarrow> fv_budget st' < fv_budget (v, s)"
  by (auto simp: advance_cluster_def fv_budget_def Let_def and_do_eq_Ok_iff apsnd_def map_prod_def
      split: option.splits if_splits prod.splits)

text \<open>
  One iteration of the loop of \<open>seek_to_position\<close>: whether another one follows. Division by a
  cluster size of zero panics.
\<close>

definition seek_step :: "'s source \<Rightarrow> nat \<Rightarrow> 's fat_value \<Rightarrow> (bool, fat_error) outcome \<times> 's fat_value" where
  "seek_step src target st =
     (let (v, s) = st; cluster_size = g_cluster_size (fv_geometry v) in
      if cluster_size = 0 then (Panic, st)
      else if fv_stream_position v div cluster_size < target div cluster_size
      then and_do (and_then (sub_or_panic cluster_size (fv_position_in_cluster v))
               (\<lambda>step. add64 (fv_stream_position v) step), st) (\<lambda>position (v, s).
             advance_cluster src (v\<lparr>fv_stream_position := position\<rparr>, s))
      else (Ok False, st))"

lemma seek_step_budget:
  assumes "seek_step src target st = (Ok True, st')"
  shows "fv_budget st' < fv_budget st"
proof -
  obtain v s where st: "st = (v, s)" by (cases st)
  obtain position where "advance_cluster src (v\<lparr>fv_stream_position := position\<rparr>, s) = (Ok True, st')"
    using assms by (auto simp: st seek_step_def Let_def and_do_eq_Ok_iff split: if_splits)
  from advance_cluster_budget [OF this] show ?thesis by (simp add: st fv_budget_def)
qed

declare and_do_cong [fundef_cong]

function seek_loop :: "'s source \<Rightarrow> nat \<Rightarrow> 's fat_value \<Rightarrow> (unit, fat_error) outcome \<times> 's fat_value" where
  "seek_loop src target st =
     and_do (seek_step src target st) (\<lambda>more st. if more then seek_loop src target st else (Ok (), st))"
  by pat_completeness auto
termination
  by (relation "measure (\<lambda>(src, target, st). fv_budget st)") (auto dest: seek_step_budget)

declare seek_loop.simps [simp del]

definition seek_to_position :: "'s source \<Rightarrow> nat \<Rightarrow> 's fat_value \<Rightarrow> (unit, fat_error) outcome \<times> 's fat_value" where
  "seek_to_position src target st =
     (let (v, s) = st;
          cluster_size = g_cluster_size (fv_geometry v);
          target_pos = min target (fv_data_size v);
          v = (if target_pos < fv_stream_position v then fv_rewind v else v)
      in and_do (seek_loop src target_pos (v, s)) (\<lambda>_ (v, s).
           if 2 ^ 32 \<le> target_pos mod cluster_size then (Err BpbOverflow, v, s)
           else (Ok (), v\<lparr>fv_position_in_cluster := target_pos mod cluster_size,
                          fv_stream_position := target_pos\<rparr>, s)))"

text \<open>\<open>read\<close> once it has a cluster and something to read from it.\<close>

definition read_cluster ::
  "'s source \<Rightarrow> nat \<Rightarrow> nat \<Rightarrow> 's fat_value \<Rightarrow> (bytes, fat_error) outcome \<times> 's fat_value" where
  "read_cluster src cluster to_read st =
     (let (v, s) = st in
      and_do (and_then (geometry_cluster_offset (fv_geometry v) cluster)
          (\<lambda>base. add64 base (fv_position_in_cluster v)), st) (\<lambda>disk_offset (v, s).
      and_do (apfst (map_err Io) (apsnd (Pair v) (do_seek src s (Start disk_offset)))) (\<lambda>_ (v, s).
      and_do (apfst (map_err Io) (apsnd (Pair v) (do_read src s to_read))) (\<lambda>bs (v, s).
        if 2 ^ 32 \<le> length bs then (Err BpbOverflow, v, s)
        else
          and_do (add32 (fv_position_in_cluster v) (length bs), v, s) (\<lambda>in_cluster (v, s).
          and_do (add64 (fv_stream_position v) (length bs), v\<lparr>fv_position_in_cluster := in_cluster\<rparr>, s)
            (\<lambda>position (v, s).
          let v = v\<lparr>fv_stream_position := position\<rparr> in
          if g_cluster_size (fv_geometry v) \<le> fv_position_in_cluster v
          then and_do (advance_cluster src (v, s)) (\<lambda>_ st. (Ok bs, st))
          else (Ok bs, v, s)))))))"

text \<open>
  One iteration of the loop of \<open>read\<close>: the bytes it returns, or that the loop goes on because the
  position is at the end of a cluster.
\<close>

definition read_step ::
  "'s source \<Rightarrow> nat \<Rightarrow> 's fat_value \<Rightarrow> (bytes option, fat_error) outcome \<times> 's fat_value" where
  "read_step src n st =
     (let (v, s) = st in
      case fv_current_cluster v of
        None \<Rightarrow> (Ok (Some []), st)
      | Some cluster \<Rightarrow>
          and_do (sub_or_panic (g_cluster_size (fv_geometry v)) (fv_position_in_cluster v), st)
            (\<lambda>remaining_in_cluster st.
              let to_read = min (min n remaining_in_cluster) (fv_remaining v)
              in if to_read = 0
                 then and_do (advance_cluster src st) (\<lambda>more st. (Ok (if more then None else Some []), st))
                 else and_do (read_cluster src cluster to_read st) (\<lambda>bs st. (Ok (Some bs), st))))"

lemma read_step_budget:
  fixes src :: "'s source"
  assumes "read_step src n st = (Ok None, st')"
  shows "fv_budget st' < fv_budget st"
proof -
  obtain v s where st: "st = (v, s)" by (cases st)
  have "advance_cluster src (v, s) = (Ok True, st')"
    using assms by (auto simp: st read_step_def Let_def and_do_eq_Ok_iff split: option.splits if_splits)
  then show ?thesis unfolding st by (rule advance_cluster_budget)
qed

function read_loop :: "'s source \<Rightarrow> nat \<Rightarrow> 's fat_value \<Rightarrow> (bytes, fat_error) outcome \<times> 's fat_value" where
  "read_loop src n st =
     and_do (read_step src n st) (\<lambda>r st. case r of Some bs \<Rightarrow> (Ok bs, st) | None \<Rightarrow> read_loop src n st)"
  by pat_completeness auto
termination
  by (relation "measure (\<lambda>(src, n, st). fv_budget st)") (auto dest: read_step_budget)

declare read_loop.simps [simp del]

declare and_do_cong [fundef_cong del]

definition fv_read :: "'s source \<Rightarrow> 's fat_value \<Rightarrow> nat \<Rightarrow> (bytes, fat_error) outcome \<times> 's fat_value" where
  "fv_read src st n =
     (if n = 0 then (Ok [], st)
      else if fv_remaining (fst st) = 0 then (Ok [], st)
      else read_loop src n st)"

definition fv_seek :: "'s source \<Rightarrow> 's fat_value \<Rightarrow> seek_from \<Rightarrow> (nat, fat_error) outcome \<times> 's fat_value" where
  "fv_seek src st whence =
     (let v = fst st;
          target_pos = (case whence of
              Start n \<Rightarrow> n
            | End d \<Rightarrow> if 0 \<le> d then saturating_add64 (fv_data_size v) (nat d) else fv_data_size v - nat (- d)
            | Current d \<Rightarrow> if 0 \<le> d then saturating_add64 (fv_stream_position v) (nat d)
                          else fv_stream_position v - nat (- d))
      in and_do (seek_to_position src target_pos st) (\<lambda>_ st. (Ok (fv_stream_position (fst st)), st)))"

definition fat_value_ops :: "'s source \<Rightarrow> ('s fat_value, fat_error) value_ops" where
  "fat_value_ops src = \<lparr>v_read = fv_read src, v_seek = fv_seek src\<rparr>"

end
