(* ===== verification/Fat_File.thy ===== *)
theory Fat_File
  imports Fat_Value
begin

text \<open>
  What a FAT file contains, as a function of the volume's bytes: the clusters of its chain, cut to
  the size in its directory entry. The reader of \<open>Fat_Value\<close> satisfies the contract of a value
  reader for this content, on every volume in which the file's chain is intact.
\<close>

section \<open>The content of a file\<close>

primrec fat_chain :: "nat \<Rightarrow> bytes \<Rightarrow> fat_geometry \<Rightarrow> nat \<Rightarrow> nat list" where
  "fat_chain 0 c g cl = []"
| "fat_chain (Suc n) c g cl =
     cl # (case fat_link (g_sector_size g) c g cl of Ok (Some next) \<Rightarrow> fat_chain n c g next | _ \<Rightarrow> [])"

definition cluster_position :: "fat_geometry \<Rightarrow> nat \<Rightarrow> nat" where
  "cluster_position g cl = g_data_start_sector g * g_sector_size g + (cl - 2) * g_cluster_size g"

definition cluster_bytes :: "bytes \<Rightarrow> fat_geometry \<Rightarrow> nat \<Rightarrow> bytes" where
  "cluster_bytes c g cl = slice c (cluster_position g cl) (g_cluster_size g)"

definition file_clusters :: "bytes \<Rightarrow> fat_file_value \<Rightarrow> nat list" where
  "file_clusters c v = (case fv_first_cluster v of None \<Rightarrow> []
     | Some cl \<Rightarrow> fat_chain (g_cluster_count (fv_geometry v)) c (fv_geometry v) cl)"

definition file_data :: "bytes \<Rightarrow> fat_file_value \<Rightarrow> bytes" where
  "file_data c v = take (fv_data_size v) (concat (map (cluster_bytes c (fv_geometry v)) (file_clusters c v)))"

text \<open>A chain that is intact: its clusters lie on the volume and it ends with the end mark.\<close>

definition chain_ok :: "bytes \<Rightarrow> fat_geometry \<Rightarrow> nat list \<Rightarrow> bool" where
  "chain_ok c g cls \<longleftrightarrow>
     list_all (\<lambda>cl. valid_cluster g cl \<and> cluster_position g cl + g_cluster_size g \<le> length c) cls
     \<and> cls \<noteq> [] \<and> fat_link (g_sector_size g) c g (last cls) = Ok None"

definition file_ok :: "bytes \<Rightarrow> fat_file_value \<Rightarrow> bool" where
  "file_ok c v \<longleftrightarrow> geometry_wf (fv_geometry v) \<and> (fv_data_size v = 0
     \<or> chain_ok c (fv_geometry v) (file_clusters c v)
       \<and> fv_data_size v \<le> length (file_clusters c v) * g_cluster_size (fv_geometry v)
       \<and> fv_data_size v < 2 ^ 63)"

text \<open>The position along the chain agrees with the position in the file.\<close>

definition fv_placed :: "bytes \<Rightarrow> fat_file_value \<Rightarrow> bool" where
  "fv_placed c v \<longleftrightarrow>
     (let cls = file_clusters c v; cs = g_cluster_size (fv_geometry v); t = fv_clusters_traversed v
      in case fv_current_cluster v of
           Some cl \<Rightarrow> t < length cls \<and> cl = cls ! t \<and> fv_position_in_cluster v < cs
             \<and> fv_stream_position v = t * cs + fv_position_in_cluster v
         | None \<Rightarrow> fv_stream_position v = length cls * cs)"

definition fv_cache_ok :: "bytes \<Rightarrow> fat_file_value \<Rightarrow> bool" where
  "fv_cache_ok c v \<longleftrightarrow> cache_inv c (fv_fat_cache v)
     \<and> bc_block_size (fv_fat_cache v) = g_sector_size (fv_geometry v)"

definition fv_inv :: "('s \<Rightarrow> bool) \<Rightarrow> ('s \<Rightarrow> bytes) \<Rightarrow> 's fat_value \<Rightarrow> bool" where
  "fv_inv lawful content st \<longleftrightarrow>
     (let (v, s) = st; c = content s
      in lawful s \<and> file_ok c v \<and> fv_cache_ok c v \<and> fv_stream_position v \<le> fv_data_size v
         \<and> fv_position_in_cluster v \<le> g_cluster_size (fv_geometry v)
         \<and> (fv_data_size v = 0 \<or> fv_placed c v))"

definition same_file :: "fat_file_value \<Rightarrow> fat_file_value \<Rightarrow> bool" where
  "same_file v v' \<longleftrightarrow> fv_geometry v' = fv_geometry v \<and> fv_first_cluster v' = fv_first_cluster v
     \<and> fv_data_size v' = fv_data_size v"


section \<open>Chains\<close>

lemma length_fat_chain: "length (fat_chain n c g cl) \<le> n"
  by (induction n arbitrary: cl) (auto split: outcome.splits option.splits)

lemma fat_chain_link:
  "Suc i < length (fat_chain n c g cl) \<Longrightarrow>
    fat_link (g_sector_size g) c g (fat_chain n c g cl ! i) = Ok (Some (fat_chain n c g cl ! Suc i))"
proof (induction n arbitrary: cl i)
  case (Suc n)
  then obtain nx where nx: "fat_link (g_sector_size g) c g cl = Ok (Some nx)"
    by (auto split: outcome.splits option.splits)
  show ?case
  proof (cases i)
    case 0
    have "fat_chain n c g nx ! 0 = nx" if "0 < length (fat_chain n c g nx)"
      using that by (cases n) simp_all
    then show ?thesis using Suc.prems nx 0 by simp
  next
    case (Suc j)
    then show ?thesis using Suc.prems nx Suc.IH [of j nx] by simp
  qed
qed simp

lemma length_file_clusters: "length (file_clusters c v) \<le> g_cluster_count (fv_geometry v)"
  by (simp add: file_clusters_def length_fat_chain split: option.split)

lemma file_clusters_link:
  "Suc t < length (file_clusters c v) \<Longrightarrow>
    fat_link (g_sector_size (fv_geometry v)) c (fv_geometry v) (file_clusters c v ! t)
      = Ok (Some (file_clusters c v ! Suc t))"
  by (auto simp: file_clusters_def fat_chain_link split: option.splits)

lemma file_clusters_last:
  assumes "chain_ok c (fv_geometry v) (file_clusters c v)" and "Suc t = length (file_clusters c v)"
  shows "fat_link (g_sector_size (fv_geometry v)) c (fv_geometry v) (file_clusters c v ! t) = Ok None"
proof -
  have "last (file_clusters c v) = file_clusters c v ! t"
    using assms by (simp add: chain_ok_def last_conv_nth flip: assms(2))
  then show ?thesis using assms(1) by (simp add: chain_ok_def)
qed

lemma same_file_clusters:
  "same_file v v' \<Longrightarrow> file_clusters c v' = file_clusters c v" "same_file v v' \<Longrightarrow> file_data c v' = file_data c v"
  "same_file v v' \<Longrightarrow> file_ok c v' = file_ok c v"
  by (simp_all add: same_file_def file_clusters_def file_data_def file_ok_def cong: option.case_cong)

text \<open>A range inside one cluster of the content.\<close>

lemma length_cluster_bytes:
  "chain_ok c g cls \<Longrightarrow> list_all (\<lambda>cl. length (cluster_bytes c g cl) = g_cluster_size g) cls"
  by (auto simp: chain_ok_def cluster_bytes_def list_all_iff length_slice_fits simp del: length_slice)

lemma length_file_data:
  assumes "file_ok c v"
  shows "length (file_data c v) = fv_data_size v"
  using assms length_concat_blocks [OF length_cluster_bytes [of c "fv_geometry v" "file_clusters c v"]]
  by (auto simp: file_ok_def file_data_def)

lemma file_data_slice:
  assumes "chain_ok c (fv_geometry v) (file_clusters c v)" and "t < length (file_clusters c v)"
    and "p + k \<le> g_cluster_size (fv_geometry v)"
    and "t * g_cluster_size (fv_geometry v) + p + k \<le> fv_data_size v"
  shows "slice (file_data c v) (t * g_cluster_size (fv_geometry v) + p) k
    = slice c (cluster_position (fv_geometry v) (file_clusters c v ! t) + p) k"
proof -
  let ?g = "fv_geometry v" and ?cls = "file_clusters c v"
  let ?all = "concat (map (cluster_bytes c ?g) ?cls)"
  have "slice (take (fv_data_size v) ?all) (t * g_cluster_size ?g + p) k
      = slice ?all (t * g_cluster_size ?g + p) k"
    using assms(4) by (simp add: slice_def drop_take)
  also have "\<dots> = slice (cluster_bytes c ?g (?cls ! t)) p k"
    by (rule slice_concat_block [OF length_cluster_bytes [OF assms(1)] assms(2,3)])
  also have "\<dots> = slice c (cluster_position ?g (?cls ! t) + p) k"
    using assms(3) by (simp add: cluster_bytes_def slice_slice)
  finally show ?thesis by (simp add: file_data_def)
qed


section \<open>The reader serves the content\<close>

context byte_reader
begin

text \<open>One step along an intact chain.\<close>

lemma advance_cluster_ok:
  assumes g: "geometry_wf (fv_geometry v)" and ch: "chain_ok (content s) (fv_geometry v) (file_clusters (content s) v)"
    and cache: "fv_cache_ok (content s) v" and l: "lawful s"
    and t: "fv_clusters_traversed v < length (file_clusters (content s) v)"
    and cur: "fv_current_cluster v = Some (file_clusters (content s) v ! fv_clusters_traversed v)"
  defines "t \<equiv> fv_clusters_traversed v" and "cls \<equiv> file_clusters (content s) v"
  shows "\<exists>bc s'. advance_cluster src (v, s) =
      (if Suc t < length cls
       then (Ok True, v\<lparr>fv_fat_cache := bc, fv_current_cluster := Some (cls ! Suc t), fv_position_in_cluster := 0,
               fv_clusters_traversed := Suc t\<rparr>, s')
       else (Ok False, v\<lparr>fv_fat_cache := bc, fv_current_cluster := None\<rparr>, s'))
    \<and> cache_inv (content s) bc \<and> bc_block_size bc = g_sector_size (fv_geometry v)
    \<and> lawful s' \<and> content s' = content s"
proof -
  let ?g = "fv_geometry v"
  have bc: "cache_inv (content s) (fv_fat_cache v)" "bc_block_size (fv_fat_cache v) = g_sector_size ?g"
    using cache by (simp_all add: fv_cache_ok_def)
  from next_cluster_cached_link [OF g bc(1) l, of "cls ! t"] obtain bc' s' where
    r: "next_cluster_cached src ?g (cls ! t) (fv_fat_cache v, s)
      = (fat_link (g_sector_size ?g) (content s) ?g (cls ! t), bc', s')"
      "cache_inv (content s) bc'" "bc_block_size bc' = g_sector_size ?g" "lawful s'" "content s' = content s"
    unfolding bc(2) by blast
  have "t < g_cluster_count ?g"
    using t length_file_clusters [of "content s" v] by (simp add: t_def)
  then have adv: "advance_cluster src (v, s) = and_do (apsnd (\<lambda>(bc, s). (v\<lparr>fv_fat_cache := bc\<rparr>, s))
      (fat_link (g_sector_size ?g) (content s) ?g (cls ! t), bc', s')) (\<lambda>next (v, s).
        case next of Some n \<Rightarrow> (Ok True, v\<lparr>fv_current_cluster := Some n, fv_position_in_cluster := 0,
            fv_clusters_traversed := fv_clusters_traversed v + 1\<rparr>, s)
        | None \<Rightarrow> (Ok False, v\<lparr>fv_current_cluster := None\<rparr>, s))"
    using cur r(1) by (simp add: advance_cluster_def Let_def t_def cls_def)
  have "fat_link (g_sector_size ?g) (content s) ?g (cls ! t)
      = (if Suc t < length cls then Ok (Some (cls ! Suc t)) else Ok None)"
  proof (cases "Suc t < length cls")
    case True
    then show ?thesis unfolding cls_def t_def by (simp add: file_clusters_link)
  next
    case False
    then have "Suc t = length (file_clusters (content s) v)" using t by (simp add: cls_def t_def)
    from file_clusters_last [OF ch this] False show ?thesis by (simp add: cls_def)
  qed
  with r adv show ?thesis by (auto simp: t_def)
qed

text \<open>Stepping over the end of a cluster leads to the next one, or to the end of the chain.\<close>

lemma advance_over_boundary:
  assumes l: "lawful s" and ok: "file_ok (content s) v" "fv_data_size v \<noteq> 0" and cache: "fv_cache_ok (content s) v"
    and pos: "fv_position_in_cluster v \<le> g_cluster_size (fv_geometry v)"
    and t: "fv_clusters_traversed v < length (file_clusters (content s) v)"
    and cur: "fv_current_cluster v = Some (file_clusters (content s) v ! fv_clusters_traversed v)"
    and stream: "fv_stream_position v = Suc (fv_clusters_traversed v) * g_cluster_size (fv_geometry v)"
      "fv_stream_position v \<le> fv_data_size v"
  shows "\<exists>v' s'. advance_cluster src (v, s) = (Ok (fv_current_cluster v' \<noteq> None), v', s')
    \<and> fv_inv lawful content (v', s') \<and> same_file v v' \<and> fv_stream_position v' = fv_stream_position v
    \<and> content s' = content s"
proof -
  let ?c = "content s" and ?g = "fv_geometry v" and ?t = "fv_clusters_traversed v"
  let ?cls = "file_clusters ?c v"
  have g: "geometry_wf ?g" "chain_ok ?c ?g ?cls" using ok by (simp_all add: file_ok_def)
  from advance_cluster_ok [OF g cache l t cur] obtain bc s' where
    adv: "advance_cluster src (v, s) =
      (if Suc ?t < length ?cls
       then (Ok True, v\<lparr>fv_fat_cache := bc, fv_current_cluster := Some (?cls ! Suc ?t), fv_position_in_cluster := 0,
               fv_clusters_traversed := Suc ?t\<rparr>, s')
       else (Ok False, v\<lparr>fv_fat_cache := bc, fv_current_cluster := None\<rparr>, s'))"
    "cache_inv ?c bc" "bc_block_size bc = g_sector_size ?g" "lawful s'" "content s' = ?c"
    by blast
  let ?v' = "if Suc ?t < length ?cls
    then v\<lparr>fv_fat_cache := bc, fv_current_cluster := Some (?cls ! Suc ?t), fv_position_in_cluster := 0,
            fv_clusters_traversed := Suc ?t\<rparr>
    else v\<lparr>fv_fat_cache := bc, fv_current_cluster := None\<rparr>"
  have same: "same_file v ?v'" by (simp add: same_file_def)
  have "0 < g_cluster_size ?g" using g(1) by (simp add: geometry_wf_def)
  then have "fv_placed ?c ?v'"
    using t stream(1) same_file_clusters(1) [OF same, of ?c]
    by (auto simp: fv_placed_def Let_def not_less_eq less_Suc_eq)
  moreover have "fv_cache_ok ?c ?v'" using adv(2,3) by (simp add: fv_cache_ok_def)
  ultimately have "fv_inv lawful content (?v', s')"
    using ok adv(4,5) pos stream(2) same_file_clusters(3) [OF same, of ?c] by (simp add: fv_inv_def Let_def)
  moreover have "advance_cluster src (v, s) = (Ok (fv_current_cluster ?v' \<noteq> None), ?v', s')"
    using adv(1) by simp
  moreover have "fv_stream_position ?v' = fv_stream_position v" by simp
  ultimately show ?thesis using same adv(5) by blast
qed

text \<open>What the invariant says at a cluster.\<close>

lemma fv_inv_at_cluster:
  assumes "fv_inv lawful content (v, s)" and "fv_data_size v \<noteq> 0" and "fv_current_cluster v = Some cl"
  defines "cls \<equiv> file_clusters (content s) v" and "t \<equiv> fv_clusters_traversed v" and "g \<equiv> fv_geometry v"
  shows "lawful s" "file_ok (content s) v" "fv_cache_ok (content s) v" "geometry_wf g" "chain_ok (content s) g cls"
    "fv_data_size v < 2 ^ 63" "t < length cls" "cl = cls ! t" "fv_position_in_cluster v < g_cluster_size g"
    "fv_stream_position v = t * g_cluster_size g + fv_position_in_cluster v"
    "valid_cluster g cl" "cluster_position g cl + g_cluster_size g \<le> length (content s)"
    "g_cluster_size g \<le> 2 ^ 19"
  using assms by (auto simp: fv_inv_def file_ok_def chain_ok_def fv_placed_def geometry_wf_def list_all_iff Let_def)

text \<open>Reading inside a cluster.\<close>

lemma read_cluster_ok:
  assumes inv: "fv_inv lawful content (v, s)" and size: "fv_data_size v \<noteq> 0"
    and cur: "fv_current_cluster v = Some cl" and m: "0 < m"
    and fits: "fv_position_in_cluster v + m \<le> g_cluster_size (fv_geometry v)"
      "fv_stream_position v + m \<le> fv_data_size v"
  shows "\<exists>k v' s'. read_cluster src cl m (v, s) = (Ok (slice (file_data (content s) v) (fv_stream_position v) k), v', s')
    \<and> fv_inv lawful content (v', s') \<and> 0 < k \<and> k \<le> m \<and> fv_stream_position v' = fv_stream_position v + k
    \<and> same_file v v' \<and> content s' = content s"
proof -
  let ?g = "fv_geometry v" and ?c = "content s" and ?p = "fv_position_in_cluster v"
  let ?cs = "g_cluster_size ?g" and ?d = "cluster_position ?g cl + ?p"
  note at = fv_inv_at_cluster [OF inv size cur]
  have off: "geometry_cluster_offset ?g cl = Ok (cluster_position ?g cl)" "cluster_position ?g cl < 2 ^ 52"
    using cluster_offset_valid [OF at(4,11)] by (simp_all add: cluster_position_def)
  have d: "?d < 2 ^ 63" "?d < 2 ^ 64" using off(2) at(9,13) by simp_all
  obtain s1 where s1: "do_seek src s (Start ?d) = (Ok ?d, s1)" "lawful s1" "pos s1 = ?d" "content s1 = ?c"
    using seek_start [OF at(1) d(1)] by blast
  obtain k s2 where s2: "do_read src s1 m = (Ok (slice ?c ?d k), s2)" "lawful s2" "k \<le> m"
      "k \<le> length ?c - ?d" "content s2 = ?c" "k = 0 \<longrightarrow> m = 0 \<or> length ?c \<le> ?d"
    using read_prefix [OF s1(2), of m] s1(3,4) by auto
  have k: "0 < k" using s2(6) m at(9,12) by (cases k) auto
  have len: "length (slice ?c ?d k) = k" using s2(4) by simp
  have kp: "?p + k \<le> ?cs" "fv_stream_position v + k \<le> fv_data_size v" using fits s2(3) by simp_all
  have data: "slice (file_data ?c v) (fv_stream_position v) k = slice ?c ?d k"
    using file_data_slice [OF at(5,7) kp(1)] kp(2) by (simp add: at(8,10))
  let ?v = "v\<lparr>fv_position_in_cluster := ?p + k, fv_stream_position := fv_stream_position v + k\<rparr>"
  have step: "read_cluster src cl m (v, s) =
      (if ?cs \<le> ?p + k then and_do (advance_cluster src (?v, s2)) (\<lambda>_ st. (Ok (slice ?c ?d k), st))
       else (Ok (slice ?c ?d k), ?v, s2))"
    using d(2) s1(1) s2(1) off(1) kp at(6,13) len
    by (simp add: read_cluster_def Let_def del: length_slice cong: and_do_weak_cong)
  have same: "same_file v ?v" by (simp add: same_file_def)
  have pre: "file_ok (content s2) ?v" "fv_cache_ok (content s2) ?v" "file_clusters (content s2) ?v = file_clusters ?c v"
    using at(2,3) s2(5) same_file_clusters [OF same] by (simp_all add: fv_cache_ok_def)
  show ?thesis
  proof (cases "?p + k < ?cs")
    case True
    then have "fv_inv lawful content (?v, s2)"
      using pre s2(2,5) kp(2) at cur by (simp add: fv_inv_def Let_def fv_placed_def)
    moreover have "read_cluster src cl m (v, s) = (Ok (slice (file_data ?c v) (fv_stream_position v) k), ?v, s2)"
      using step True data by simp
    ultimately show ?thesis using k s2(3,5) same by auto
  next
    case False
    then have pk: "?p + k = ?cs" using kp(1) by simp
    have "\<exists>v' s'. advance_cluster src (?v, s2) = (Ok (fv_current_cluster v' \<noteq> None), v', s')
      \<and> fv_inv lawful content (v', s') \<and> same_file ?v v' \<and> fv_stream_position v' = fv_stream_position ?v
      \<and> content s' = content s2"
      by (rule advance_over_boundary) (use pre s2(2) size kp pk at cur in simp_all)
    then obtain v' s' where adv: "advance_cluster src (?v, s2) = (Ok (fv_current_cluster v' \<noteq> None), v', s')"
      "fv_inv lawful content (v', s')" "same_file ?v v'" "fv_stream_position v' = fv_stream_position v + k"
      "content s' = ?c" using s2(5) by auto
    then have "read_cluster src cl m (v, s) = (Ok (slice (file_data ?c v) (fv_stream_position v) k), v', s')"
      using step pk data by simp
    moreover have "same_file v v'" using adv(3) by (simp add: same_file_def)
    ultimately show ?thesis using k s2(3) adv(2,4,5) by blast
  qed
qed

lemma fv_read_ok:
  assumes inv: "fv_inv lawful content (v, s)"
  shows "\<exists>k v' s'. fv_read src (v, s) n = (Ok (slice (file_data (content s) v) (fv_stream_position v) k), v', s')
    \<and> fv_inv lawful content (v', s') \<and> k \<le> n \<and> k \<le> fv_data_size v - fv_stream_position v
    \<and> fv_stream_position v' = fv_stream_position v + k \<and> same_file v v' \<and> content s' = content s
    \<and> (k = 0 \<longrightarrow> n = 0 \<or> fv_data_size v \<le> fv_stream_position v)"
proof (cases "n = 0 \<or> fv_remaining v = 0")
  case True
  with inv show ?thesis
    by (intro exI [of _ 0] exI [of _ v] exI [of _ s])
      (auto simp: fv_read_def fv_remaining_def same_file_def)
next
  case False
  then have rem: "0 < n" "fv_stream_position v < fv_data_size v" by (auto simp: fv_remaining_def)
  then have size: "fv_data_size v \<noteq> 0" by simp
  have "fv_current_cluster v \<noteq> None"
    using inv rem(2) size by (auto simp: fv_inv_def file_ok_def fv_placed_def Let_def split: option.splits)
  then obtain cl where cur: "fv_current_cluster v = Some cl" by blast
  note at = fv_inv_at_cluster [OF inv size cur]
  let ?cs = "g_cluster_size (fv_geometry v)"
  let ?m = "min (min n (?cs - fv_position_in_cluster v)) (fv_remaining v)"
  have m: "0 < ?m" "fv_position_in_cluster v + ?m \<le> ?cs" "fv_stream_position v + ?m \<le> fv_data_size v"
    using rem at(9) by (auto simp: fv_remaining_def)
  then have m0: "?m = 0 \<longleftrightarrow> False" by simp
  from read_cluster_ok [OF inv size cur m] obtain k v' s' where
    r: "read_cluster src cl ?m (v, s) = (Ok (slice (file_data (content s) v) (fv_stream_position v) k), v', s')"
      "fv_inv lawful content (v', s')" "0 < k" "k \<le> ?m" "fv_stream_position v' = fv_stream_position v + k"
      "same_file v v'" "content s' = content s"
    by blast
  have "read_step src n (v, s) = (Ok (Some (slice (file_data (content s) v) (fv_stream_position v) k)), v', s')"
    using cur at(9) r(1) by (simp add: read_step_def Let_def m0)
  then have "fv_read src (v, s) n = (Ok (slice (file_data (content s) v) (fv_stream_position v) k), v', s')"
    using False by (simp add: fv_read_def read_loop.simps [of src n "(v, s)"])
  then show ?thesis using r m(3) by (intro exI [of _ k] exI [of _ v'] exI [of _ s']) auto
qed

lemma seek_loop_ok:
  assumes "fv_inv lawful content (v, s)" and "fv_data_size v \<noteq> 0"
    and "fv_stream_position v \<le> target" and "target \<le> fv_data_size v"
  shows "\<exists>v' s'. seek_loop src target (v, s) = (Ok (), v', s') \<and> fv_inv lawful content (v', s')
    \<and> same_file v v' \<and> content s' = content s \<and> fv_stream_position v' \<le> target
    \<and> fv_stream_position v' div g_cluster_size (fv_geometry v) = target div g_cluster_size (fv_geometry v)"
  using assms
proof (induction "target - fv_stream_position v" arbitrary: v s rule: less_induct)
  case less
  let ?c = "content s" and ?cs = "g_cluster_size (fv_geometry v)" and ?p = "fv_position_in_cluster v"
  have cs: "0 < ?cs" using less.prems(1) by (simp add: fv_inv_def file_ok_def geometry_wf_def Let_def)
  show ?case
  proof (cases "fv_stream_position v div ?cs < target div ?cs")
    case False
    then have "fv_stream_position v div ?cs = target div ?cs"
      using div_le_mono [OF less.prems(3), of ?cs] by simp
    moreover have "seek_loop src target (v, s) = (Ok (), v, s)"
      using False cs by (subst seek_loop.simps) (simp add: seek_step_def)
    ultimately show ?thesis using less.prems(1,3) by (auto simp: same_file_def)
  next
    case True
    have "fv_current_cluster v \<noteq> None"
    proof
      assume "fv_current_cluster v = None"
      then have "fv_stream_position v = length (file_clusters ?c v) * ?cs" "fv_data_size v \<le> length (file_clusters ?c v) * ?cs"
        using less.prems(1,2) by (simp_all add: fv_inv_def fv_placed_def file_ok_def Let_def)
      then have "fv_stream_position v = target" using less.prems(3,4) by linarith
      then show False using True by simp
    qed
    then obtain cl where cur: "fv_current_cluster v = Some cl" by blast
    note at = fv_inv_at_cluster [OF less.prems(1,2) cur]
    let ?t = "fv_clusters_traversed v"
    let ?v = "v\<lparr>fv_stream_position := Suc ?t * ?cs\<rparr>"
    have same: "same_file v ?v" by (simp add: same_file_def)
    have t: "fv_stream_position v div ?cs = ?t" using at(9,10) by simp
    then have "Suc ?t * ?cs \<le> target div ?cs * ?cs" using True by (intro mult_le_mono1) simp
    also have "\<dots> \<le> target" by (rule div_times_less_eq_dividend)
    finally have st: "Suc ?t * ?cs \<le> target" .
    have "\<exists>v' s'. advance_cluster src (?v, s) = (Ok (fv_current_cluster v' \<noteq> None), v', s')
      \<and> fv_inv lawful content (v', s') \<and> same_file ?v v' \<and> fv_stream_position v' = fv_stream_position ?v
      \<and> content s' = ?c"
      by (rule advance_over_boundary)
        (use at cur less.prems(2,4) st same_file_clusters [OF same] in \<open>simp_all add: fv_cache_ok_def\<close>)
    then obtain v' s' where adv: "advance_cluster src (?v, s) = (Ok (fv_current_cluster v' \<noteq> None), v', s')"
      "fv_inv lawful content (v', s')" "same_file v v'" "fv_stream_position v' = Suc ?t * ?cs" "content s' = ?c"
      by (auto simp: same_file_def)
    have up: "Suc ?t * ?cs < 2 ^ 64" using st less.prems(4) at(6) by simp
    have "fv_stream_position v + (?cs - ?p) = Suc ?t * ?cs" using at(9,10) by simp
    then have "seek_step src target (v, s) = (Ok (fv_current_cluster v' \<noteq> None), v', s')"
      using True cs at(9) adv(1) up by (simp add: seek_step_def Let_def)
    then have loop: "seek_loop src target (v, s)
        = (if fv_current_cluster v' \<noteq> None then seek_loop src target (v', s') else (Ok (), v', s'))"
      by (subst seek_loop.simps) simp
    have eq: "fv_data_size v' = fv_data_size v" "fv_geometry v' = fv_geometry v" using adv(3) by (simp_all add: same_file_def)
    show ?thesis
    proof (cases "fv_current_cluster v' = None")
      case True
      then have "fv_stream_position v' = length (file_clusters ?c v') * ?cs" "fv_data_size v \<le> length (file_clusters ?c v') * ?cs"
        using adv(2,5) eq less.prems(2) by (simp_all add: fv_inv_def fv_placed_def file_ok_def Let_def)
      then have "fv_stream_position v' = target" using st adv(4) less.prems(4) by simp
      then show ?thesis using loop True adv by auto
    next
      case False
      have "target - fv_stream_position v' < target - fv_stream_position v"
        using adv(4) at(9,10) st by simp
      then obtain v'' s'' where "seek_loop src target (v', s') = (Ok (), v'', s'')" "fv_inv lawful content (v'', s'')"
        "same_file v' v''" "content s'' = content s'" "fv_stream_position v'' \<le> target"
        "fv_stream_position v'' div ?cs = target div ?cs"
        using less.hyps [of v' s'] adv(2,4) st eq less.prems(2,4) by auto
      then show ?thesis using loop False adv(3,5) by (auto simp: same_file_def)
    qed
  qed
qed

text \<open>A rewound reader stands at the start of the chain.\<close>

lemma fv_placed_at_start:
  assumes "file_ok c v" and "fv_data_size v \<noteq> 0"
    and start: "fv_current_cluster v = fv_first_cluster v" "fv_position_in_cluster v = 0"
      "fv_stream_position v = 0" "fv_clusters_traversed v = 0"
  shows "fv_placed c v"
proof -
  let ?g = "fv_geometry v"
  have ch: "chain_ok c ?g (file_clusters c v)" and g: "geometry_wf ?g"
    using assms by (auto simp: file_ok_def)
  then obtain cl where cl: "fv_first_cluster v = Some cl" "g_cluster_count ?g \<noteq> 0"
    by (cases "fv_first_cluster v"; cases "g_cluster_count ?g") (auto simp: chain_ok_def file_clusters_def)
  then have "file_clusters c v ! 0 = cl" "0 < length (file_clusters c v)"
    by (cases "g_cluster_count ?g"; simp add: file_clusters_def)+
  then show ?thesis using g cl start by (simp add: fv_placed_def Let_def geometry_wf_def)
qed

lemma fv_rewind_inv:
  assumes "fv_inv lawful content (v, s)"
  shows "fv_inv lawful content (fv_rewind v, s)" and "same_file v (fv_rewind v)"
proof -
  show same: "same_file v (fv_rewind v)" by (simp add: same_file_def fv_rewind_def)
  have ok: "file_ok (content s) (fv_rewind v)"
    using assms same_file_clusters(3) [OF same, of "content s"] by (simp add: fv_inv_def Let_def)
  then have "fv_data_size v \<noteq> 0 \<longrightarrow> fv_placed (content s) (fv_rewind v)"
    by (auto intro!: fv_placed_at_start simp: fv_rewind_def)
  with ok assms show "fv_inv lawful content (fv_rewind v, s)"
    by (auto simp: fv_inv_def Let_def fv_rewind_def fv_cache_ok_def)
qed

lemma seek_to_position_ok:
  assumes inv: "fv_inv lawful content (v, s)"
  shows "\<exists>v' s'. seek_to_position src target (v, s) = (Ok (), v', s') \<and> fv_inv lawful content (v', s')
    \<and> fv_stream_position v' = min target (fv_data_size v) \<and> same_file v v' \<and> content s' = content s"
proof -
  let ?cs = "g_cluster_size (fv_geometry v)" and ?tp = "min target (fv_data_size v)"
  let ?v = "if ?tp < fv_stream_position v then fv_rewind v else v"
  have cs: "0 < ?cs" "?cs \<le> 2 ^ 19"
    using inv by (simp_all add: fv_inv_def file_ok_def geometry_wf_def Let_def)
  have m: "?tp mod ?cs < 2 ^ 32" using mod_less_divisor [OF cs(1), of ?tp] cs(2) by simp
  have v: "fv_inv lawful content (?v, s)" "same_file v ?v" "fv_stream_position ?v \<le> ?tp"
    using inv fv_rewind_inv [OF inv] by (auto simp: same_file_def fv_rewind_def)
  have sz: "fv_data_size ?v = fv_data_size v" "fv_geometry ?v = fv_geometry v" using v(2) by (simp_all add: same_file_def)
  have "\<exists>v1 s1. seek_loop src ?tp (?v, s) = (Ok (), v1, s1) \<and> fv_inv lawful content (v1, s1)
      \<and> same_file ?v v1 \<and> content s1 = content s \<and> fv_stream_position v1 \<le> ?tp
      \<and> fv_stream_position v1 div ?cs = ?tp div ?cs"
  proof (cases "fv_data_size v = 0")
    case True
    then have "seek_loop src ?tp (?v, s) = (Ok (), ?v, s)"
      using cs v(3) sz by (subst seek_loop.simps) (simp add: seek_step_def)
    then show ?thesis using v True by (auto simp: same_file_def)
  next
    case False
    with seek_loop_ok [OF v(1) _ v(3)] sz show ?thesis by simp
  qed
  then obtain v1 s1 where v1: "seek_loop src ?tp (?v, s) = (Ok (), v1, s1)" "fv_inv lawful content (v1, s1)"
      "same_file v v1" "content s1 = content s" "fv_stream_position v1 \<le> ?tp"
      "fv_stream_position v1 div ?cs = ?tp div ?cs"
    using v(2) by (auto simp: same_file_def)
  let ?v' = "v1\<lparr>fv_position_in_cluster := ?tp mod ?cs, fv_stream_position := ?tp\<rparr>"
  have same: "same_file v1 ?v'" "same_file v ?v'" using v1(3) by (simp_all add: same_file_def)
  have eq: "fv_geometry v1 = fv_geometry v" "fv_data_size v1 = fv_data_size v" using v1(3) by (simp_all add: same_file_def)
  have "fv_placed (content s1) ?v'" if size: "fv_data_size v1 \<noteq> 0"
  proof (cases "fv_current_cluster v1")
    case None
    then have "fv_stream_position v1 = length (file_clusters (content s1) v1) * ?cs"
        "fv_data_size v1 \<le> length (file_clusters (content s1) v1) * ?cs"
      using v1(2) size eq by (simp_all add: fv_inv_def fv_placed_def file_ok_def Let_def)
    then have "?tp = length (file_clusters (content s1) v1) * ?cs" using v1(5) eq(2) by simp
    then show ?thesis
      using None same_file_clusters(1) [OF same(1)] eq by (simp add: fv_placed_def Let_def)
  next
    case (Some cl)
    note at = fv_inv_at_cluster [OF v1(2) size Some]
    have "fv_clusters_traversed v1 = ?tp div ?cs" using at(9,10) v1(6) eq(1) by simp
    then show ?thesis
      using Some at cs(1) eq same_file_clusters(1) [OF same(1)] by (simp add: fv_placed_def Let_def)
  qed
  then have "fv_inv lawful content (?v', s1)"
    using v1(2) eq cs(1) same_file_clusters(3) [OF same(1)]
    by (auto simp: fv_inv_def Let_def fv_cache_ok_def less_imp_le)
  moreover have "seek_to_position src target (v, s) = (Ok (), ?v', s1)"
    using v1(1) m by (simp add: seek_to_position_def Let_def not_le)
  ultimately show ?thesis using v1(4) same(2) by (intro exI [of _ ?v'] exI [of _ s1]) simp
qed

theorem fat_value_reader:
  "value_reader (fat_value_ops src) (fv_inv lawful content) (\<lambda>st. fv_stream_position (fst st))
    (\<lambda>st. file_data (content (snd st)) (fst st))"
proof
  fix st :: "'s fat_value" and p
  assume inv: "fv_inv lawful content st"
  obtain v s where st: "st = (v, s)" by (cases st)
  have len: "length (file_data (content s) v) = fv_data_size v"
    using inv by (intro length_file_data) (simp add: st fv_inv_def Let_def)
  from seek_to_position_ok [OF inv [unfolded st], of p] obtain v' s' where
    r: "seek_to_position src p (v, s) = (Ok (), v', s')" "fv_inv lawful content (v', s')"
      "fv_stream_position v' = min p (fv_data_size v)" "same_file v v'" "content s' = content s"
    by blast
  then show "\<exists>v'. v_seek (fat_value_ops src) st (Start p)
      = (Ok (min p (length (file_data (content (snd st)) (fst st)))), v') \<and> fv_inv lawful content v'
      \<and> fv_stream_position (fst v') = min p (length (file_data (content (snd st)) (fst st)))
      \<and> file_data (content (snd v')) (fst v') = file_data (content (snd st)) (fst st)"
    using same_file_clusters(2) [OF r(4)] by (simp add: st fat_value_ops_def fv_seek_def Let_def len)
next
  fix st :: "'s fat_value" and n
  assume inv: "fv_inv lawful content st"
  obtain v s where st: "st = (v, s)" by (cases st)
  have len: "length (file_data (content s) v) = fv_data_size v"
    using inv by (intro length_file_data) (simp add: st fv_inv_def Let_def)
  from fv_read_ok [OF inv [unfolded st], of n] obtain k v' s' where
    r: "fv_read src (v, s) n = (Ok (slice (file_data (content s) v) (fv_stream_position v) k), v', s')"
      "fv_inv lawful content (v', s')" "k \<le> n" "k \<le> fv_data_size v - fv_stream_position v"
      "fv_stream_position v' = fv_stream_position v + k" "same_file v v'" "content s' = content s"
      "k = 0 \<longrightarrow> n = 0 \<or> fv_data_size v \<le> fv_stream_position v"
    by blast
  then show "\<exists>k v'. v_read (fat_value_ops src) st n
      = (Ok (slice (file_data (content (snd st)) (fst st)) (fv_stream_position (fst st)) k), v')
      \<and> fv_inv lawful content v' \<and> k \<le> n
      \<and> k \<le> length (file_data (content (snd st)) (fst st)) - fv_stream_position (fst st)
      \<and> fv_stream_position (fst v') = fv_stream_position (fst st) + k
      \<and> file_data (content (snd v')) (fst v') = file_data (content (snd st)) (fst st)
      \<and> (k = 0 \<longrightarrow> n = 0 \<or> length (file_data (content (snd st)) (fst st)) \<le> fv_stream_position (fst st))"
    using same_file_clusters(2) [OF r(6)]
    by (intro exI [of _ k] exI [of _ "(v', s')"]) (simp add: st fat_value_ops_def len)
qed

text \<open>A new reader is at the start of its file.\<close>

lemma fv_new_inv:
  assumes l: "lawful s" and new: "fv_new f first n = Ok v" and ok: "file_ok (content s) v"
  shows "fv_inv lawful content (v, s)" and "fv_stream_position v = 0"
proof -
  obtain bc where bc: "cache_new (f_sector_size f) = Ok bc" and v: "v = \<lparr>fv_geometry = file_geometry f,
      fv_first_cluster = first, fv_current_cluster = first, fv_position_in_cluster = 0, fv_stream_position = 0,
      fv_data_size = n, fv_clusters_traversed = 0, fv_fat_cache = bc\<rparr>"
    using new by (auto simp: fv_new_def Let_def and_then_eq_Ok_iff file_geometry_def)
  have "fv_cache_ok (content s) v"
    using bc by (auto simp: v fv_cache_ok_def cache_new_def cache_inv_def file_geometry_def split: if_splits)
  moreover have "fv_placed (content s) v" if "n \<noteq> 0"
    using ok that by (intro fv_placed_at_start) (simp_all add: v)
  ultimately show "fv_inv lawful content (v, s)" "fv_stream_position v = 0"
    using ok l by (auto simp: fv_inv_def Let_def v)
qed

end

interpretation fat_cursor: value_reader "fat_value_ops cursor_source" "fv_inv cursor_inv cur_bytes"
  "\<lambda>st. fv_stream_position (fst st)" "\<lambda>st. file_data (cur_bytes (snd st)) (fst st)"
  by (rule cursor.fat_value_reader)

end
