(* ===== verification/Fat_Total.thy ===== *)
theory Fat_Total
  imports Fat_File
begin

text \<open>
  Reading a file of any FAT volume. On a volume with a damaged or cyclic table, or cut short, reading
  and seeking still return: an error or fewer bytes. The bounds below are kept by every operation,
  failed ones included.
\<close>

definition fv_bounded ::
  "('s \<Rightarrow> bool) \<Rightarrow> ('s \<Rightarrow> bytes) \<Rightarrow> bytes \<Rightarrow> fat_geometry \<Rightarrow> nat \<Rightarrow> 's fat_value \<Rightarrow> bool" where
  "fv_bounded lawful content c g d st \<longleftrightarrow>
     (let (v, s) = st
      in lawful s \<and> content s = c \<and> geometry_wf g \<and> fv_geometry v = g \<and> fv_cache_ok c v
         \<and> fv_position_in_cluster v \<le> g_cluster_size g \<and> fv_data_size v = d \<and> d < 2 ^ 63
         \<and> fv_stream_position v \<le> d + g_cluster_size g)"

lemma fv_bounded_simps:
  "fv_bounded lawful content c g d (v, s) \<longleftrightarrow> lawful s \<and> content s = c \<and> geometry_wf g
     \<and> fv_geometry v = g \<and> fv_cache_ok c v \<and> fv_position_in_cluster v \<le> g_cluster_size g
     \<and> fv_data_size v = d \<and> d < 2 ^ 63 \<and> fv_stream_position v \<le> d + g_cluster_size g"
  by (simp add: fv_bounded_def)

context byte_reader
begin

lemma advance_cluster_keeps:
  assumes "fv_bounded lawful content c g d (v, s)"
  shows "ensures (fv_bounded lawful content c g d) (\<lambda>_. True) (advance_cluster src (v, s))"
proof (cases "fv_current_cluster v")
  case None
  with assms show ?thesis by (simp add: advance_cluster_def Let_def)
next
  case (Some cl)
  let ?g = "fv_geometry v"
  have b: "geometry_wf ?g" "cache_inv (content s) (fv_fat_cache v)" "lawful s"
    and eq: "bc_block_size (fv_fat_cache v) = g_sector_size ?g" "content s = c"
    using assms by (auto simp: fv_bounded_simps fv_cache_ok_def)
  from next_cluster_cached_link [OF b, of cl] obtain bc' s' where
    r: "next_cluster_cached src ?g cl (fv_fat_cache v, s) = (fat_link (g_sector_size ?g) c ?g cl, bc', s')"
      "cache_inv c bc'" "bc_block_size bc' = g_sector_size ?g" "lawful s'" "content s' = c"
    unfolding eq by blast
  have "returns (fat_link (g_sector_size ?g) c ?g cl)"
    by (simp add: fat_link_def entry_link_def Let_def)
  moreover have "fv_bounded lawful content c g d (v\<lparr>fv_fat_cache := bc'\<rparr>, s')"
      "fv_bounded lawful content c g d (v\<lparr>fv_fat_cache := bc', fv_current_cluster := None\<rparr>, s')"
      "fv_bounded lawful content c g d (v\<lparr>fv_fat_cache := bc', fv_current_cluster := Some n, fv_position_in_cluster := 0,
         fv_clusters_traversed := fv_clusters_traversed v + 1\<rparr>, s')" for n
    using assms r by (auto simp: fv_bounded_simps fv_cache_ok_def)
  ultimately show ?thesis
    using assms Some r(1)
    by (cases "fat_link (g_sector_size ?g) c ?g cl") (auto simp: advance_cluster_def Let_def split: option.splits)
qed

lemma seek_step_keeps:
  assumes st: "fv_bounded lawful content c g d (v, s)" and "target \<le> d"
  shows "ensures (fv_bounded lawful content c g d) (\<lambda>_. True) (seek_step src target (v, s))"
proof (cases "fv_stream_position v div g_cluster_size (fv_geometry v) < target div g_cluster_size (fv_geometry v)")
  case True
  let ?cs = "g_cluster_size (fv_geometry v)"
  let ?p = "fv_stream_position v + (?cs - fv_position_in_cluster v)"
  have cs: "0 < ?cs" "?cs \<le> 2 ^ 19" and pos: "fv_position_in_cluster v \<le> ?cs" and d: "d < 2 ^ 63"
    using st by (simp_all add: fv_bounded_simps geometry_wf_def)
  have "fv_stream_position v < target" using True by (metis div_le_mono not_less)
  then have p: "?p \<le> d + ?cs" using assms(2) by simp
  then have "?p < 2 ^ 64" using cs(2) d by simp
  then have "seek_step src target (v, s) = advance_cluster src (v\<lparr>fv_stream_position := ?p\<rparr>, s)"
    using True cs(1) pos by (simp add: seek_step_def Let_def)
  moreover have "fv_bounded lawful content c g d (v\<lparr>fv_stream_position := ?p\<rparr>, s)"
    using st p by (simp add: fv_bounded_simps fv_cache_ok_def)
  ultimately show ?thesis using advance_cluster_keeps by simp
next
  case False
  with st show ?thesis by (simp add: seek_step_def Let_def fv_bounded_simps geometry_wf_def)
qed

lemma seek_loop_keeps:
  assumes "fv_bounded lawful content c g d st" and t: "target \<le> d"
  shows "ensures (fv_bounded lawful content c g d) (\<lambda>_. True) (seek_loop src target st)"
  using assms(1)
proof (induction "fv_budget st" arbitrary: st rule: less_induct)
  case less
  have step: "ensures (fv_bounded lawful content c g d) (\<lambda>_. True) (seek_step src target st)"
    using less.prems t seek_step_keeps by (cases st) simp
  show ?case
  proof (subst seek_loop.simps, rule ensures_and_do [OF step])
    fix more st'
    assume "seek_step src target st = (Ok more, st')" and b: "fv_bounded lawful content c g d st'"
    then show "ensures (fv_bounded lawful content c g d) (\<lambda>_. True) (if more then seek_loop src target st' else (Ok (), st'))"
      using less.hyps [OF seek_step_budget [of src target] b] by (cases more) simp_all
  qed
qed

lemma seek_to_position_keeps:
  assumes st: "fv_bounded lawful content c g d (v, s)"
  shows "ensures (fv_bounded lawful content c g d) (\<lambda>_. True) (seek_to_position src target (v, s))"
proof -
  let ?t = "min target (fv_data_size v)" and ?cs = "g_cluster_size g"
  let ?v = "if ?t < fv_stream_position v then fv_rewind v else v"
  have cs: "0 < ?cs" "?cs \<le> 2 ^ 19" and g: "fv_geometry v = g"
    using st by (simp_all add: fv_bounded_simps geometry_wf_def)
  have m: "?t mod ?cs < 2 ^ 32" using mod_less_divisor [OF cs(1), of ?t] cs(2) by simp
  have "fv_bounded lawful content c g d (?v, s)"
    using st by (auto simp: fv_bounded_simps fv_rewind_def fv_cache_ok_def)
  moreover have "?t \<le> d" using st by (simp add: fv_bounded_simps)
  ultimately have loop: "ensures (fv_bounded lawful content c g d) (\<lambda>_. True) (seek_loop src ?t (?v, s))"
    by (rule seek_loop_keeps)
  have "seek_to_position src target (v, s) = and_do (seek_loop src ?t (?v, s)) (\<lambda>_ (v, s).
      if 2 ^ 32 \<le> ?t mod ?cs then (Err BpbOverflow, v, s)
      else (Ok (), v\<lparr>fv_position_in_cluster := ?t mod ?cs, fv_stream_position := ?t\<rparr>, s))"
    by (simp only: seek_to_position_def Let_def prod.case g)
  moreover have "ensures (fv_bounded lawful content c g d) (\<lambda>_. True) \<dots>"
    using m \<open>?t \<le> d\<close> cs(1)
    by (intro ensures_and_do [OF loop]) (auto simp: fv_bounded_simps fv_cache_ok_def less_imp_le)
  ultimately show ?thesis by simp
qed

lemma fv_seek_keeps:
  assumes "fv_bounded lawful content c g d (v, s)"
  shows "ensures (fv_bounded lawful content c g d) (\<lambda>_. True) (fv_seek src (v, s) whence)"
  unfolding fv_seek_def Let_def
  by (rule ensures_and_do [OF seek_to_position_keeps [OF assms]]) simp_all

lemma read_cluster_keeps:
  assumes st: "fv_bounded lawful content c g d (v, s)"
    and m: "fv_position_in_cluster v + m \<le> g_cluster_size g" "fv_stream_position v + m \<le> d"
  shows "ensures (fv_bounded lawful content c g d) (\<lambda>bs. length bs \<le> m) (read_cluster src cl m (v, s))"
proof (cases "valid_cluster g cl")
  case False
  then have "geometry_cluster_offset (fv_geometry v) cl = Err (InvalidCluster cl)"
    using st by (simp add: cluster_offset_invalid fv_bounded_simps)
  with st show ?thesis by (simp add: read_cluster_def)
next
  case True
  let ?p = "fv_position_in_cluster v"
  have b: "geometry_wf g" "fv_geometry v = g" "lawful s" "content s = c" "g_cluster_size g \<le> 2 ^ 19" "d < 2 ^ 63"
    using st by (simp_all add: fv_bounded_simps geometry_wf_def)
  have off: "geometry_cluster_offset g cl = Ok (cluster_position g cl)" "cluster_position g cl < 2 ^ 52"
    using cluster_offset_valid [OF b(1) True] by (simp_all add: cluster_position_def)
  let ?d = "cluster_position g cl + ?p"
  have d: "?d < 2 ^ 63" "?d < 2 ^ 64" using off(2) m(1) b(5) by simp_all
  obtain s1 where s1: "do_seek src s (Start ?d) = (Ok ?d, s1)" "lawful s1" "pos s1 = ?d" "content s1 = c"
    using seek_start [OF b(3) d(1)] b(4) by blast
  obtain k s2 where s2: "do_read src s1 m = (Ok (slice c ?d k), s2)" "lawful s2" "k \<le> m"
      "k \<le> length c - ?d" "content s2 = c"
    using read_prefix [OF s1(2), of m] s1(3,4) by auto
  have len: "length (slice c ?d k) = k" using s2(4) by simp
  let ?v = "v\<lparr>fv_position_in_cluster := ?p + k, fv_stream_position := fv_stream_position v + k\<rparr>"
  have v: "fv_bounded lawful content c g d (?v, s2)"
    using st s2 m by (simp add: fv_bounded_simps fv_cache_ok_def)
  have "?p + k < 2 ^ 32" "fv_stream_position v + k < 2 ^ 64" "k < 2 ^ 32" using m s2(3) b(5,6) by simp_all
  then have "read_cluster src cl m (v, s) =
      (if g_cluster_size g \<le> ?p + k then and_do (advance_cluster src (?v, s2)) (\<lambda>_ st. (Ok (slice c ?d k), st))
       else (Ok (slice c ?d k), ?v, s2))"
    using d(2) s1(1) s2(1) off(1) len b(2)
    by (simp add: read_cluster_def Let_def del: length_slice cong: and_do_weak_cong)
  moreover have "ensures (fv_bounded lawful content c g d) (\<lambda>bs. length bs \<le> m)
      (and_do (advance_cluster src (?v, s2)) (\<lambda>_ st. (Ok (slice c ?d k), st)))"
    by (rule ensures_and_do [OF advance_cluster_keeps [OF v]]) (use len s2(3) in simp_all)
  ultimately show ?thesis using v len s2(3) by simp
qed

text \<open>A read in progress has something left to read.\<close>

lemma read_step_keeps:
  assumes st: "fv_bounded lawful content c g d (v, s)" and rem: "fv_remaining v \<noteq> 0"
  shows "ensures (fv_bounded lawful content c g d) (\<lambda>r. \<forall>bs :: bytes. r = Some bs \<longrightarrow> length bs \<le> n) (read_step src n (v, s))"
proof (cases "fv_current_cluster v")
  case None
  with st show ?thesis by (simp add: read_step_def)
next
  case (Some cl)
  let ?m = "min (min n (g_cluster_size g - fv_position_in_cluster v)) (fv_remaining v)"
  have b: "fv_geometry v = g" "fv_position_in_cluster v \<le> g_cluster_size g" "fv_data_size v = d"
    using st by (simp_all add: fv_bounded_simps)
  have m: "fv_position_in_cluster v + ?m \<le> g_cluster_size g" "fv_stream_position v + ?m \<le> d" "?m \<le> n"
    using b rem by (auto simp: fv_remaining_def)
  have "read_step src n (v, s) = (if ?m = 0
      then and_do (advance_cluster src (v, s)) (\<lambda>more st. (Ok (if more then None else Some []), st))
      else and_do (read_cluster src cl ?m (v, s)) (\<lambda>bs st. (Ok (Some bs), st)))"
    using Some b by (simp add: read_step_def Let_def)
  moreover have "ensures (fv_bounded lawful content c g d) (\<lambda>r. \<forall>bs :: bytes. r = Some bs \<longrightarrow> length bs \<le> n)
      (and_do (advance_cluster src (v, s)) (\<lambda>more st. (Ok (if more then None else Some []), st)))"
    by (rule ensures_and_do [OF advance_cluster_keeps [OF st]]) simp_all
  moreover have "ensures (fv_bounded lawful content c g d) (\<lambda>r. \<forall>bs :: bytes. r = Some bs \<longrightarrow> length bs \<le> n)
      (and_do (read_cluster src cl ?m (v, s)) (\<lambda>bs st. (Ok (Some bs), st)))"
    by (rule ensures_and_do [OF read_cluster_keeps [OF st m(1,2)]]) (use m(3) in auto)
  ultimately show ?thesis by simp
qed

lemma read_step_stream:
  assumes "read_step src n st = (Ok None, st')"
  shows "fv_stream_position (fst st') = fv_stream_position (fst st)"
proof -
  obtain v s where st: "st = (v, s)" by (cases st)
  have "advance_cluster src (v, s) = (Ok True, st')"
    using assms by (auto simp: st read_step_def Let_def and_do_eq_Ok_iff split: option.splits if_splits)
  then show ?thesis
    by (auto simp: st advance_cluster_def Let_def and_do_eq_Ok_iff apsnd_def map_prod_def
        split: option.splits if_splits prod.splits)
qed

lemma read_loop_keeps:
  assumes "fv_bounded lawful content c g d st" and "fv_remaining (fst st) \<noteq> 0"
  shows "ensures (fv_bounded lawful content c g d) (\<lambda>bs. length bs \<le> n) (read_loop src n st)"
  using assms
proof (induction "fv_budget st" arbitrary: st rule: less_induct)
  case less
  have step: "ensures (fv_bounded lawful content c g d) (\<lambda>r. \<forall>bs :: bytes. r = Some bs \<longrightarrow> length bs \<le> n)
      (read_step src n st)"
    using less.prems read_step_keeps by (cases st) simp
  show ?case
  proof (subst read_loop.simps, rule ensures_and_do [OF step])
    fix r st'
    assume r: "read_step src n st = (Ok r, st')" "\<forall>bs. r = Some bs \<longrightarrow> length bs \<le> n"
      and b: "fv_bounded lawful content c g d st'"
    show "ensures (fv_bounded lawful content c g d) (\<lambda>bs. length bs \<le> n)
        (case r of Some bs \<Rightarrow> (Ok bs, st') | None \<Rightarrow> read_loop src n st')"
    proof (cases r)
      case None
      have "fv_remaining (fst st') \<noteq> 0"
        using less.prems b r(1) read_step_stream [of n st st'] None
        by (cases st; cases st') (simp add: fv_remaining_def fv_bounded_simps)
      with None r(1) b show ?thesis using less.hyps [OF read_step_budget [of src n] b] by simp
    qed (use r(2) b in simp)
  qed
qed

lemma fv_read_keeps:
  assumes "fv_bounded lawful content c g d st"
  shows "ensures (fv_bounded lawful content c g d) (\<lambda>bs. length bs \<le> n) (fv_read src st n)"
  using assms read_loop_keeps by (cases st) (simp add: fv_read_def)

lemma fv_new_bounded:
  assumes wf: "fat_wf f" and l: "lawful s" and "n < 2 ^ 63"
  obtains v where "fv_new f first n = Ok v" and "fv_bounded lawful content (content s) (file_geometry f) n (v, s)"
proof -
  have ss: "0 < f_sector_size f" using wf by (auto simp: fat_wf_def)
  obtain bc where bc: "cache_new (f_sector_size f) = Ok bc" "cache_inv (content s) bc" "bc_block_size bc = f_sector_size f"
    using cache_new_inv [OF ss] by blast
  let ?v = "\<lparr>fv_geometry = file_geometry f, fv_first_cluster = first, fv_current_cluster = first,
    fv_position_in_cluster = 0, fv_stream_position = 0, fv_data_size = n, fv_clusters_traversed = 0, fv_fat_cache = bc\<rparr>"
  have "fv_new f first n = Ok ?v" using bc(1) by (simp add: fv_new_def Let_def file_geometry_def)
  moreover have "fv_bounded lawful content (content s) (file_geometry f) n (?v, s)"
    using l assms(3) bc fat_geometry_wf [OF wf] by (simp add: fv_bounded_simps fv_cache_ok_def file_geometry_def)
  ultimately show thesis by (rule that)
qed

end

end
