(* ===== verification/Fat_Dir.thy ===== *)
theory Fat_Dir
  imports Fat_Value
begin

text \<open>
  \<open>fs-fat/src/dir_entry.rs\<close>: directory entries with their long names, the iterator over the entries
  of a directory, and the search by name. Text is a list of Unicode scalar values; the standard
  library's UTF-16 and UTF-8 conversions are written out.
\<close>

section \<open>Records\<close>

definition DIR_ENTRY_SIZE :: nat where "DIR_ENTRY_SIZE = 32"

definition DIR_ENTRY_DELETED :: u8 where "DIR_ENTRY_DELETED = 0xE5"

definition DIR_ENTRY_END :: u8 where "DIR_ENTRY_END = 0x00"

definition LFN_PART_LEN :: nat where "LFN_PART_LEN = 13"

definition LFN_MAX_ENTRIES :: nat where "LFN_MAX_ENTRIES = 20"

definition LFN_MAX_LEN :: nat where "LFN_MAX_LEN = LFN_MAX_ENTRIES * LFN_PART_LEN"

definition LFN_SEQ_MASK :: u8 where "LFN_SEQ_MASK = 0x1F"

definition LFN_LAST_ENTRY :: u8 where "LFN_LAST_ENTRY = 0x40"

text \<open>The attribute flags; bits that name no flag are dropped by \<open>from_bits_truncate\<close>.\<close>

definition VOLUME_ID :: u8 where "VOLUME_ID = 0x08"

definition DIRECTORY :: u8 where "DIRECTORY = 0x10"

definition LFN_ATTRIBUTES :: u8 where "LFN_ATTRIBUTES = 0x01 OR 0x02 OR 0x04 OR 0x08"

definition from_bits_truncate :: "u8 \<Rightarrow> u8" where
  "from_bits_truncate bits = bits AND 0x3F"

record dir_file_entry =
  d_name :: bytes
  d_attributes :: u8
  d_nt_reserved :: u8
  d_create_time_tenths :: u8
  d_create_time :: u16
  d_create_date :: u16
  d_access_date :: u16
  d_first_cluster_high :: u16
  d_modify_time :: u16
  d_modify_date :: u16
  d_first_cluster_low :: u16
  d_file_size :: nat

definition read_dir_file_entry :: "bytes \<Rightarrow> dir_file_entry option" where
  "read_dir_file_entry bs =
     (if length bs = 32
      then Some \<lparr>d_name = slice bs 0 11, d_attributes = bs ! 11, d_nt_reserved = bs ! 12,
        d_create_time_tenths = bs ! 13, d_create_time = from_le_bytes (slice bs 14 2),
        d_create_date = from_le_bytes (slice bs 16 2), d_access_date = from_le_bytes (slice bs 18 2),
        d_first_cluster_high = from_le_bytes (slice bs 20 2), d_modify_time = from_le_bytes (slice bs 22 2),
        d_modify_date = from_le_bytes (slice bs 24 2), d_first_cluster_low = from_le_bytes (slice bs 26 2),
        d_file_size = le_field bs 28 4\<rparr>
      else None)"

definition entry_is_end :: "dir_file_entry \<Rightarrow> bool" where
  "entry_is_end d \<longleftrightarrow> d_name d ! 0 = DIR_ENTRY_END"

definition entry_is_deleted :: "dir_file_entry \<Rightarrow> bool" where
  "entry_is_deleted d \<longleftrightarrow> d_name d ! 0 = DIR_ENTRY_DELETED"

definition entry_is_lfn :: "dir_file_entry \<Rightarrow> bool" where
  "entry_is_lfn d \<longleftrightarrow> d_attributes d = LFN_ATTRIBUTES"

definition is_dot_or_dotdot :: "dir_file_entry \<Rightarrow> bool" where
  "is_dot_or_dotdot d \<longleftrightarrow> d_name d ! 0 = 0x2E
     \<and> (d_name d ! 1 = 0x20 \<or> d_name d ! 1 = 0x2E \<and> d_name d ! 2 = 0x20)"

definition entry_is_directory :: "dir_file_entry \<Rightarrow> bool" where
  "entry_is_directory d \<longleftrightarrow> from_bits_truncate (d_attributes d) AND DIRECTORY = DIRECTORY"

definition entry_is_volume_id :: "dir_file_entry \<Rightarrow> bool" where
  "entry_is_volume_id d \<longleftrightarrow> from_bits_truncate (d_attributes d) AND VOLUME_ID = VOLUME_ID \<and> \<not> entry_is_lfn d"

definition entry_first_cluster :: "dir_file_entry \<Rightarrow> nat" where
  "entry_first_cluster d =
     unat (push_bit 16 (ucast (d_first_cluster_high d) :: u32) OR ucast (d_first_cluster_low d))"

record lfn_entry =
  l_sequence :: u8
  l_name1 :: bytes
  l_attributes :: u8
  l_entry_type :: u8
  l_checksum :: u8
  l_name2 :: bytes
  l_first_cluster :: u16
  l_name3 :: bytes

definition read_lfn_entry :: "bytes \<Rightarrow> lfn_entry option" where
  "read_lfn_entry bs =
     (if length bs = 32
      then Some \<lparr>l_sequence = bs ! 0, l_name1 = slice bs 1 10, l_attributes = bs ! 11, l_entry_type = bs ! 12,
        l_checksum = bs ! 13, l_name2 = slice bs 14 12, l_first_cluster = from_le_bytes (slice bs 26 2),
        l_name3 = slice bs 28 4\<rparr>
      else None)"

text \<open>The 16-bit units of a byte string, \<open>as_chunks::<2>()\<close>.\<close>

fun chunks2 :: "bytes \<Rightarrow> u16 list" where
  "chunks2 (a # b # bs) = from_le_bytes [a, b] # chunks2 bs"
| "chunks2 _ = []"

text \<open>The units of an entry up to a terminator; their number is the count the source returns.\<close>

definition extract_chars :: "lfn_entry \<Rightarrow> u16 list" where
  "extract_chars l =
     takeWhile (\<lambda>c. \<not> (c = 0x0000 \<or> c = 0xFFFF)) (chunks2 (l_name1 l) @ chunks2 (l_name2 l) @ chunks2 (l_name3 l))"

definition sfn_checksum :: "bytes \<Rightarrow> u8" where
  "sfn_checksum name = foldl (\<lambda>sum b. word_rotr 1 sum + b) 0 name"

record fat_dir_entry =
  de_data :: dir_file_entry
  de_lfn_buffer :: "u16 list"


section \<open>Names\<close>

type_synonym chars = "nat list"

definition to_ascii_lowercase :: "nat \<Rightarrow> nat" where
  "to_ascii_lowercase c = (if 65 \<le> c \<and> c \<le> 90 then c + 32 else c)"

definition eq_ignore_ascii_case :: "nat \<Rightarrow> nat \<Rightarrow> bool" where
  "eq_ignore_ascii_case a b \<longleftrightarrow> to_ascii_lowercase a = to_ascii_lowercase b"

text \<open>The part of a name up to its last byte that is not a space.\<close>

definition trim_spaces :: "bytes \<Rightarrow> bytes" where
  "trim_spaces bs = rev (dropWhile (\<lambda>b. b = 0x20) (rev bs))"

definition name_chars :: "bool \<Rightarrow> bytes \<Rightarrow> chars" where
  "name_chars lowercase bs = map (\<lambda>b. if lowercase then to_ascii_lowercase (unat b) else unat b) bs"

definition short_name_string :: "fat_dir_entry \<Rightarrow> chars" where
  "short_name_string e =
     (let name = d_name (de_data e);
          lowercase_name = (d_nt_reserved (de_data e) AND 0x08 \<noteq> 0);
          lowercase_ext = (d_nt_reserved (de_data e) AND 0x10 \<noteq> 0);
          base = take 8 name;
          base = (if base ! 0 = 0x05 then base[0 := 0xE5] else base);
          ext = trim_spaces (slice name 8 3)
      in name_chars lowercase_name (trim_spaces base)
         @ (if ext \<noteq> [] then 0x2E # name_chars lowercase_ext ext else []))"

text \<open>\<open>char::decode_utf16\<close> with the replacement character for every lone surrogate.\<close>

definition is_high_surrogate :: "u16 \<Rightarrow> bool" where
  "is_high_surrogate u \<longleftrightarrow> 0xD800 \<le> u \<and> u \<le> 0xDBFF"

definition is_low_surrogate :: "u16 \<Rightarrow> bool" where
  "is_low_surrogate u \<longleftrightarrow> 0xDC00 \<le> u \<and> u \<le> 0xDFFF"

fun decode_utf16 :: "u16 list \<Rightarrow> chars" where
  "decode_utf16 [] = []"
| "decode_utf16 (u # us) =
     (if is_high_surrogate u
      then (case us of
              w # ws \<Rightarrow>
                if is_low_surrogate w
                then (0x10000 + (unat u - 0xD800) * 0x400 + (unat w - 0xDC00)) # decode_utf16 ws
                else 0xFFFD # decode_utf16 us
            | [] \<Rightarrow> [0xFFFD])
      else if is_low_surrogate u then 0xFFFD # decode_utf16 us
      else unat u # decode_utf16 us)"

definition has_long_name :: "fat_dir_entry \<Rightarrow> bool" where
  "has_long_name e \<longleftrightarrow> de_lfn_buffer e \<noteq> []"

definition long_name_string :: "fat_dir_entry \<Rightarrow> chars option" where
  "long_name_string e = (if has_long_name e then Some (decode_utf16 (de_lfn_buffer e)) else None)"

definition entry_name :: "fat_dir_entry \<Rightarrow> chars" where
  "entry_name e = (case long_name_string e of Some n \<Rightarrow> n | None \<Rightarrow> short_name_string e)"

definition utf8_char :: "nat \<Rightarrow> nat list" where
  "utf8_char c =
     (if c < 0x80 then [c]
      else if c < 0x800 then [0xC0 + c div 64, 0x80 + c mod 64]
      else if c < 0x10000 then [0xE0 + c div 4096, 0x80 + c div 64 mod 64, 0x80 + c mod 64]
      else [0xF0 + c div 262144, 0x80 + c div 4096 mod 64, 0x80 + c div 64 mod 64, 0x80 + c mod 64])"

definition utf8 :: "chars \<Rightarrow> nat list" where
  "utf8 s = concat (map utf8_char s)"

text \<open>The comparison runs over the UTF-8 bytes of both strings.\<close>

definition ascii_eq_ignore_case :: "chars \<Rightarrow> chars \<Rightarrow> bool" where
  "ascii_eq_ignore_case a b \<longleftrightarrow>
     length (utf8 a) = length (utf8 b) \<and> list_all (\<lambda>(x, y). eq_ignore_ascii_case x y) (zip (utf8 a) (utf8 b))"

fun chars_eq_ignore_case :: "chars \<Rightarrow> chars \<Rightarrow> bool" where
  "chars_eq_ignore_case (a # as) (b # bs) = (eq_ignore_ascii_case a b \<and> chars_eq_ignore_case as bs)"
| "chars_eq_ignore_case [] [] = True"
| "chars_eq_ignore_case _ _ = False"

definition utf16_eq_ignore_ascii_case :: "u16 list \<Rightarrow> chars \<Rightarrow> bool" where
  "utf16_eq_ignore_ascii_case us s = chars_eq_ignore_case (decode_utf16 us) s"

definition name_matches :: "fat_dir_entry \<Rightarrow> chars \<Rightarrow> bool" where
  "name_matches e name \<longleftrightarrow>
     has_long_name e \<and> utf16_eq_ignore_ascii_case (de_lfn_buffer e) name
     \<or> ascii_eq_ignore_case (short_name_string e) name"


section \<open>One record\<close>

text \<open>The three fields of the iterator that collect a long name.\<close>

record lfn_state =
  lfn_buffer :: "u16 list"
  lfn_checksum :: u8
  lfn_collecting :: bool

definition lfn_reset :: "lfn_state \<Rightarrow> lfn_state" where
  "lfn_reset st = st\<lparr>lfn_collecting := False, lfn_buffer := []\<rparr>"

text \<open>\<open>Vec::resize(n, 0)\<close> where the vector is shorter, and the copy of \<open>chars\<close> to \<open>pos\<close>.\<close>

definition grow_zero :: "nat \<Rightarrow> u16 list \<Rightarrow> u16 list" where
  "grow_zero n us = us @ replicate (n - length us) 0"

fun put_chars :: "nat \<Rightarrow> u16 list \<Rightarrow> u16 list \<Rightarrow> u16 list" where
  "put_chars pos [] us = us"
| "put_chars pos (c # cs) us =
     put_chars (pos + 1) cs
       (if pos < LFN_MAX_LEN \<and> c \<noteq> 0x0000 \<and> c \<noteq> 0xFFFF then us[pos := c] else us)"

definition collect_lfn :: "lfn_state \<Rightarrow> lfn_entry \<Rightarrow> lfn_state" where
  "collect_lfn st l =
     (let seq = l_sequence l; seq_num = unat (seq AND LFN_SEQ_MASK) in
      if seq_num = 0 \<or> LFN_MAX_ENTRIES < seq_num then lfn_reset st
      else
        let st = (if seq AND LFN_LAST_ENTRY \<noteq> 0
                  then st\<lparr>lfn_collecting := True, lfn_checksum := l_checksum l, lfn_buffer := []\<rparr> else st)
        in if lfn_collecting st \<and> l_checksum l = lfn_checksum st
           then
             let chars = extract_chars l;
                 start_pos = (seq_num - 1) * LFN_PART_LEN;
                 required_len = min (start_pos + length chars) LFN_MAX_LEN;
                 buffer = (if length (lfn_buffer st) < required_len
                           then grow_zero required_len (lfn_buffer st) else lfn_buffer st)
             in st\<lparr>lfn_buffer := put_chars start_pos chars buffer\<rparr>
           else st)"

definition with_lfn :: "dir_file_entry \<Rightarrow> u16 list \<Rightarrow> fat_dir_entry" where
  "with_lfn d lfn = \<lparr>de_data = d, de_lfn_buffer = take (min (length lfn) LFN_MAX_LEN) lfn\<rparr>"

definition short_entry :: "dir_file_entry \<Rightarrow> lfn_state \<Rightarrow> fat_dir_entry" where
  "short_entry d st =
     (if lfn_collecting st \<and> sfn_checksum (d_name d) = lfn_checksum st \<and> lfn_buffer st \<noteq> []
      then with_lfn d (lfn_buffer st) else \<lparr>de_data = d, de_lfn_buffer = []\<rparr>)"

datatype record_result = EndOfDirectory | Skipped | Found fat_dir_entry | Malformed

definition process_record :: "bytes \<Rightarrow> lfn_state \<Rightarrow> record_result \<times> lfn_state" where
  "process_record bs st =
     (case read_dir_file_entry bs of
        None \<Rightarrow> (Malformed, st)
      | Some d \<Rightarrow>
          if entry_is_end d then (EndOfDirectory, st)
          else if entry_is_deleted d then (Skipped, lfn_reset st)
          else if entry_is_lfn d
          then (case read_lfn_entry bs of
                  None \<Rightarrow> (Malformed, st)
                | Some l \<Rightarrow> (Skipped, collect_lfn st l))
          else (Found (short_entry d st), lfn_reset st))"


section \<open>The iterator\<close>

datatype dir_source =
    Fixed nat nat  \<comment> \<open>start offset and remaining bytes\<close>
  | ClusterChain "nat option"

record fat_dir_entries =
  it_fat :: fat
  it_source :: dir_source
  it_buffer :: bytes
  it_buffer_offset :: nat
  it_finished :: bool
  it_lfn :: lfn_state
  it_clusters_traversed :: nat
  it_base_offset :: nat
  it_fat_cache :: block_cache

type_synonym 's dir_iter = "fat_dir_entries \<times> 's"

definition new_entries :: "fat \<Rightarrow> dir_source \<Rightarrow> (fat_dir_entries, io_error) outcome" where
  "new_entries f source =
     and_then (cache_new (f_sector_size f)) (\<lambda>fat_cache.
       Ok \<lparr>it_fat = f, it_source = source, it_buffer = [], it_buffer_offset = 0, it_finished = False,
           it_lfn = \<lparr>lfn_buffer = [], lfn_checksum = 0, lfn_collecting = False\<rparr>,
           it_clusters_traversed = 0, it_base_offset = 0, it_fat_cache = fat_cache\<rparr>)"

definition new_fixed :: "fat \<Rightarrow> nat \<Rightarrow> nat \<Rightarrow> (fat_dir_entries, io_error) outcome" where
  "new_fixed f start_offset n = new_entries f (Fixed start_offset n)"

definition new_cluster_chain :: "fat \<Rightarrow> nat \<Rightarrow> (fat_dir_entries, io_error) outcome" where
  "new_cluster_chain f first_cluster = new_entries f (ClusterChain (Some first_cluster))"

text \<open>
  A failed read leaves the iterator finished, so what it leaves in the buffer is not observable;
  the model leaves the zeros of the resize.
\<close>

definition fill_fixed ::
  "'s source \<Rightarrow> nat \<Rightarrow> nat \<Rightarrow> 's dir_iter \<Rightarrow> (unit, fat_error) outcome \<times> 's dir_iter" where
  "fill_fixed src start remaining st =
     (let (it, s) = st in
      if remaining = 0 then (Ok (), it, s)
      else
        let to_read = min remaining (f_cluster_size (it_fat it));
            it = it\<lparr>it_buffer := replicate to_read 0, it_base_offset := start\<rparr>
        in and_do (apfst (map_err Io) (apsnd (Pair it) (read_exact_from src s start to_read))) (\<lambda>bs (it, s).
           and_do (add64 start to_read, it\<lparr>it_buffer := bs\<rparr>, s) (\<lambda>start (it, s).
             (Ok (), it\<lparr>it_source := Fixed start (remaining - to_read)\<rparr>, s))))"

definition fill_chain ::
  "'s source \<Rightarrow> nat option \<Rightarrow> 's dir_iter \<Rightarrow> (unit, fat_error) outcome \<times> 's dir_iter" where
  "fill_chain src current st =
     (let (it, s) = st; max_clusters = f_total_clusters (it_fat it) in
      case current of
        None \<Rightarrow> (Ok (), it, s)
      | Some cluster \<Rightarrow>
          if max_clusters \<le> it_clusters_traversed it then (Err (ClusterChainLoop max_clusters), it, s)
          else
            and_do (cluster_offset (it_fat it) cluster, it, s) (\<lambda>offset (it, s).
            let cluster_size = f_cluster_size (it_fat it);
                it = it\<lparr>it_buffer := replicate cluster_size 0, it_base_offset := offset\<rparr> in
            and_do (apfst (map_err Io) (apsnd (Pair it) (read_exact_from src s offset cluster_size))) (\<lambda>bs (it, s).
            and_do (apsnd (\<lambda>(bc, s). (it\<lparr>it_buffer := bs, it_fat_cache := bc\<rparr>, s))
                (next_cluster_cached src (file_geometry (it_fat it)) cluster (it_fat_cache it, s))) (\<lambda>next (it, s).
              (Ok (), it\<lparr>it_source := ClusterChain next,
                        it_clusters_traversed := it_clusters_traversed it + 1\<rparr>, s)))))"

definition fill_buffer :: "'s source \<Rightarrow> 's dir_iter \<Rightarrow> (unit, fat_error) outcome \<times> 's dir_iter" where
  "fill_buffer src st =
     (let (it, s) = st; it = it\<lparr>it_buffer_offset := 0, it_buffer := []\<rparr> in
      case it_source it of
        Fixed start remaining \<Rightarrow> fill_fixed src start remaining (it, s)
      | ClusterChain current \<Rightarrow> fill_chain src current (it, s))"

definition malformed_at_current_entry :: "fat_dir_entries \<Rightarrow> fat_error" where
  "malformed_at_current_entry it =
     MalformedDirEntry (saturating_add64 (it_base_offset it) (it_buffer_offset it - DIR_ENTRY_SIZE))"

text \<open>
  One iteration of the loop of \<open>next\<close>: \<open>None\<close> to go on, otherwise what \<open>next\<close> returns.
\<close>

definition next_step ::
  "'s source \<Rightarrow> 's dir_iter \<Rightarrow> (fat_dir_entry option option, fat_error) outcome \<times> 's dir_iter" where
  "next_step src st =
     (let (it, s) = st in
      if it_buffer_offset it + DIR_ENTRY_SIZE \<le> length (it_buffer it)
      then
        let entry_bytes = slice (it_buffer it) (it_buffer_offset it) DIR_ENTRY_SIZE;
            (result, lfn) = process_record entry_bytes (it_lfn it);
            it = it\<lparr>it_buffer_offset := it_buffer_offset it + DIR_ENTRY_SIZE, it_lfn := lfn\<rparr>
        in case result of
             EndOfDirectory \<Rightarrow> (Ok (Some None), it\<lparr>it_finished := True\<rparr>, s)
           | Skipped \<Rightarrow> (Ok None, it, s)
           | Found e \<Rightarrow> (Ok (Some (Some e)), it, s)
           | Malformed \<Rightarrow> (Err (malformed_at_current_entry it), it\<lparr>it_finished := True\<rparr>, s)
      else
        case fill_buffer src (it, s) of
          (Ok _, it, s) \<Rightarrow>
            (if it_buffer it = [] then (Ok (Some None), it\<lparr>it_finished := True\<rparr>, s) else (Ok None, it, s))
        | (Err e, it, s) \<Rightarrow> (Err e, it\<lparr>it_finished := True\<rparr>, s)
        | (Panic, it, s) \<Rightarrow> (Panic, it, s)
        | (Diverge, it, s) \<Rightarrow> (Diverge, it, s))"

text \<open>Every fill uses up a part of the directory, every record a part of the buffer.\<close>

fun source_left :: "dir_source \<Rightarrow> nat \<Rightarrow> nat" where
  "source_left (Fixed start remaining) n = remaining"
| "source_left (ClusterChain None) n = 0"
| "source_left (ClusterChain (Some cl)) n = Suc n"

definition fills_left :: "'s dir_iter \<Rightarrow> nat" where
  "fills_left st =
     source_left (it_source (fst st)) (f_total_clusters (it_fat (fst st)) - it_clusters_traversed (fst st))"

definition buffer_left :: "'s dir_iter \<Rightarrow> nat" where
  "buffer_left st = length (it_buffer (fst st)) - it_buffer_offset (fst st)"

abbreviation iter_less :: "('s dir_iter \<times> 's dir_iter) set" where
  "iter_less \<equiv> measures [fills_left, buffer_left]"

lemma read_exact_from_zero:
  "read_exact_from src s p 0 = (Ok bs, s') \<Longrightarrow> bs = []"
  by (auto simp: read_exact_from_def read_exact_def and_do_eq_Ok_iff read_exact_loop.simps [of src _ 0])

lemma fill_fixed_progress:
  assumes "fill_fixed src start remaining (it, s) = (Ok u, st')" and "it_buffer it = []"
    and "it_source it = Fixed start remaining" and "it_buffer (fst st') \<noteq> []"
  shows "fills_left st' < fills_left (it, s)"
proof -
  let ?n = "min remaining (f_cluster_size (it_fat it))"
  obtain bs s1 where r: "read_exact_from src s start ?n = (Ok bs, s1)" "it_buffer (fst st') = bs"
      "it_source (fst st') = Fixed (start + ?n) (remaining - ?n)"
    using assms by (auto simp: fill_fixed_def Let_def and_do_eq_Ok_iff apsnd_def apfst_def map_prod_def add64_def
        split: if_splits prod.splits)
  have "?n \<noteq> 0" using r(1,2) assms(4) read_exact_from_zero [of src s start bs s1] by metis
  then show ?thesis using r(3) assms(3) by (simp add: fills_left_def)
qed

lemma fill_chain_progress:
  assumes "fill_chain src current (it, s) = (Ok u, st')" and "it_buffer it = []"
    and "it_source it = ClusterChain current" and "it_buffer (fst st') \<noteq> []"
  shows "fills_left st' < fills_left (it, s)"
proof (cases current)
  case None
  then show ?thesis using assms by (auto simp: fill_chain_def)
next
  case (Some cl)
  let ?n = "f_total_clusters (it_fat it)"
  obtain nx where n: "it_source (fst st') = ClusterChain nx" "it_fat (fst st') = it_fat it"
      "it_clusters_traversed (fst st') = Suc (it_clusters_traversed it)" "it_clusters_traversed it < ?n"
    using assms(1) Some
    by (auto simp: fill_chain_def Let_def and_do_eq_Ok_iff apsnd_eq_iff case_prod_beta split: if_splits)
  then show ?thesis using assms(3) Some by (cases nx) (simp_all add: fills_left_def)
qed

lemma fill_buffer_progress:
  assumes "fill_buffer src (it, s) = (Ok u, st')" and "it_buffer (fst st') \<noteq> []"
  shows "fills_left st' < fills_left (it, s)"
proof -
  let ?it = "it\<lparr>it_buffer_offset := 0, it_buffer := []\<rparr>"
  have "fills_left st' < fills_left (?it, s)"
    using assms fill_fixed_progress [of src _ _ ?it s u st'] fill_chain_progress [of src _ ?it s u st']
    by (cases "it_source it") (auto simp: fill_buffer_def Let_def)
  then show ?thesis by (simp add: fills_left_def)
qed

lemma next_step_progress:
  assumes "next_step src st = (Ok r, st')" and "r \<noteq> Some None"
  shows "(st', st) \<in> iter_less"
proof -
  obtain it s where st: "st = (it, s)" by (cases st)
  show ?thesis
  proof (cases "it_buffer_offset it + DIR_ENTRY_SIZE \<le> length (it_buffer it)")
    case True
    then have "fills_left st' = fills_left st" "buffer_left st' < buffer_left st"
      using assms
      by (auto simp: st next_step_def Let_def fills_left_def buffer_left_def DIR_ENTRY_SIZE_def
          split: prod.splits record_result.splits)
    then show ?thesis by simp
  next
    case False
    then obtain u where "fill_buffer src (it, s) = (Ok u, st')" "it_buffer (fst st') \<noteq> []"
      using assms by (auto simp: st next_step_def Let_def split: prod.splits outcome.splits if_splits)
    then have "fills_left st' < fills_left st" unfolding st by (rule fill_buffer_progress)
    then show ?thesis by simp
  qed
qed

declare and_do_cong [fundef_cong]

function next_loop ::
  "'s source \<Rightarrow> 's dir_iter \<Rightarrow> (fat_dir_entry option, fat_error) outcome \<times> 's dir_iter" where
  "next_loop src st =
     and_do (next_step src st) (\<lambda>r st. case r of Some e \<Rightarrow> (Ok e, st) | None \<Rightarrow> next_loop src st)"
  by pat_completeness auto
termination
  by (relation "inv_image iter_less snd") (auto dest: next_step_progress)

declare next_loop.simps [simp del]

definition iter_next ::
  "'s source \<Rightarrow> 's dir_iter \<Rightarrow> (fat_dir_entry option, fat_error) outcome \<times> 's dir_iter" where
  "iter_next src st = (if it_finished (fst st) then (Ok None, st) else next_loop src st)"

lemma next_loop_progress:
  "next_loop src st = (Ok (Some e), st') \<Longrightarrow> (st', st) \<in> iter_less"
proof (induction src st rule: next_loop.induct)
  case (1 src st)
  then obtain r st1 where r: "next_step src st = (Ok r, st1)"
      "(case r of Some e \<Rightarrow> (Ok e, st1) | None \<Rightarrow> next_loop src st1) = (Ok (Some e), st')"
    by (subst (asm) next_loop.simps) (auto simp: and_do_eq_Ok_iff)
  show ?case
  proof (cases r)
    case None
    have "(st1, st) \<in> iter_less" using r(1) None next_step_progress by blast
    moreover have "(st', st1) \<in> iter_less" using 1 r None by simp
    ultimately show ?thesis by (auto simp: measures_def intro: less_trans)
  next
    case (Some x)
    with r next_step_progress [OF r(1)] show ?thesis by auto
  qed
qed

function find_entry ::
  "'s source \<Rightarrow> (fat_dir_entry \<Rightarrow> bool) \<Rightarrow> 's dir_iter \<Rightarrow> (fat_dir_entry option, fat_error) outcome \<times> 's dir_iter" where
  "find_entry src predicate st =
     and_do (iter_next src st) (\<lambda>r st.
       case r of
         None \<Rightarrow> (Ok None, st)
       | Some e \<Rightarrow> if predicate e then (Ok (Some e), st) else find_entry src predicate st)"
  by pat_completeness auto
termination
  by (relation "inv_image iter_less (\<lambda>(src, p, st). st)")
    (auto dest: next_loop_progress simp: iter_next_def split: if_splits)

declare find_entry.simps [simp del]

declare and_do_cong [fundef_cong del]

definition find_by_name ::
  "'s source \<Rightarrow> chars \<Rightarrow> 's dir_iter \<Rightarrow> (fat_dir_entry option, fat_error) outcome \<times> 's dir_iter" where
  "find_by_name src name st = find_entry src (\<lambda>e. name_matches e name) st"

end
