(* ===== verification/Try_Iterator.thy ===== *)
theory Try_Iterator
  imports Prelude
begin

text \<open>
  \<open>fsmnt-parser-core/src/iter.rs\<close>: iterators that read the device as they go, and may fail. The
  locale \<open>try_iterator\<close> is the contract of \<open>FsTryIterator::try_next\<close>: the state stands for the items
  still to come and for the error that ends them, if one does; after an error the iterator is at
  its end. The loops that clients write around \<open>try_next\<close> are proved once, from the equation they
  satisfy. The provided methods of \<open>FsTryIteratorExt\<close> are instances of one loop, which ends on every
  iterator that meets the contract.
\<close>

type_synonym ('a, 'e) items = "'a list \<times> 'e option"

fun next_item :: "('a, 'e) items \<Rightarrow> ('a option, 'e) outcome" where
  "next_item (x # xs, e) = Ok (Some x)"
| "next_item ([], None) = Ok None"
| "next_item ([], Some e) = Err e"

fun later_items :: "('a, 'e) items \<Rightarrow> ('a, 'e) items" where
  "later_items (x # xs, e) = (xs, e)"
| "later_items ([], e) = ([], None)"

text \<open>What is left from the first item that satisfies a predicate on.\<close>

definition skip_to :: "('a \<Rightarrow> bool) \<Rightarrow> ('a, 'e) items \<Rightarrow> ('a, 'e) items" where
  "skip_to p r = (dropWhile (\<lambda>x. \<not> p x) (fst r), snd r)"

definition all_items :: "('a, 'e) items \<Rightarrow> ('a list, 'e) outcome" where
  "all_items r = (case snd r of None \<Rightarrow> Ok (fst r) | Some e \<Rightarrow> Err e)"

definition keep_items :: "('a \<Rightarrow> bool) \<Rightarrow> ('a, 'e) items \<Rightarrow> ('a, 'e) items" where
  "keep_items p r = (filter p (fst r), snd r)"

lemma skip_to_cases:
  obtains (found) x xs where "skip_to p (as, e) = (x # xs, e)" and "p x" and "filter p as = x # filter p xs"
  | (none) "skip_to p (as, e) = ([], e)" and "filter p as = []"
proof (cases "dropWhile (\<lambda>x. \<not> p x) as")
  case Nil
  then show ?thesis using none by (simp add: skip_to_def dropWhile_eq_Nil_conv filter_empty_conv)
next
  case (Cons x xs)
  then have "p x" using hd_dropWhile [of "\<lambda>x. \<not> p x" as] by simp
  moreover have "filter p as = filter p (takeWhile (\<lambda>x. \<not> p x) as) @ filter p (x # xs)"
    by (metis Cons filter_append takeWhile_dropWhile_id)
  moreover have "filter p (takeWhile (\<lambda>x. \<not> p x) as) = []"
    by (auto simp: filter_empty_conv dest: set_takeWhileD)
  ultimately show ?thesis using found Cons by (simp add: skip_to_def)
qed

lemma keep_items_skip:
  "next_item (keep_items p r) = next_item (skip_to p r)"
  "later_items (keep_items p r) = keep_items p (later_items (skip_to p r))"
proof -
  obtain as e where r: "r = (as, e)" by (cases r)
  show "next_item (keep_items p r) = next_item (skip_to p r)"
    "later_items (keep_items p r) = keep_items p (later_items (skip_to p r))"
    unfolding r by (cases rule: skip_to_cases [of p as e]; simp add: keep_items_def; cases e; simp)+
qed

section \<open>Provided methods\<close>

text \<open>
  The loop \<open>while let Some(item) = self.try_next(r)? { ... }\<close>: its body leaves with an outcome or
  goes on in a new state, and \<open>fin\<close> is what follows the loop. Predicates are functions of the item;
  the closure of \<open>for_each\<close> updates a state of its own.
\<close>

partial_function (option) while_some ::
  "('i \<Rightarrow> ('a option, 'e) outcome \<times> 'i) \<Rightarrow> ('a \<Rightarrow> 's \<Rightarrow> ('b, 'e) outcome + 's) \<Rightarrow> ('s \<Rightarrow> 'b) \<Rightarrow> 'i \<Rightarrow> 's
    \<Rightarrow> (('b, 'e) outcome \<times> 'i) option" where
  "while_some try_next body fin i s =
     (let (r, i') = try_next i in
      case r of
        Ok None \<Rightarrow> Some (Ok (fin s), i')
      | Ok (Some x) \<Rightarrow> (case body x s of Inl out \<Rightarrow> Some (out, i') | Inr s' \<Rightarrow> while_some try_next body fin i' s')
      | Err e \<Rightarrow> Some (Err e, i')
      | Panic \<Rightarrow> Some (Panic, i')
      | Diverge \<Rightarrow> Some (Diverge, i'))"

definition or_diverge :: "(('b, 'e) outcome \<times> 'i) option \<Rightarrow> 'i \<Rightarrow> ('b, 'e) outcome \<times> 'i" where
  "or_diverge r i = (case r of Some r \<Rightarrow> r | None \<Rightarrow> (Diverge, i))"

definition iter_count :: "('i \<Rightarrow> ('a option, 'e) outcome \<times> 'i) \<Rightarrow> 'i \<Rightarrow> (nat, 'e) outcome \<times> 'i" where
  "iter_count try_next i = or_diverge (while_some try_next
     (\<lambda>_ n. if n + 1 < 2 ^ 64 then Inr (n + 1) else Inl Panic) (\<lambda>n. n) i 0) i"

definition iter_for_each :: "('i \<Rightarrow> ('a option, 'e) outcome \<times> 'i) \<Rightarrow> ('a \<Rightarrow> 's \<Rightarrow> 's) \<Rightarrow> 'i \<Rightarrow> 's \<Rightarrow> ('s, 'e) outcome \<times> 'i" where
  "iter_for_each try_next f i s = or_diverge (while_some try_next (\<lambda>x s. Inr (f x s)) (\<lambda>s. s) i s) i"

definition iter_any :: "('i \<Rightarrow> ('a option, 'e) outcome \<times> 'i) \<Rightarrow> ('a \<Rightarrow> bool) \<Rightarrow> 'i \<Rightarrow> (bool, 'e) outcome \<times> 'i" where
  "iter_any try_next predicate i = or_diverge (while_some try_next
     (\<lambda>x _. if predicate x then Inl (Ok True) else Inr ()) (\<lambda>_. False) i ()) i"

definition iter_find_map :: "('i \<Rightarrow> ('a option, 'e) outcome \<times> 'i) \<Rightarrow> ('a \<Rightarrow> 'b option) \<Rightarrow> 'i \<Rightarrow> ('b option, 'e) outcome \<times> 'i" where
  "iter_find_map try_next f i = or_diverge (while_some try_next
     (\<lambda>x _. case f x of Some y \<Rightarrow> Inl (Ok (Some y)) | None \<Rightarrow> Inr ()) (\<lambda>_. None) i ()) i"

text \<open>The same loop over the items.\<close>

fun over_items :: "('a \<Rightarrow> 's \<Rightarrow> ('b, 'e) outcome + 's) \<Rightarrow> ('s \<Rightarrow> 'b) \<Rightarrow> ('a, 'e) items \<Rightarrow> 's
    \<Rightarrow> ('b, 'e) outcome \<times> ('a, 'e) items" where
  "over_items body fin ([], None) s = (Ok (fin s), ([], None))"
| "over_items body fin ([], Some e) s = (Err e, ([], None))"
| "over_items body fin (x # xs, e) s =
     (case body x s of Inl out \<Rightarrow> (out, (xs, e)) | Inr s' \<Rightarrow> over_items body fin (xs, e) s')"

text \<open>The items up to the error that ends them, if one does, replaced by a value.\<close>

definition at_end :: "'b \<Rightarrow> 'e option \<Rightarrow> ('b, 'e) outcome" where
  "at_end b e = (case e of None \<Rightarrow> Ok b | Some e \<Rightarrow> Err e)"

lemma over_items_count:
  "n + length xs < 2 ^ 64 \<Longrightarrow>
    over_items (\<lambda>_ n. if n + 1 < 2 ^ 64 then Inr (n + 1) else Inl Panic) (\<lambda>n. n) (xs, e) n
      = (at_end (n + length xs) e, ([], None))"
  by (induction xs arbitrary: n; cases e) (simp_all add: at_end_def)

lemma over_items_for_each:
  "over_items (\<lambda>x s. Inr (f x s)) (\<lambda>s. s) (xs, e) s = (at_end (fold f xs s) e, ([], None))"
  by (induction xs arbitrary: s; cases e) (simp_all add: at_end_def)

lemma over_items_any:
  "over_items (\<lambda>x _. if p x then Inl (Ok True) else Inr ()) (\<lambda>_. False) (xs, e) ()
    = (if list_ex p xs then Ok True else at_end False e, later_items (skip_to p (xs, e)))"
  by (induction xs; cases e) (simp_all add: at_end_def skip_to_def)

lemma over_items_find_map:
  "over_items (\<lambda>x _. case f x of Some y \<Rightarrow> Inl (Ok (Some y)) | None \<Rightarrow> Inr ()) (\<lambda>_. None) (xs, e) ()
    = (case List.map_filter f xs of [] \<Rightarrow> at_end None e | y # _ \<Rightarrow> Ok (Some y),
       later_items (skip_to (\<lambda>x. f x \<noteq> None) (xs, e)))"
  by (induction xs; cases e) (simp_all add: at_end_def skip_to_def map_filter_simps split: option.splits)


section \<open>The contract\<close>

locale try_iterator =
  fixes try_next :: "'i \<Rightarrow> ('a option, 'e) outcome \<times> 'i"
    and sound :: "'i \<Rightarrow> bool"
    and items :: "'i \<Rightarrow> ('a, 'e) items"
  assumes try_next_items: "sound i \<Longrightarrow>
      \<exists>i'. try_next i = (next_item (items i), i') \<and> sound i' \<and> items i' = later_items (items i)"
begin

lemma search_items:
  assumes search: "\<And>i. search i = and_do (try_next i) (\<lambda>r i. case r of
      None \<Rightarrow> (Ok None, i) | Some x \<Rightarrow> if p x then (Ok (Some x), i) else search i)"
    and "sound i"
  shows "\<exists>i'. search i = (next_item (skip_to p (items i)), i') \<and> sound i'
    \<and> items i' = later_items (skip_to p (items i))"
  using assms(2)
proof (induction "fst (items i)" arbitrary: i)
  case Nil
  obtain i' where i': "try_next i = (next_item (items i), i')" "sound i'" "items i' = later_items (items i)"
    using try_next_items [OF Nil.prems] by blast
  obtain e where e: "items i = ([], e)" using Nil.hyps by (cases "items i") simp
  show ?case using i' e by (subst search) (cases e; simp add: skip_to_def)
next
  case (Cons x xs)
  obtain i' where i': "try_next i = (next_item (items i), i')" "sound i'" "items i' = later_items (items i)"
    using try_next_items [OF Cons.prems] by blast
  obtain e where e: "items i = (x # xs, e)" using Cons.hyps by (cases "items i") simp
  show ?case
  proof (cases "p x")
    case True
    with i' e show ?thesis by (subst search) (simp add: skip_to_def)
  next
    case False
    have "skip_to p (items i') = skip_to p (items i)" using i'(3) e False by (simp add: skip_to_def)
    moreover have "search i = search i'" using i' e False by (subst search) simp
    ultimately show ?thesis using Cons.hyps(1) [of i'] i' e by simp
  qed
qed

lemma collect_items:
  assumes all: "\<And>i. all i = and_do (try_next i) (\<lambda>r i. case r of
      None \<Rightarrow> (Ok [], i) | Some x \<Rightarrow> and_do (all i) (\<lambda>xs i. (Ok (x # xs), i)))"
    and "sound i"
  shows "\<exists>i'. all i = (all_items (items i), i') \<and> sound i' \<and> items i' = ([], None)"
  using assms(2)
proof (induction "fst (items i)" arbitrary: i)
  case Nil
  obtain i' where i': "try_next i = (next_item (items i), i')" "sound i'" "items i' = later_items (items i)"
    using try_next_items [OF Nil.prems] by blast
  obtain e where e: "items i = ([], e)" using Nil.hyps by (cases "items i") simp
  show ?case using i' e by (subst all) (cases e; simp add: all_items_def)
next
  case (Cons x xs)
  obtain i' where i': "try_next i = (next_item (items i), i')" "sound i'" "items i' = later_items (items i)"
    using try_next_items [OF Cons.prems] by blast
  obtain e where e: "items i = (x # xs, e)" using Cons.hyps by (cases "items i") simp
  obtain i'' where "all i' = (all_items (items i'), i'')" "sound i''" "items i'' = ([], None)"
    using Cons.hyps(1) [of i'] i' e by auto
  then show ?case using i' e by (subst all) (cases e; simp add: all_items_def)
qed

lemma while_some_items:
  assumes "sound i"
  shows "\<exists>i'. while_some try_next body fin i s = Some (fst (over_items body fin (items i) s), i')
    \<and> sound i' \<and> items i' = snd (over_items body fin (items i) s)"
  using assms
proof (induction "fst (items i)" arbitrary: i s)
  case Nil
  obtain i' where i': "try_next i = (next_item (items i), i')" "sound i'" "items i' = later_items (items i)"
    using try_next_items [OF Nil.prems] by blast
  obtain e where e: "items i = ([], e)" using Nil.hyps by (cases "items i") simp
  show ?case using i' e by (subst while_some.simps) (cases e; simp add: Let_def)
next
  case (Cons x xs)
  obtain i' where i': "try_next i = (next_item (items i), i')" "sound i'" "items i' = later_items (items i)"
    using try_next_items [OF Cons.prems] by blast
  obtain e where e: "items i = (x # xs, e)" using Cons.hyps by (cases "items i") simp
  show ?case
  proof (cases "body x s")
    case (Inl out)
    with i' e show ?thesis by (subst while_some.simps) (simp add: Let_def)
  next
    case (Inr s')
    have "while_some try_next body fin i s = while_some try_next body fin i' s'"
      using i'(1) e Inr by (subst while_some.simps) (simp add: Let_def)
    then show ?thesis using Cons.hyps(1) [of i' s'] i' e Inr by simp
  qed
qed

lemma or_diverge_items:
  assumes "sound i" "items i = (xs, e)" "over_items body fin (xs, e) s = (out, later)"
  shows "\<exists>i'. or_diverge (while_some try_next body fin i s) i = (out, i') \<and> sound i' \<and> items i' = later"
  using while_some_items [OF assms(1), of body fin s] assms(2,3) by (auto simp: or_diverge_def)

text \<open>The provided methods return, and what they return is a function of the items to come.\<close>

lemma iter_count_items:
  assumes "sound i" "items i = (xs, e)" "length xs < 2 ^ 64"
  shows "\<exists>i'. iter_count try_next i = (at_end (length xs) e, i') \<and> sound i' \<and> items i' = ([], None)"
  unfolding iter_count_def by (rule or_diverge_items [OF assms(1,2) over_items_count [of 0 xs e, unfolded add_0, OF assms(3)]])

lemma iter_for_each_items:
  assumes "sound i" "items i = (xs, e)"
  shows "\<exists>i'. iter_for_each try_next f i s = (at_end (fold f xs s) e, i') \<and> sound i' \<and> items i' = ([], None)"
  unfolding iter_for_each_def by (rule or_diverge_items [OF assms(1,2) over_items_for_each])

lemma iter_any_items:
  assumes "sound i" "items i = (xs, e)"
  shows "\<exists>i'. iter_any try_next p i = (if list_ex p xs then Ok True else at_end False e, i')
    \<and> sound i' \<and> items i' = later_items (skip_to p (xs, e))"
  unfolding iter_any_def by (rule or_diverge_items [OF assms(1,2) over_items_any])

lemma iter_find_map_items:
  assumes "sound i" "items i = (xs, e)"
  shows "\<exists>i'. iter_find_map try_next f i
      = (case List.map_filter f xs of [] \<Rightarrow> at_end None e | y # _ \<Rightarrow> Ok (Some y), i')
    \<and> sound i' \<and> items i' = later_items (skip_to (\<lambda>x. f x \<noteq> None) (xs, e))"
  unfolding iter_find_map_def by (rule or_diverge_items [OF assms(1,2) over_items_find_map])

text \<open>An iterator that skips items is an iterator over the others.\<close>

lemma keep_items_iterator:
  assumes "\<And>i. search i = and_do (try_next i) (\<lambda>r i. case r of
      None \<Rightarrow> (Ok None, i) | Some x \<Rightarrow> if p x then (Ok (Some x), i) else search i)"
  shows "try_iterator search sound (\<lambda>i. keep_items p (items i))"
  by unfold_locales (metis search_items [OF assms] keep_items_skip)

end

end
