(* ===== verification/Walk.thy ===== *)
theory Walk
  imports Try_Iterator "HOL-Library.Multiset"
begin

text \<open>
  \<open>fsmnt-parser-core/src/traverse.rs\<close>: the recursive walk over the directories of any file system,
  with its set of directories seen and its depth limit. The file system's operations are a record;
  the locale \<open>dir_tree\<close> is what the walk relies on, and under it the walk is a total function of the
  tree of directories.
\<close>

section \<open>The walk\<close>

datatype entry_kind = EkFile | EkDirectory | EkSymlink | EkFifo | EkCharDevice | EkBlockDevice | EkSocket | EkOther

text \<open>
  The operations of \<open>FsDirectory\<close>, of its iterator and of \<open>FsDirEntry\<close>: \<open>'d\<close> are the directory
  handles, \<open>'i\<close> the iterators, \<open>'x\<close> the entries, \<open>'r\<close> the reader.
\<close>

record ('d, 'i, 'x, 'r, 'e) walk_ops =
  w_dir_id :: "'d \<Rightarrow> nat option"
  w_entries :: "'d \<Rightarrow> 'r \<Rightarrow> ('i, 'e) outcome \<times> 'r"
  w_next :: "'i \<times> 'r \<Rightarrow> ('x option, 'e) outcome \<times> ('i \<times> 'r)"
  w_kind :: "'x \<Rightarrow> entry_kind"
  w_id :: "'x \<Rightarrow> nat option"
  w_open_dir :: "'x \<Rightarrow> 'r \<Rightarrow> ('d option, 'e) outcome \<times> 'r"

text \<open>The directories seen, the entries handed to the callback so far, and the reader.\<close>

type_synonym ('x, 'r) walk_state = "nat set \<times> 'x list \<times> 'r"

definition MAX_WALK_DEPTH :: nat where "MAX_WALK_DEPTH = 4096"

text \<open>\<open>should_recurse\<close>, with the set after \<open>seen.insert\<close>.\<close>

definition should_recurse :: "entry_kind \<Rightarrow> nat option \<Rightarrow> nat set \<Rightarrow> bool \<times> nat set" where
  "should_recurse kind ident seen =
     (if kind = EkDirectory
      then (case ident of Some i \<Rightarrow> (i \<notin> seen, insert i seen) | None \<Rightarrow> (True, seen))
      else (False, seen))"

text \<open>The start of \<open>walk_dir_inner\<close>: no iterator at the depth limit.\<close>

definition walk_enter ::
  "('d, 'i, 'x, 'r, 'e) walk_ops \<Rightarrow> nat \<Rightarrow> 'd \<Rightarrow> 'r \<Rightarrow> ('i option, 'e) outcome \<times> 'r" where
  "walk_enter ops depth d r =
     (if MAX_WALK_DEPTH \<le> depth then (Ok None, r)
      else and_do (w_entries ops d r) (\<lambda>it r. (Ok (Some it), r)))"

text \<open>One turn of the loop up to the recursive call: the iterator of the child, if it has one.\<close>

definition walk_entry ::
  "('d, 'i, 'x, 'r, 'e) walk_ops \<Rightarrow> nat \<Rightarrow> 'x \<Rightarrow> ('x, 'r) walk_state \<Rightarrow> ('i option, 'e) outcome \<times> ('x, 'r) walk_state" where
  "walk_entry ops depth entry st =
     (let (seen, calls, r) = st;
          (recurse, seen) = should_recurse (w_kind ops entry) (w_id ops entry) seen
      in case (if recurse then w_open_dir ops entry r else (Ok None, r)) of
           (Ok child_dir, r) \<Rightarrow>
             let calls = calls @ [entry] in
             (case child_dir of
                None \<Rightarrow> (Ok None, seen, calls, r)
              | Some child \<Rightarrow> apsnd (\<lambda>r. (seen, calls, r)) (walk_enter ops (depth + 1) child r))
         | (Err e, r) \<Rightarrow> (Err e, seen, calls, r)
         | (Panic, r) \<Rightarrow> (Panic, seen, calls, r)
         | (Diverge, r) \<Rightarrow> (Diverge, seen, calls, r))"

text \<open>The loop; a walk that never ends has no value.\<close>

partial_function (option) walk_loop ::
  "('d, 'i, 'x, 'r, 'e) walk_ops \<Rightarrow> nat \<Rightarrow> 'i \<Rightarrow> ('x, 'r) walk_state \<Rightarrow> ((unit, 'e) outcome \<times> ('x, 'r) walk_state) option" where
  "walk_loop ops depth it st =
     (let (seen, calls, r) = st; (res, it, r) = w_next ops (it, r) in
      case res of
        Ok next \<Rightarrow>
          (case next of
             None \<Rightarrow> Some (Ok (), seen, calls, r)
           | Some entry \<Rightarrow>
               let (child, st) = walk_entry ops depth entry (seen, calls, r) in
               (case child of
                  Ok c \<Rightarrow>
                    Option.bind
                      (case c of None \<Rightarrow> Some (Ok (), st) | Some it' \<Rightarrow> walk_loop ops (depth + 1) it' st)
                      (\<lambda>(res, st). if res = Ok () then walk_loop ops depth it st else Some (res, st))
                | Err e \<Rightarrow> Some (Err e, st)
                | Panic \<Rightarrow> Some (Panic, st)
                | Diverge \<Rightarrow> Some (Diverge, st)))
      | Err e \<Rightarrow> Some (Err e, seen, calls, r)
      | Panic \<Rightarrow> Some (Panic, seen, calls, r)
      | Diverge \<Rightarrow> Some (Diverge, seen, calls, r))"

definition walk_dir_inner ::
  "('d, 'i, 'x, 'r, 'e) walk_ops \<Rightarrow> nat \<Rightarrow> 'd \<Rightarrow> ('x, 'r) walk_state \<Rightarrow> ((unit, 'e) outcome \<times> ('x, 'r) walk_state) option" where
  "walk_dir_inner ops depth d st =
     (let (seen, calls, r) = st; (res, r) = walk_enter ops depth d r in
      case res of
        Ok None \<Rightarrow> Some (Ok (), seen, calls, r)
      | Ok (Some it) \<Rightarrow> walk_loop ops depth it (seen, calls, r)
      | Err e \<Rightarrow> Some (Err e, seen, calls, r)
      | Panic \<Rightarrow> Some (Panic, seen, calls, r)
      | Diverge \<Rightarrow> Some (Diverge, seen, calls, r))"

definition walk_dir ::
  "('d, 'i, 'x, 'r, 'e) walk_ops \<Rightarrow> 'd \<Rightarrow> nat set \<Rightarrow> 'r \<Rightarrow> ((unit, 'e) outcome \<times> ('x, 'r) walk_state) option" where
  "walk_dir ops d seen r =
     (let seen = (case w_dir_id ops d of Some i \<Rightarrow> insert i seen | None \<Rightarrow> seen)
      in walk_dir_inner ops 0 d (seen, [], r))"


section \<open>The tree it walks\<close>

record ('d, 'x, 'e) tree =
  t_kind :: "'x \<Rightarrow> entry_kind"
  t_id :: "'x \<Rightarrow> nat option"
  t_target :: "'x \<Rightarrow> 'd"
  t_children :: "'d \<Rightarrow> ('x, 'e) items"

declare and_do_cong [fundef_cong]

function tree_walk ::
  "('d, 'x, 'e) tree \<Rightarrow> nat \<Rightarrow> ('x, 'e) items \<Rightarrow> nat set \<times> 'x list \<Rightarrow> (unit, 'e) outcome \<times> (nat set \<times> 'x list)" where
  "tree_walk t depth ([], e) st = (case e of None \<Rightarrow> Ok () | Some e \<Rightarrow> Err e, st)"
| "tree_walk t depth (x # xs, e) st =
     and_do
       (if fst (should_recurse (t_kind t x) (t_id t x) (fst st)) \<and> depth + 1 < MAX_WALK_DEPTH
        then tree_walk t (depth + 1) (t_children t (t_target t x))
          (snd (should_recurse (t_kind t x) (t_id t x) (fst st)), snd st @ [x])
        else (Ok (), snd (should_recurse (t_kind t x) (t_id t x) (fst st)), snd st @ [x]))
       (\<lambda>_ st. tree_walk t depth (xs, e) st)"
  by pat_completeness auto
termination
  by (relation "measures [\<lambda>(t, depth, xs, st). MAX_WALK_DEPTH - depth, \<lambda>(t, depth, xs, st). length (fst xs)]") auto

declare and_do_cong [fundef_cong del]

lemma returns_tree_walk: "returns (fst (tree_walk t depth r st))"
proof (induction t depth r st rule: tree_walk.induct)
  case (2 t depth x xs e st)
  show ?case unfolding tree_walk.simps by (rule returns_and_do) (use 2 in auto)
qed (simp split: option.split)

text \<open>
  The contract of the file system, on a volume that does not change: directories list the entries
  of the tree, iterators survive reads made in between, and a directory entry opens.
\<close>

locale dir_tree =
  fixes ops :: "('d, 'i, 'x, 'r, 'e) walk_ops"
    and sound :: "'r \<Rightarrow> bool"
    and iter_ok :: "'i \<times> 'r \<Rightarrow> bool"
    and items :: "'i \<times> 'r \<Rightarrow> ('x, 'e) items"
    and dir_ok :: "'d \<Rightarrow> bool"
    and t :: "('d, 'x, 'e) tree"
  assumes entries: "sound r \<Longrightarrow> dir_ok d \<Longrightarrow>
      \<exists>it r'. w_entries ops d r = (Ok it, r') \<and> iter_ok (it, r') \<and> items (it, r') = t_children t d"
    and iterator: "try_iterator (w_next ops) iter_ok items"
    and iter_sound: "iter_ok (it, r) \<Longrightarrow> sound r"
    and iter_stable: "iter_ok (it, r) \<Longrightarrow> sound r' \<Longrightarrow> iter_ok (it, r') \<and> items (it, r') = items (it, r)"
    and open_dir: "sound r \<Longrightarrow> t_kind t x = EkDirectory \<Longrightarrow>
      \<exists>r'. w_open_dir ops x r = (Ok (Some (t_target t x)), r') \<and> sound r' \<and> dir_ok (t_target t x)"
    and kinds: "w_kind ops x = t_kind t x" and idents: "w_id ops x = t_id t x"
begin

lemma walk_entry_tree:
  assumes "sound r"
  shows "\<exists>c r'. walk_entry ops depth x (seen, calls, r)
      = (Ok c, snd (should_recurse (t_kind t x) (t_id t x) seen), calls @ [x], r') \<and> sound r'
    \<and> (if fst (should_recurse (t_kind t x) (t_id t x) seen) \<and> depth + 1 < MAX_WALK_DEPTH
       then \<exists>it. c = Some it \<and> iter_ok (it, r') \<and> items (it, r') = t_children t (t_target t x) else c = None)"
proof (cases "fst (should_recurse (t_kind t x) (t_id t x) seen)")
  case False
  then show ?thesis using assms by (simp add: walk_entry_def kinds idents case_prod_beta)
next
  case True
  then have "t_kind t x = EkDirectory" by (simp add: should_recurse_def split: if_splits)
  from open_dir [OF assms this] obtain r1 where
    r1: "w_open_dir ops x r = (Ok (Some (t_target t x)), r1)" "sound r1" "dir_ok (t_target t x)" by blast
  from entries [OF r1(2,3)] obtain it r2 where
    r2: "w_entries ops (t_target t x) r1 = (Ok it, r2)" "iter_ok (it, r2)" "items (it, r2) = t_children t (t_target t x)"
    by blast
  then show ?thesis using True r1 iter_sound [OF r2(2)]
    by (simp add: walk_entry_def kinds idents case_prod_beta walk_enter_def Let_def)
qed

lemma walk_loop_tree:
  assumes "t' = t" and "items (it, r) = xs" and "iter_ok (it, r)"
  shows "\<exists>r'. walk_loop ops depth it (fst st, snd st, r)
      = Some (case tree_walk t' depth xs st of (res, seen, calls) \<Rightarrow> (res, seen, calls, r')) \<and> sound r'"
  using assms
proof (induction t' depth xs st arbitrary: it r rule: tree_walk.induct)
  case (1 t' depth e st)
  obtain it' r' where it': "w_next ops (it, r) = (next_item ([], e), it', r')" "iter_ok (it', r')"
    using try_iterator.try_next_items [OF iterator 1(3)] 1(2) by auto
  then show ?case using iter_sound [OF it'(2)]
    by (cases st; subst walk_loop.simps) (cases e; simp)
next
  case (2 t' depth x xs e st)
  obtain it1 r1 where it1: "w_next ops (it, r) = (Ok (Some x), it1, r1)" "iter_ok (it1, r1)" "items (it1, r1) = (xs, e)"
    using try_iterator.try_next_items [OF iterator 2(5)] 2(4) by auto
  let ?go = "fst (should_recurse (t_kind t x) (t_id t x) (fst st)) \<and> depth + 1 < MAX_WALK_DEPTH"
  let ?st = "(snd (should_recurse (t_kind t x) (t_id t x) (fst st)), snd st @ [x])"
  obtain c r2 where r2: "walk_entry ops depth x (fst st, snd st, r1) = (Ok c, fst ?st, snd ?st, r2)" "sound r2"
      "if ?go then \<exists>it. c = Some it \<and> iter_ok (it, r2) \<and> items (it, r2) = t_children t (t_target t x) else c = None"
    using walk_entry_tree [OF iter_sound [OF it1(2)], of depth x "fst st" "snd st"] by auto
  let ?inner = "if ?go then tree_walk t (depth + 1) (t_children t (t_target t x)) ?st else (Ok (), ?st)"
  obtain res seen calls where inner: "?inner = (res, seen, calls)" by (metis prod_cases3)
  have "\<exists>r3. (case c of None \<Rightarrow> Some (Ok (), fst ?st, snd ?st, r2) | Some it' \<Rightarrow> walk_loop ops (depth + 1) it' (fst ?st, snd ?st, r2))
      = Some (res, seen, calls, r3) \<and> sound r3"
    using r2 inner 2(1) [unfolded 2(3), OF _ refl, of _ r2] by (auto split: if_splits)
  then obtain r3 where r3: "(case c of None \<Rightarrow> Some (Ok (), fst ?st, snd ?st, r2)
      | Some it' \<Rightarrow> walk_loop ops (depth + 1) it' (fst ?st, snd ?st, r2)) = Some (res, seen, calls, r3)" "sound r3" by blast
  have it3: "iter_ok (it1, r3)" "items (it1, r3) = (xs, e)" using iter_stable [OF it1(2) r3(2)] it1(3) by auto
  have step: "walk_loop ops depth it (fst st, snd st, r)
      = (if res = Ok () then walk_loop ops depth it1 (seen, calls, r3) else Some (res, seen, calls, r3))"
    using it1(1) r2(1) r3(1) [unfolded fst_conv snd_conv] by (subst walk_loop.simps) simp
  have walk: "tree_walk t' depth (x # xs, e) st = and_do ?inner (\<lambda>_ st. tree_walk t' depth (xs, e) st)"
    using 2(3) by simp
  show ?case
  proof (cases "res = Ok ()")
    case True
    have "\<exists>r'. walk_loop ops depth it1 (fst (seen, calls), snd (seen, calls), r3)
        = Some (case tree_walk t' depth (xs, e) (seen, calls) of (res, seen, calls) \<Rightarrow> (res, seen, calls, r')) \<and> sound r'"
      using inner True 2(3) it3 by (intro 2(2)) auto
    then show ?thesis unfolding step walk inner using True by simp
  next
    case False
    then show ?thesis unfolding step walk inner using r3(2) by (cases res) auto
  qed
qed

lemma walk_dir_tree:
  assumes "sound r" and "dir_ok d"
  shows "\<exists>r'. walk_dir ops d seen r
      = Some (case tree_walk t 0 (t_children t d) (case w_dir_id ops d of Some i \<Rightarrow> insert i seen | None \<Rightarrow> seen, [])
          of (res, seen, calls) \<Rightarrow> (res, seen, calls, r')) \<and> sound r'"
proof -
  from entries [OF assms] obtain it r1 where
    it: "w_entries ops d r = (Ok it, r1)" "iter_ok (it, r1)" "items (it, r1) = t_children t d" by blast
  have "\<not> MAX_WALK_DEPTH \<le> 0" by (simp add: MAX_WALK_DEPTH_def)
  then show ?thesis
    using it walk_loop_tree [OF refl it(3,2), of 0 "(case w_dir_id ops d of Some i \<Rightarrow> insert i seen | None \<Rightarrow> seen, [])"]
    by (simp add: walk_dir_def walk_dir_inner_def walk_enter_def)
qed

end


section \<open>What the walk reports\<close>

inductive reachable :: "('d, 'x, 'e) tree \<Rightarrow> 'd \<Rightarrow> 'd \<Rightarrow> bool" for t d0 where
  reachable_root: "reachable t d0 d0"
| reachable_child: "reachable t d0 d \<Longrightarrow> x \<in> set (fst (t_children t d)) \<Longrightarrow> t_kind t x = EkDirectory \<Longrightarrow>
    reachable t d0 (t_target t x)"

text \<open>
  A tree in which the walk is complete: finitely many directories, no more than the depth limit,
  told apart by their identifiers, which the entries that lead to them carry.
\<close>

definition walkable :: "('d, 'x, 'e) tree \<Rightarrow> ('d \<Rightarrow> nat) \<Rightarrow> 'd set \<Rightarrow> bool" where
  "walkable t ident R \<longleftrightarrow> finite R \<and> card R \<le> MAX_WALK_DEPTH \<and> inj_on ident R
     \<and> (\<forall>d \<in> R. snd (t_children t d) = None)
     \<and> (\<forall>d \<in> R. \<forall>x \<in> set (fst (t_children t d)). t_kind t x = EkDirectory \<longrightarrow>
          t_target t x \<in> R \<and> t_id t x = Some (ident (t_target t x)))"

definition sub_dirs :: "('d, 'x, 'e) tree \<Rightarrow> 'x list \<Rightarrow> 'd set" where
  "sub_dirs t xs = {t_target t x | x. x \<in> set xs \<and> t_kind t x = EkDirectory}"

text \<open>The directories that were entered between two sets of identifiers.\<close>

definition entered :: "('d \<Rightarrow> nat) \<Rightarrow> 'd set \<Rightarrow> nat set \<Rightarrow> nat set \<Rightarrow> 'd set" where
  "entered ident R seen seen' = {d \<in> R. ident d \<in> seen' - seen}"

definition walked ::
  "('d, 'x, 'e) tree \<Rightarrow> ('d \<Rightarrow> nat) \<Rightarrow> 'd set \<Rightarrow> 'x list \<Rightarrow> nat set \<times> 'x list \<Rightarrow> nat set \<times> 'x list \<Rightarrow> bool" where
  "walked t ident R xs st st' \<longleftrightarrow>
     fst st \<subseteq> fst st' \<and> fst st' \<subseteq> ident ` R
     \<and> mset (snd st') = mset (snd st) + mset xs
         + (\<Sum>d \<in> entered ident R (fst st) (fst st'). mset (fst (t_children t d)))
     \<and> ident ` sub_dirs t xs \<subseteq> fst st'
     \<and> (\<forall>d \<in> entered ident R (fst st) (fst st'). ident ` sub_dirs t (fst (t_children t d)) \<subseteq> fst st')"

lemma entered_trans:
  assumes "a \<subseteq> b" and "b \<subseteq> c"
  shows "entered ident R a c = entered ident R a b \<union> entered ident R b c"
    and "entered ident R a b \<inter> entered ident R b c = {}"
  using assms by (auto simp: entered_def)

lemma walked_nil: "fst st \<subseteq> ident ` R \<Longrightarrow> walked t ident R [] st st"
  by (simp add: walked_def entered_def sub_dirs_def)

lemma walked_append:
  assumes "walked t ident R xs st st1" and "walked t ident R ys st1 st2" and "finite R"
  shows "walked t ident R (xs @ ys) st st2"
proof -
  have sub: "fst st \<subseteq> fst st1" "fst st1 \<subseteq> fst st2" using assms by (simp_all add: walked_def)
  have fin: "finite (entered ident R a b)" for a b using assms(3) by (simp add: entered_def)
  have sum: "(\<Sum>d \<in> entered ident R (fst st) (fst st2). mset (fst (t_children t d)))
      = (\<Sum>d \<in> entered ident R (fst st) (fst st1). mset (fst (t_children t d)))
      + (\<Sum>d \<in> entered ident R (fst st1) (fst st2). mset (fst (t_children t d)))"
    unfolding entered_trans(1) [OF sub] by (rule sum.union_disjoint [OF fin fin entered_trans(2) [OF sub]])
  have closed: "ident ` sub_dirs t (fst (t_children t d)) \<subseteq> fst st2"
    if "d \<in> entered ident R (fst st) (fst st2)" for d
    using that assms(1,2) sub unfolding walked_def entered_trans(1) [OF sub] by (meson UnE order_trans)
  have "sub_dirs t (xs @ ys) = sub_dirs t xs \<union> sub_dirs t ys" by (auto simp: sub_dirs_def)
  then show ?thesis
    using assms(1,2) sub sum closed unfolding walked_def by auto
qed

lemma walked_entry:
  assumes "fst st \<subseteq> ident ` R" and "t_kind t x = EkDirectory \<Longrightarrow> ident (t_target t x) \<in> fst st"
  shows "walked t ident R [x] st (fst st, snd st @ [x])"
  using assms by (auto simp: walked_def entered_def sub_dirs_def)

lemma walked_directory:
  assumes w: "walked t ident R (fst (t_children t d)) (insert (ident d) seen, calls @ [x]) st'"
    and d: "t_target t x = d" "d \<in> R" "ident d \<notin> seen" and "inj_on ident R" and "finite R"
  shows "walked t ident R [x] (seen, calls) st'"
proof -
  let ?e = "entered ident R (insert (ident d) seen) (fst st')"
  have i: "ident d \<in> fst st'" using w by (auto simp: walked_def)
  then have e: "entered ident R seen (fst st') = insert d ?e"
    using d assms(5) by (auto simp: entered_def dest: inj_onD)
  have "d \<notin> ?e" "finite ?e" using assms(6) by (simp_all add: entered_def)
  then have "(\<Sum>d \<in> insert d ?e. mset (fst (t_children t d))) = mset (fst (t_children t d)) + (\<Sum>d \<in> ?e. mset (fst (t_children t d)))"
    by simp
  moreover have "sub_dirs t [x] \<subseteq> {d}" using d(1) by (auto simp: sub_dirs_def)
  ultimately show ?thesis using w i unfolding walked_def fst_conv snd_conv e by auto
qed

lemma tree_walk_walked:
  assumes "walkable t ident R" and "set (fst r) \<subseteq> (\<Union>d \<in> R. set (fst (t_children t d)))"
    and "fst st \<subseteq> ident ` R" and "depth < card (fst st)" and "snd r = None"
  shows "\<exists>st'. tree_walk t depth r st = (Ok (), st') \<and> walked t ident R (fst r) st st'"
  using assms
proof (induction t depth r st rule: tree_walk.induct)
  case (1 t depth e st)
  then show ?case using walked_nil [of st ident R t] by simp
next
  case (2 t depth x xs e st)
  let ?d = "t_target t x" and ?go = "fst (should_recurse (t_kind t x) (t_id t x) (fst st))"
  have w: "finite R" "card R \<le> MAX_WALK_DEPTH" "inj_on ident R" "\<And>d. d \<in> R \<Longrightarrow> snd (t_children t d) = None"
    using 2(3) by (auto simp: walkable_def)
  have x: "t_kind t x = EkDirectory \<Longrightarrow> ?d \<in> R \<and> t_id t x = Some (ident ?d)"
    using 2(3,4) unfolding walkable_def by fastforce
  have fin: "finite (fst st)" using finite_subset [OF 2(5)] w(1) by blast
  have "\<exists>st1. (if ?go \<and> depth + 1 < MAX_WALK_DEPTH
      then tree_walk t (depth + 1) (t_children t ?d) (snd (should_recurse (t_kind t x) (t_id t x) (fst st)), snd st @ [x])
      else (Ok (), snd (should_recurse (t_kind t x) (t_id t x) (fst st)), snd st @ [x])) = (Ok (), st1)
    \<and> walked t ident R [x] st st1"
  proof (cases ?go)
    case False
    then have "snd (should_recurse (t_kind t x) (t_id t x) (fst st)) = fst st"
      "t_kind t x = EkDirectory \<Longrightarrow> ident ?d \<in> fst st"
      using x by (auto simp: should_recurse_def split: option.splits if_splits)
    then show ?thesis using False walked_entry [OF 2(5)] by auto
  next
    case True
    then have k: "t_kind t x = EkDirectory" "ident ?d \<notin> fst st"
      using x by (auto simp: should_recurse_def split: if_splits)
    let ?st = "(insert (ident ?d) (fst st), snd st @ [x])"
    have st: "(snd (should_recurse (t_kind t x) (t_id t x) (fst st)), snd st @ [x]) = ?st"
      using x k by (simp add: should_recurse_def)
    have sub: "fst ?st \<subseteq> ident ` R" using 2(5) x k by auto
    have card: "Suc (card (fst st)) \<le> card R"
      using card_mono [OF finite_imageI [OF w(1)] sub] card_image_le [OF w(1), of ident] k fin by simp
    then have depth: "depth + 1 < MAX_WALK_DEPTH" using 2(6) w(2) by simp
    have "snd (t_children t ?d) = None" using w(4) x k by simp
    moreover have "set (fst (t_children t ?d)) \<subseteq> (\<Union>d \<in> R. set (fst (t_children t d)))" using x k by auto
    moreover have "depth + 1 < card (fst ?st)" using 2(6) fin k by simp
    ultimately obtain st1 where "tree_walk t (depth + 1) (t_children t ?d) ?st = (Ok (), st1)"
      "walked t ident R (fst (t_children t ?d)) ?st st1"
      using 2(1) True depth 2(3) sub unfolding st by blast
    moreover from this(2) have "walked t ident R [x] (fst st, snd st) st1"
      using walked_directory [OF _ refl _ k(2) w(3,1)] x k by blast
    ultimately show ?thesis using True depth st by auto
  qed
  then obtain st1 where st1: "(if ?go \<and> depth + 1 < MAX_WALK_DEPTH
      then tree_walk t (depth + 1) (t_children t ?d) (snd (should_recurse (t_kind t x) (t_id t x) (fst st)), snd st @ [x])
      else (Ok (), snd (should_recurse (t_kind t x) (t_id t x) (fst st)), snd st @ [x])) = (Ok (), st1)"
    "walked t ident R [x] st st1" by blast
  have s1: "fst st \<subseteq> fst st1" "fst st1 \<subseteq> ident ` R" using st1(2) by (simp_all add: walked_def)
  then have "depth < card (fst st1)"
    using 2(6) card_mono [OF finite_subset [OF s1(2)] s1(1)] w(1) by simp
  then obtain st2 where st2: "tree_walk t depth (xs, e) st1 = (Ok (), st2)" "walked t ident R xs st1 st2"
    using 2(2) [OF st1(1)] 2(3,4,7) s1(2) by auto
  then show ?case
    using st1 walked_append [OF st1(2) st2(2) w(1)] by auto
qed

lemma walked_from_root:
  assumes w: "walked t ident R (fst (t_children t d0)) ({ident d0}, []) st'" and R: "R = {d. reachable t d0 d}"
    and "inj_on ident R" and "finite R"
  shows "mset (snd st') = (\<Sum>d \<in> R. mset (fst (t_children t d)))"
proof -
  let ?e = "entered ident R {ident d0} (fst st')"
  have d0: "d0 \<in> R" using reachable_root R by auto
  have "ident d \<in> fst st'" if "reachable t d0 d" for d
    using that
  proof (induction rule: reachable.induct)
    case reachable_root
    then show ?case using w by (auto simp: walked_def)
  next
    case (reachable_child d x)
    then have "d \<in> R" "t_target t x \<in> sub_dirs t (fst (t_children t d))" using R by (auto simp: sub_dirs_def)
    moreover from this(1) have "d = d0 \<or> d \<in> ?e"
      using reachable_child d0 assms(3) by (auto simp: entered_def dest: inj_onD)
    ultimately show ?case using w unfolding walked_def fst_conv by blast
  qed
  then have "?e = R - {d0}" using d0 assms(3) R by (auto simp: entered_def dest: inj_onD)
  then show ?thesis using w d0 assms(4) by (simp add: walked_def sum.remove)
qed

lemma tree_walk_complete:
  assumes "walkable t ident {d. reachable t d0 d}"
  shows "\<exists>seen calls. tree_walk t 0 (t_children t d0) ({ident d0}, []) = (Ok (), seen, calls)
    \<and> mset calls = (\<Sum>d | reachable t d0 d. mset (fst (t_children t d)))"
proof -
  have d0: "reachable t d0 d0" by (rule reachable_root)
  have "\<exists>st'. tree_walk t 0 (t_children t d0) ({ident d0}, []) = (Ok (), st')
      \<and> walked t ident {d. reachable t d0 d} (fst (t_children t d0)) ({ident d0}, []) st'"
    using d0 assms by (intro tree_walk_walked) (auto simp: walkable_def)
  then show ?thesis using walked_from_root [OF _ refl] assms by (auto simp: walkable_def)
qed

end
