(* ===== verification/Fat_Fs.thy ===== *)
theory Fat_Fs
  imports Fat_Total Fat_Dir Walk
begin

text \<open>
  \<open>fs-fat/src/file.rs\<close>, the path operations of \<open>fs-fat/src/fat.rs\<close> and the traversal interface of
  \<open>fs-fat/src/traverse.rs\<close>: the root directory, files and directories, the volume name, opening a path,
  and directories as the tree walker sees them.
\<close>

section \<open>Files and directories\<close>

record fat_file =
  ff_fat :: fat
  ff_first_cluster :: "nat option"
  ff_is_directory :: bool
  ff_file_size :: nat

definition file_new :: "fat \<Rightarrow> nat option \<Rightarrow> bool \<Rightarrow> nat \<Rightarrow> fat_file" where
  "file_new f first_cluster is_directory file_size =
     \<lparr>ff_fat = f, ff_first_cluster = first_cluster, ff_is_directory = is_directory, ff_file_size = file_size\<rparr>"

definition root_directory :: "fat \<Rightarrow> fat_file" where
  "root_directory f =
     (case f_type f of
        Fat32 \<Rightarrow> file_new f (Some (f_root_cluster f)) True 0
      | _ \<Rightarrow> file_new f None True 0)"

definition root_dir_entries :: "fat \<Rightarrow> (fat_dir_entries, fat_error) outcome" where
  "root_dir_entries f =
     (case f_type f of
        Fat32 \<Rightarrow> map_err Io (new_cluster_chain f (f_root_cluster f))
      | _ \<Rightarrow> and_then (root_dir_size f) (\<lambda>n. map_err Io (new_fixed f (root_dir_offset f) n)))"

definition dir_entries :: "fat_file \<Rightarrow> (fat_dir_entries, fat_error) outcome" where
  "dir_entries ff =
     (if \<not> ff_is_directory ff then Err NotADirectory
      else case ff_first_cluster ff of
        Some cluster \<Rightarrow> map_err Io (new_cluster_chain (ff_fat ff) cluster)
      | None \<Rightarrow> and_then (root_dir_size (ff_fat ff)) (\<lambda>n.
            map_err Io (new_fixed (ff_fat ff) (root_dir_offset (ff_fat ff)) n)))"

definition file_value :: "fat_file \<Rightarrow> (fat_file_value, fat_error) outcome" where
  "file_value ff =
     (if ff_is_directory ff then Err IsADirectory
      else map_err Io (fv_new (ff_fat ff) (ff_first_cluster ff) (ff_file_size ff)))"


section \<open>The volume name\<close>

text \<open>The label's bytes; the source makes a string of them with \<open>String::from_utf8_lossy\<close>.\<close>

definition label_bytes :: "bytes \<Rightarrow> bytes" where
  "label_bytes name = rev (dropWhile (\<lambda>b. b = 0x20 \<or> b = 0) (rev name))"

definition volume_name :: "'s source \<Rightarrow> fat \<Rightarrow> 's \<Rightarrow> (bytes option, fat_error) outcome \<times> 's" where
  "volume_name src f s =
     and_do (root_dir_entries f, s) (\<lambda>entries s.
       apsnd snd (and_do (find_entry src (\<lambda>e. entry_is_volume_id (de_data e)) (entries, s)) (\<lambda>r st.
         (Ok (map_option (\<lambda>e. label_bytes (d_name (de_data e))) r), st))))"


section \<open>Opening a path\<close>

text \<open>\<open>str::split\<close> at the separators: a string without one is its only part.\<close>

fun split_path :: "chars \<Rightarrow> chars list" where
  "split_path [] = [[]]"
| "split_path (c # cs) =
     (if c = 0x2F \<or> c = 0x5C then [] # split_path cs
      else case split_path cs of
        p # ps \<Rightarrow> (c # p) # ps
      | [] \<Rightarrow> [[c]])"

definition open_path_components :: "chars \<Rightarrow> chars list" where
  "open_path_components path = filter (\<lambda>p. p \<noteq> [] \<and> p \<noteq> [0x2E]) (split_path path)"

definition open_parent :: "'s source \<Rightarrow> fat \<Rightarrow> fat_dir_entries \<Rightarrow> 's \<Rightarrow> (fat_file, fat_error) outcome \<times> 's" where
  "open_parent src f entries s =
     apsnd snd (and_do (find_by_name src [0x2E, 0x2E] (entries, s)) (\<lambda>r st.
       (Ok (case r of
              Some e \<Rightarrow>
                let cluster = entry_first_cluster (de_data e) in
                if cluster = 0 then root_directory f else file_new f (Some cluster) True 0
            | None \<Rightarrow> root_directory f), st)))"

definition open_child ::
  "'s source \<Rightarrow> fat \<Rightarrow> fat_dir_entries \<Rightarrow> chars \<Rightarrow> bool \<Rightarrow> 's \<Rightarrow> (fat_file, fat_error) outcome \<times> 's" where
  "open_child src f entries component is_last s =
     apsnd snd (and_do (find_by_name src component (entries, s)) (\<lambda>r st.
       case r of
         Some e \<Rightarrow>
           let cluster = entry_first_cluster (de_data e);
               is_dir = entry_is_directory (de_data e);
               file_size = d_file_size (de_data e)
           in if \<not> is_last \<and> \<not> is_dir then (Err NotADirectory, st)
              else if cluster = 0 \<and> is_dir then (Ok (root_directory f), st)
              else (Ok (file_new f (Some cluster) is_dir file_size), st)
       | None \<Rightarrow> (Err NotFound, st)))"

fun open_components ::
  "'s source \<Rightarrow> fat \<Rightarrow> fat_file \<Rightarrow> chars list \<Rightarrow> 's \<Rightarrow> (fat_file, fat_error) outcome \<times> 's" where
  "open_components src f current_file [] s = (Ok current_file, s)"
| "open_components src f current_file (component # components) s =
     (if \<not> ff_is_directory current_file then (Err NotADirectory, s)
      else
        and_do (dir_entries current_file, s) (\<lambda>entries s.
        and_do (if component = [0x2E, 0x2E] then open_parent src f entries s
                else open_child src f entries component (components = []) s) (\<lambda>opened s.
          open_components src f opened components s)))"

definition fat_open :: "'s source \<Rightarrow> fat \<Rightarrow> chars \<Rightarrow> 's \<Rightarrow> (fat_file, fat_error) outcome \<times> 's" where
  "fat_open src f path s = open_components src f (root_directory f) (open_path_components path) s"


section \<open>The traversal interface\<close>

text \<open>A directory of the traversal is a \<open>FatFile\<close> that is a directory.\<close>

definition directory_new :: "fat_file \<Rightarrow> (fat_file, fat_error) outcome" where
  "directory_new ff = (if \<not> ff_is_directory ff then Err NotADirectory else Ok ff)"

definition directory_id :: "fat_file \<Rightarrow> nat option" where
  "directory_id ff = Some (case ff_first_cluster ff of Some c \<Rightarrow> c | None \<Rightarrow> 0)"

declare and_do_cong [fundef_cong]

function directory_next ::
  "'s source \<Rightarrow> 's dir_iter \<Rightarrow> (fat_dir_entry option, fat_error) outcome \<times> 's dir_iter" where
  "directory_next src st =
     and_do (iter_next src st) (\<lambda>r st.
       case r of
         Some e \<Rightarrow> if is_dot_or_dotdot (de_data e) then directory_next src st else (Ok (Some e), st)
       | None \<Rightarrow> (Ok None, st))"
  by pat_completeness auto
termination
  by (relation "inv_image iter_less snd")
    (auto dest: next_loop_progress simp: iter_next_def split: if_splits)

declare directory_next.simps [simp del]

declare and_do_cong [fundef_cong del]

definition traverse_kind :: "fat_dir_entry \<Rightarrow> entry_kind" where
  "traverse_kind e =
     (if entry_is_directory (de_data e) then EkDirectory
      else if from_bits_truncate (d_attributes (de_data e)) AND VOLUME_ID = VOLUME_ID then EkOther
      else EkFile)"

definition traverse_id :: "fat \<Rightarrow> fat_dir_entry \<Rightarrow> nat option" where
  "traverse_id f e =
     (let cluster = entry_first_cluster (de_data e) in
      if cluster = 0 then Some (f_root_cluster f) else Some cluster)"

definition traverse_open_dir :: "fat \<Rightarrow> fat_dir_entry \<Rightarrow> fat_file option" where
  "traverse_open_dir f e =
     (if \<not> entry_is_directory (de_data e) then None
      else
        let cluster = entry_first_cluster (de_data e) in
        Some (if cluster = 0 then root_directory f else file_new f (Some cluster) True 0))"

text \<open>The operations the walk uses; an entry carries the \<open>Fat\<close> of its iterator.\<close>

definition fat_walk_ops :: "'s source \<Rightarrow> fat \<Rightarrow> (fat_file, fat_dir_entries, fat_dir_entry, 's, fat_error) walk_ops" where
  "fat_walk_ops src f =
     \<lparr>w_dir_id = directory_id, w_entries = (\<lambda>d s. (dir_entries d, s)), w_next = directory_next src,
      w_kind = traverse_kind, w_id = traverse_id f, w_open_dir = (\<lambda>e s. (Ok (traverse_open_dir f e), s))\<rparr>"

end
