(* ===== verification/Fat_Listing.thy ===== *)
theory Fat_Listing
  imports Fat_Fs Fat_File Try_Iterator
begin

text \<open>
  What a FAT directory contains, as a function of the volume's bytes: the blocks of the fixed root
  area or of the cluster chain, up to the first that cannot be had, their 32-byte records, and the
  entries the records stand for. The iterator of \<open>Fat_Dir\<close> satisfies the contract of a fallible
  iterator for these entries on every volume, damaged ones included.
\<close>

section \<open>The entries of a directory\<close>

text \<open>The blocks of a directory, and the error that ends them.\<close>

primrec chain_blocks :: "nat \<Rightarrow> bytes \<Rightarrow> fat_geometry \<Rightarrow> nat option \<Rightarrow> (bytes, fat_error) items" where
  "chain_blocks 0 c g current =
     (case current of None \<Rightarrow> ([], None) | Some cl \<Rightarrow> ([], Some (ClusterChainLoop (g_cluster_count g))))"
| "chain_blocks (Suc n) c g current =
     (case current of
        None \<Rightarrow> ([], None)
      | Some cl \<Rightarrow>
          if \<not> valid_cluster g cl then ([], Some (InvalidCluster cl))
          else if length c < cluster_position g cl + g_cluster_size g then ([], Some (Io UnexpectedEof))
          else case fat_link (g_sector_size g) c g cl of
            Ok next \<Rightarrow> apfst ((#) (cluster_bytes c g cl)) (chain_blocks n c g next)
          | Err e \<Rightarrow> ([], Some e)
          | _ \<Rightarrow> ([], None))"

function fixed_blocks :: "bytes \<Rightarrow> nat \<Rightarrow> nat \<Rightarrow> nat \<Rightarrow> (bytes, fat_error) items" where
  "fixed_blocks c cs start remaining =
     (let n = min remaining cs in
      if n = 0 then ([], None)
      else if length c < start + n then ([], Some (Io UnexpectedEof))
      else apfst ((#) (slice c start n)) (fixed_blocks c cs (start + n) (remaining - n)))"
  by pat_completeness auto
termination by (relation "measure (\<lambda>(c, cs, start, remaining). remaining)") auto

declare fixed_blocks.simps [simp del]

fun source_blocks :: "bytes \<Rightarrow> fat_geometry \<Rightarrow> nat \<Rightarrow> dir_source \<Rightarrow> (bytes, fat_error) items" where
  "source_blocks c g n (Fixed start remaining) = fixed_blocks c (g_cluster_size g) start remaining"
| "source_blocks c g n (ClusterChain current) = chain_blocks n c g current"

function records :: "bytes \<Rightarrow> bytes list" where
  "records bs = (if length bs < 32 then [] else take 32 bs # records (drop 32 bs))"
  by pat_completeness auto
termination by (relation "measure length") auto

declare records.simps [simp del]

text \<open>The entries of a sequence of records, which ends at the end mark.\<close>

fun scan :: "bytes list \<Rightarrow> fat_error option \<Rightarrow> lfn_state \<Rightarrow> (fat_dir_entry, fat_error) items" where
  "scan [] e lfn = ([], e)"
| "scan (r # rs) e lfn =
     (case process_record r lfn of
        (Skipped, lfn) \<Rightarrow> scan rs e lfn
      | (Found x, lfn) \<Rightarrow> apfst ((#) x) (scan rs e lfn)
      | _ \<Rightarrow> ([], None))"

definition lfn_initial :: lfn_state where
  "lfn_initial = \<lparr>lfn_buffer = [], lfn_checksum = 0, lfn_collecting = False\<rparr>"

definition block_entries :: "(bytes, fat_error) items \<Rightarrow> (fat_dir_entry, fat_error) items" where
  "block_entries bs = scan (concat (map records (fst bs))) (snd bs) lfn_initial"

text \<open>The entries of the directory at a cluster, and those of a directory of the volume.\<close>

definition chain_entries :: "bytes \<Rightarrow> fat_geometry \<Rightarrow> nat \<Rightarrow> (fat_dir_entry, fat_error) items" where
  "chain_entries c g cl = block_entries (chain_blocks (g_cluster_count g) c g (Some cl))"

definition file_entries :: "bytes \<Rightarrow> fat_file \<Rightarrow> (fat_dir_entry, fat_error) items" where
  "file_entries c ff =
     (case ff_first_cluster ff of
        Some cl \<Rightarrow> chain_entries c (file_geometry (ff_fat ff)) cl
      | None \<Rightarrow> block_entries (fixed_blocks c (f_cluster_size (ff_fat ff)) (root_dir_offset (ff_fat ff))
          (f_root_dir_sectors (ff_fat ff) * f_sector_size (ff_fat ff))))"

text \<open>What an iterator has still to deliver.\<close>

definition iter_items :: "bytes \<Rightarrow> 's dir_iter \<Rightarrow> (fat_dir_entry, fat_error) items" where
  "iter_items c st =
     (let it = fst st;
          bs = source_blocks c (file_geometry (it_fat it))
                 (f_total_clusters (it_fat it) - it_clusters_traversed it) (it_source it)
      in if it_finished it then ([], None)
         else scan (records (drop (it_buffer_offset it) (it_buffer it)) @ concat (map records (fst bs))) (snd bs)
                (it_lfn it))"

fun source_ok :: "dir_source \<Rightarrow> bool" where
  "source_ok (Fixed start remaining) \<longleftrightarrow> start + remaining < 2 ^ 63"
| "source_ok (ClusterChain current) \<longleftrightarrow> True"

definition iter_sound :: "('s \<Rightarrow> bool) \<Rightarrow> ('s \<Rightarrow> bytes) \<Rightarrow> bytes \<Rightarrow> fat \<Rightarrow> 's dir_iter \<Rightarrow> bool" where
  "iter_sound lawful content c f st \<longleftrightarrow>
     (let (it, s) = st
      in lawful s \<and> content s = c \<and> it_fat it = f \<and> fat_wf f \<and> source_ok (it_source it)
         \<and> cache_inv c (it_fat_cache it) \<and> bc_block_size (it_fat_cache it) = f_sector_size f)"

lemma iter_sound_simps:
  "iter_sound lawful content c f (it, s) \<longleftrightarrow> lawful s \<and> content s = c \<and> it_fat it = f \<and> fat_wf f
     \<and> source_ok (it_source it) \<and> cache_inv c (it_fat_cache it) \<and> bc_block_size (it_fat_cache it) = f_sector_size f"
  by (simp add: iter_sound_def)


text \<open>The loop by which a caller takes all entries: \<open>while let Some(entry) = entries.next(fs)\<close>.\<close>

declare and_do_cong [fundef_cong]

function list_entries ::
  "'s source \<Rightarrow> 's dir_iter \<Rightarrow> (fat_dir_entry list, fat_error) outcome \<times> 's dir_iter" where
  "list_entries src st =
     and_do (iter_next src st) (\<lambda>r st.
       case r of
         None \<Rightarrow> (Ok [], st)
       | Some e \<Rightarrow> and_do (list_entries src st) (\<lambda>es st. (Ok (e # es), st)))"
  by pat_completeness auto
termination
  by (relation "inv_image iter_less snd")
    (auto dest: next_loop_progress simp: iter_next_def split: if_splits)

declare list_entries.simps [simp del]

declare and_do_cong [fundef_cong del]


section \<open>The iterator delivers them\<close>

lemma process_record_not_malformed:
  "length r = 32 \<Longrightarrow> fst (process_record r lfn) \<noteq> Malformed"
  by (simp add: process_record_def read_dir_file_entry_def read_lfn_entry_def)

text \<open>The state after a fill that brought a block, as far as what is left is concerned.\<close>

definition refilled :: "'s dir_iter \<Rightarrow> 's dir_iter \<Rightarrow> bool" where
  "refilled st st' \<longleftrightarrow> it_buffer_offset (fst st') = 0 \<and> it_lfn (fst st') = it_lfn (fst st)
     \<and> it_finished (fst st') = it_finished (fst st)"

definition blocks_left :: "bytes \<Rightarrow> 's dir_iter \<Rightarrow> (bytes, fat_error) items" where
  "blocks_left c st = source_blocks c (file_geometry (it_fat (fst st)))
     (f_total_clusters (it_fat (fst st)) - it_clusters_traversed (fst st)) (it_source (fst st))"

text \<open>
  A fill delivers the next block. At the end of the blocks it leaves the buffer empty, or returns
  the error that ends them.
\<close>

definition fills ::
  "('s \<Rightarrow> bool) \<Rightarrow> ('s \<Rightarrow> bytes) \<Rightarrow> bytes \<Rightarrow> fat \<Rightarrow> 's dir_iter \<Rightarrow> (unit, fat_error) outcome \<times> 's dir_iter \<Rightarrow> bool" where
  "fills lawful content c f st m \<longleftrightarrow>
     iter_sound lawful content c f (snd m)
     \<and> (case blocks_left c st of
          (b # bs, e) \<Rightarrow> fst m = Ok () \<and> it_buffer (fst (snd m)) = b \<and> b \<noteq> [] \<and> refilled st (snd m)
            \<and> blocks_left c (snd m) = (bs, e)
        | ([], None) \<Rightarrow> fst m = Ok () \<and> it_buffer (fst (snd m)) = []
        | ([], Some e) \<Rightarrow> fst m = Err e)"

context byte_reader
begin

lemma fill_fixed_fills:
  assumes st: "iter_sound lawful content c f (it, s)" and it: "it_source it = Fixed start remaining"
    "it_buffer it = []" "it_buffer_offset it = 0"
  shows "fills lawful content c f (it, s) (fill_fixed src start remaining (it, s))"
proof -
  let ?n = "min remaining (f_cluster_size f)"
  have b: "start + remaining < 2 ^ 63" "lawful s" "content s = c" "it_fat it = f" "0 < f_cluster_size f"
    using st it fat_geometry_wf [of f]
    by (auto simp: iter_sound_simps geometry_wf_def file_geometry_def)
  consider "?n = 0" | "?n \<noteq> 0" "start + ?n \<le> length c" | "?n \<noteq> 0" "length c < start + ?n" by linarith
  then show ?thesis
  proof cases
    case 1
    then have "remaining = 0" using b(5) by simp
    then show ?thesis using st it b(4)
      by (simp add: fills_def fill_fixed_def blocks_left_def fixed_blocks.simps [of c _ start])
  next
    case 2
    have "start \<le> length c" "start + ?n < 2 ^ 64" using 2 b(1) by simp_all
    then obtain s' where s': "read_exact_from src s start ?n = (Ok (slice c start ?n), s')" "lawful s'" "content s' = c"
      using read_exact_from_ok [of s start ?n] 2 b by auto
    have bl: "blocks_left c (it, s) = apfst ((#) (slice c start ?n))
        (fixed_blocks c (f_cluster_size f) (start + ?n) (remaining - ?n))"
      using 2 it b(4) fixed_blocks.simps [of c "f_cluster_size f" start remaining]
      by (simp add: blocks_left_def Let_def file_geometry_def)
    have r: "remaining \<noteq> 0" using 2 by auto
    have ne: "slice c start ?n \<noteq> []" using 2(1) length_slice_fits [OF 2(2)] by (metis list.size(3))
    have a: "add64 start ?n = (Ok (start + ?n) :: (nat, fat_error) outcome)"
      using \<open>start + ?n < 2 ^ 64\<close> by (simp add: add64_def)
    show ?thesis
      using 2 st it b s' bl r ne a
      by (simp add: fills_def fill_fixed_def Let_def refilled_def iter_sound_simps blocks_left_def
          file_geometry_def case_prod_beta apfst_def map_prod_def)
  next
    case 3
    then obtain s' where "read_exact_from src s start ?n = (Err UnexpectedEof, s')" "lawful s'" "content s' = c"
      using read_exact_from_eof [of s start ?n] b by auto
    moreover have "blocks_left c (it, s) = ([], Some (Io UnexpectedEof))"
      using 3 it b(4) fixed_blocks.simps [of c "f_cluster_size f" start remaining]
      by (simp add: blocks_left_def Let_def file_geometry_def)
    ultimately show ?thesis using 3 st it b
      by (simp add: fills_def fill_fixed_def Let_def iter_sound_simps)
  qed
qed

lemma fill_chain_fills:
  assumes st: "iter_sound lawful content c f (it, s)" and it: "it_source it = ClusterChain current"
    "it_buffer it = []" "it_buffer_offset it = 0"
  shows "fills lawful content c f (it, s) (fill_chain src current (it, s))"
proof (cases current)
  case None
  then show ?thesis using st it
    by (cases "f_total_clusters (it_fat it) - it_clusters_traversed it")
      (simp_all add: fills_def fill_chain_def blocks_left_def)
next
  case (Some cl)
  let ?g = "file_geometry f" and ?n = "f_total_clusters f - it_clusters_traversed it"
  let ?p = "cluster_position ?g cl" and ?cs = "f_cluster_size f"
  have b: "lawful s" "content s = c" "it_fat it = f" "fat_wf f" "geometry_wf ?g"
    and cache: "cache_inv (content s) (it_fat_cache it)" "bc_block_size (it_fat_cache it) = g_sector_size ?g"
    using st fat_geometry_wf [of f] by (auto simp: iter_sound_simps file_geometry_def)
  have g: "g_cluster_size ?g = ?cs" "g_cluster_count ?g = f_total_clusters f" by (simp_all add: file_geometry_def)
  have cs: "0 < ?cs" using b(5) g by (simp add: geometry_wf_def)
  show ?thesis
  proof (cases "?n = 0 \<or> \<not> valid_cluster ?g cl")
    case True
    then show ?thesis using st it b g Some cluster_offset_invalid [of ?g cl]
      by (cases ?n) (auto simp: fills_def fill_chain_def blocks_left_def cluster_offset_def Let_def)
  next
    case False
    then obtain n where n: "?n = Suc n" "f_total_clusters f - Suc (it_clusters_traversed it) = n"
        "\<not> f_total_clusters f \<le> it_clusters_traversed it" and v: "valid_cluster ?g cl"
      by (cases ?n) auto
    have off: "cluster_offset f cl = Ok ?p" and p: "?p < 2 ^ 63"
      using cluster_offset_valid [OF b(5) v] by (simp_all add: cluster_offset_def cluster_position_def)
    show ?thesis
    proof (cases "?p + ?cs \<le> length c")
      case False
      then obtain s' where "read_exact_from src s ?p ?cs = (Err UnexpectedEof, s')" "lawful s'" "content s' = c"
        using read_exact_from_eof [of s ?p ?cs] b p cs by auto
      then show ?thesis using False st it b g Some n off v
        by (simp add: fills_def fill_chain_def Let_def blocks_left_def iter_sound_simps)
    next
      case True
      then obtain s1 where s1: "read_exact_from src s ?p ?cs = (Ok (slice c ?p ?cs), s1)" "lawful s1" "content s1 = c"
        using read_exact_from_ok [of s ?p ?cs] b p by auto
      have cache1: "cache_inv (content s1) (it_fat_cache it)" using cache(1) s1(3) b(2) by simp
      from next_cluster_cached_link [OF b(5) this s1(2), of cl] obtain bc' s2 where
        s2: "next_cluster_cached src ?g cl (it_fat_cache it, s1) = (fat_link (g_sector_size ?g) c ?g cl, bc', s2)"
          "cache_inv c bc'" "bc_block_size bc' = g_sector_size ?g" "lawful s2" "content s2 = c"
        unfolding cache(2) s1(3) by blast
      have ret: "returns (fat_link (g_sector_size ?g) c ?g cl)"
        by (simp add: fat_link_def entry_link_def Let_def)
      have ne: "slice c ?p ?cs \<noteq> []" using cs length_slice_fits [OF True] by (metis list.size(3) less_irrefl)
      show ?thesis
        using True st it b g Some n off v s1 s2 ret ne
        by (cases "fat_link (g_sector_size ?g) c ?g cl")
          (simp_all add: fills_def fill_chain_def Let_def blocks_left_def iter_sound_simps refilled_def
            cluster_bytes_def case_prod_beta apfst_def map_prod_def file_geometry_def)
    qed
  qed
qed

lemma fill_buffer_fills:
  assumes "iter_sound lawful content c f (it, s)"
  shows "fills lawful content c f (it, s) (fill_buffer src (it, s))"
proof -
  let ?it = "it\<lparr>it_buffer_offset := 0, it_buffer := []\<rparr>"
  have "iter_sound lawful content c f (?it, s)" using assms by (simp add: iter_sound_simps)
  then have "fills lawful content c f (?it, s) (fill_buffer src (it, s))"
    using fill_fixed_fills [of c f ?it s] fill_chain_fills [of c f ?it s]
    by (simp add: fill_buffer_def Let_def split: dir_source.split)
  moreover have "refilled (?it, s) = refilled (it, s)" "blocks_left c (?it, s) = blocks_left c (it, s)"
    by (simp_all add: fun_eq_iff refilled_def blocks_left_def)
  ultimately show ?thesis by (simp only: fills_def)
qed

lemma next_step_record:
  assumes "iter_sound lawful content c f (it, s)" and "\<not> it_finished it"
    and full: "it_buffer_offset it + 32 \<le> length (it_buffer it)"
  shows "\<exists>r st'. next_step src (it, s) = (r, st') \<and> iter_sound lawful content c f st'
    \<and> (r = Ok None \<and> \<not> it_finished (fst st') \<and> iter_items c st' = iter_items c (it, s)
       \<or> (\<exists>x. r = Ok (Some x) \<and> next_item (iter_items c (it, s)) = Ok x
            \<and> iter_items c st' = later_items (iter_items c (it, s))))"
proof -
  let ?r = "slice (it_buffer it) (it_buffer_offset it) 32"
  obtain res lfn where p: "process_record ?r (it_lfn it) = (res, lfn)" by (cases "process_record ?r (it_lfn it)")
  have rec: "records (drop (it_buffer_offset it) (it_buffer it))
      = ?r # records (drop (it_buffer_offset it + 32) (it_buffer it))"
    using full by (subst records.simps) (simp add: slice_def ac_simps)
  have "length ?r = 32" using full by (rule length_slice_fits)
  then have nm: "res \<noteq> Malformed" using process_record_not_malformed [of ?r "it_lfn it"] p by simp
  show ?thesis
    using assms(1,2) full p nm rec
    by (cases res) (simp_all add: next_step_def Let_def iter_items_def iter_sound_simps DIR_ENTRY_SIZE_def
        apfst_def map_prod_def case_prod_beta)
qed

lemma next_step_fill:
  assumes st: "iter_sound lawful content c f (it, s)" and "\<not> it_finished it"
    and short: "length (it_buffer it) < it_buffer_offset it + 32"
  shows "\<exists>r st'. next_step src (it, s) = (r, st') \<and> iter_sound lawful content c f st'
    \<and> (r = Ok None \<and> \<not> it_finished (fst st') \<and> iter_items c st' = iter_items c (it, s)
       \<or> (\<exists>x. r = Ok (Some x) \<and> next_item (iter_items c (it, s)) = Ok x
            \<and> iter_items c st' = later_items (iter_items c (it, s)))
       \<or> (\<exists>e. r = Err e \<and> next_item (iter_items c (it, s)) = Err e
            \<and> iter_items c st' = later_items (iter_items c (it, s))))"
proof -
  obtain r it' s' where f: "fill_buffer src (it, s) = (r, it', s')" by (metis prod_cases3)
  from fill_buffer_fills [OF st] have fl: "fills lawful content c f (it, s) (r, it', s')" by (simp only: f)
  have none: "records (drop (it_buffer_offset it) (it_buffer it)) = []"
    using short by (subst records.simps) simp
  have items: "iter_items c (it, s)
      = scan (concat (map records (fst (blocks_left c (it, s))))) (snd (blocks_left c (it, s))) (it_lfn it)"
    using assms(2) none by (simp add: iter_items_def blocks_left_def Let_def)
  obtain bs e where bl: "blocks_left c (it, s) = (bs, e)" by (cases "blocks_left c (it, s)")
  show ?thesis
  proof (cases bs)
    case Nil
    then show ?thesis using fl items bl f short
      by (cases e) (auto simp: fills_def next_step_def DIR_ENTRY_SIZE_def iter_items_def iter_sound_simps)
  next
    case (Cons b bs')
    have "iter_items c (it', s') = iter_items c (it, s)"
      using fl items bl Cons assms(2) by (auto simp: fills_def refilled_def iter_items_def blocks_left_def)
    then show ?thesis using fl bl f short Cons assms(2)
      by (auto simp: fills_def next_step_def DIR_ENTRY_SIZE_def refilled_def)
  qed
qed

lemma next_loop_items:
  assumes "iter_sound lawful content c f st" and "\<not> it_finished (fst st)"
  shows "\<exists>st'. next_loop src st = (next_item (iter_items c st), st') \<and> iter_sound lawful content c f st'
    \<and> iter_items c st' = later_items (iter_items c st)"
  using wf_measures [of "[fills_left, buffer_left]"] assms
proof (induction st rule: wf_induct_rule)
  case (less st)
  obtain it s where st: "st = (it, s)" by (cases st)
  obtain r st' where r: "next_step src (it, s) = (r, st')" "iter_sound lawful content c f st'"
    "r = Ok None \<and> \<not> it_finished (fst st') \<and> iter_items c st' = iter_items c (it, s)
       \<or> (\<exists>x. r = Ok (Some x) \<and> next_item (iter_items c (it, s)) = Ok x
            \<and> iter_items c st' = later_items (iter_items c (it, s)))
       \<or> (\<exists>e. r = Err e \<and> next_item (iter_items c (it, s)) = Err e
            \<and> iter_items c st' = later_items (iter_items c (it, s)))"
    using next_step_record [of c f it s] next_step_fill [of c f it s] less.prems st by fastforce
  show ?case
  proof (cases "r = Ok None")
    case True
    then have "(st', st) \<in> iter_less" using r(1) next_step_progress [of src st "None" st'] st by simp
    moreover have "\<not> it_finished (fst st')" "iter_items c st' = iter_items c st" using r(3) True st by auto
    ultimately show ?thesis using less.IH [of st'] r(1,2) True st by (subst next_loop.simps) simp
  next
    case False
    then show ?thesis using r st by (cases st'; subst next_loop.simps) auto
  qed
qed

theorem fat_dir_iterator:
  "try_iterator (iter_next src) (iter_sound lawful content c f) (iter_items c)"
proof
  fix st assume "iter_sound lawful content c f st"
  then show "\<exists>st'. iter_next src st = (next_item (iter_items c st), st') \<and> iter_sound lawful content c f st'
      \<and> iter_items c st' = later_items (iter_items c st)"
    using next_loop_items [of c f st] by (cases st; cases "it_finished (fst st)")
      (auto simp: iter_next_def iter_items_def [of c "(_, _)"])
qed

lemma new_entries_sound:
  assumes "fat_wf f" and "lawful s" and "source_ok source"
  shows "\<exists>it. new_entries f source = Ok it \<and> iter_sound lawful content (content s) f (it, s)
    \<and> iter_items (content s) (it, s)
      = block_entries (source_blocks (content s) (file_geometry f) (f_total_clusters f) source)"
proof -
  have "0 < f_sector_size f" using assms(1) by (auto simp: fat_wf_def)
  from cache_new_inv [OF this, of "content s"] obtain bc where
    "cache_new (f_sector_size f) = Ok bc" "cache_inv (content s) bc" "bc_block_size bc = f_sector_size f" by blast
  then show ?thesis using assms
    by (simp add: new_entries_def iter_sound_simps iter_items_def block_entries_def lfn_initial_def
        records.simps [of "[]"] Let_def)
qed

lemma dir_entries_sound:
  assumes "fat_wf (ff_fat ff)" and "lawful s" and "ff_is_directory ff"
  shows "\<exists>it. dir_entries ff = Ok it \<and> iter_sound lawful content (content s) (ff_fat ff) (it, s)
    \<and> iter_items (content s) (it, s) = file_entries (content s) ff"
proof (cases "ff_first_cluster ff")
  case (Some cl)
  then show ?thesis
    using assms new_entries_sound [of "ff_fat ff" s "ClusterChain (Some cl)"]
    by (auto simp: dir_entries_def new_cluster_chain_def file_entries_def chain_entries_def file_geometry_def)
next
  case None
  let ?f = "ff_fat ff"
  let ?n = "f_root_dir_sectors ?f * f_sector_size ?f"
  have "?n \<le> 4096 * 4096" "root_dir_offset ?f \<le> 2 ^ 32 * 4096"
    using assms(1) unfolding root_dir_offset_def by (intro mult_le_mono; auto simp: fat_wf_def)+
  then have n: "root_dir_size ?f = Ok ?n" and "root_dir_offset ?f + ?n < 2 ^ 63"
    by (simp_all add: root_dir_size_def)
  then have "source_ok (Fixed (root_dir_offset ?f) ?n)" by simp
  from new_entries_sound [OF assms(1,2) this] n assms(3) None show ?thesis
    by (auto simp: dir_entries_def new_fixed_def file_entries_def file_geometry_def)
qed

end


section \<open>Opening a path\<close>

text \<open>The path operations, as functions of the volume's bytes.\<close>

definition lookup_entry :: "bytes \<Rightarrow> fat_file \<Rightarrow> chars \<Rightarrow> (fat_dir_entry option, fat_error) outcome" where
  "lookup_entry c ff name = next_item (skip_to (\<lambda>e. name_matches e name) (file_entries c ff))"

definition entry_target :: "fat \<Rightarrow> fat_dir_entry \<Rightarrow> fat_file" where
  "entry_target f e =
     (let d = de_data e in
      if entry_first_cluster d = 0 \<and> entry_is_directory d then root_directory f
      else file_new f (Some (entry_first_cluster d)) (entry_is_directory d) (d_file_size d))"

definition parent_target :: "fat \<Rightarrow> fat_dir_entry option \<Rightarrow> fat_file" where
  "parent_target f r =
     (case r of
        Some e \<Rightarrow> if entry_first_cluster (de_data e) = 0 then root_directory f
                   else file_new f (Some (entry_first_cluster (de_data e))) True 0
      | None \<Rightarrow> root_directory f)"

fun walk_path :: "bytes \<Rightarrow> fat \<Rightarrow> fat_file \<Rightarrow> chars list \<Rightarrow> (fat_file, fat_error) outcome" where
  "walk_path c f ff [] = Ok ff"
| "walk_path c f ff (name # names) =
     (if \<not> ff_is_directory ff then Err NotADirectory
      else
        and_then (lookup_entry c ff name) (\<lambda>r.
        and_then (if name = [0x2E, 0x2E] then Ok (parent_target f r)
                  else case r of
                    None \<Rightarrow> Err NotFound
                  | Some e \<Rightarrow> if names \<noteq> [] \<and> \<not> entry_is_directory (de_data e) then Err NotADirectory
                              else Ok (entry_target f e)) (\<lambda>ff. walk_path c f ff names)))"

lemma target_fat [simp]:
  "ff_fat (root_directory f) = f" "ff_fat (entry_target f e) = f" "ff_fat (parent_target f r) = f"
  by (simp_all add: root_directory_def entry_target_def parent_target_def file_new_def Let_def
      split: fat_type.split option.split)

lemma root_dir_entries_eq: "root_dir_entries f = dir_entries (root_directory f)"
  by (simp add: root_dir_entries_def dir_entries_def root_directory_def file_new_def split: fat_type.split)

context byte_reader
begin

lemma list_entries_items:
  assumes "iter_sound lawful content c f (it, s)"
  shows "\<exists>it' s'. list_entries src (it, s) = (all_items (iter_items c (it, s)), it', s') \<and> lawful s' \<and> content s' = c"
  using try_iterator.collect_items [OF fat_dir_iterator list_entries.simps assms] by (auto simp: iter_sound_simps)

lemma find_entry_items:
  assumes "iter_sound lawful content c f (it, s)"
  shows "\<exists>it' s'. find_entry src p (it, s) = (next_item (skip_to p (iter_items c (it, s))), it', s')
    \<and> lawful s' \<and> content s' = c"
  using try_iterator.search_items [OF fat_dir_iterator find_entry.simps assms, of p]
  by (auto simp: iter_sound_simps)

lemma directory_next_iterator:
  "try_iterator (directory_next src) (iter_sound lawful content c f)
     (\<lambda>st. keep_items (\<lambda>e. \<not> is_dot_or_dotdot (de_data e)) (iter_items c st))"
  by (rule try_iterator.keep_items_iterator [OF fat_dir_iterator], subst directory_next.simps)
    (auto intro!: arg_cong2 [where f = and_do] simp: fun_eq_iff split: option.split)

text \<open>A search in a directory, from its start.\<close>

lemma find_in_directory:
  assumes "fat_wf (ff_fat ff)" and "lawful s" and "ff_is_directory ff"
  obtains it it' s' where "dir_entries ff = Ok it"
    and "find_entry src p (it, s) = (next_item (skip_to p (file_entries (content s) ff)), it', s')"
    and "lawful s'" and "content s' = content s"
  using dir_entries_sound [OF assms] find_entry_items by metis

lemma volume_name_spec:
  assumes "fat_wf f" and "lawful s"
  shows "\<exists>s'. volume_name src f s
      = (and_then (next_item (skip_to (\<lambda>e. entry_is_volume_id (de_data e)) (file_entries (content s) (root_directory f))))
           (\<lambda>r. Ok (map_option (\<lambda>e. label_bytes (d_name (de_data e))) r)), s')
    \<and> lawful s' \<and> content s' = content s"
proof -
  have "ff_is_directory (root_directory f)"
    by (simp add: root_directory_def file_new_def split: fat_type.split)
  from find_in_directory [of "root_directory f" s "\<lambda>e. entry_is_volume_id (de_data e)", unfolded target_fat, OF assms this]
  obtain it it' s' where it: "dir_entries (root_directory f) = Ok it"
    "find_entry src (\<lambda>e. entry_is_volume_id (de_data e)) (it, s)
      = (next_item (skip_to (\<lambda>e. entry_is_volume_id (de_data e)) (file_entries (content s) (root_directory f))), it', s')"
    "lawful s'" "content s' = content s" .
  show ?thesis
    by (cases "next_item (skip_to (\<lambda>e. entry_is_volume_id (de_data e)) (file_entries (content s) (root_directory f)))")
      (simp_all add: volume_name_def root_dir_entries_eq it)
qed

lemma open_components_spec:
  assumes "fat_wf f" and "lawful s" and "ff_fat ff = f"
  shows "\<exists>s'. open_components src f ff names s = (walk_path (content s) f ff names, s')
    \<and> lawful s' \<and> content s' = content s"
  using assms(2,3)
proof (induction names arbitrary: ff s)
  case (Cons name names)
  show ?case
  proof (cases "ff_is_directory ff")
    case True
    from find_in_directory [of ff s "\<lambda>e. name_matches e name"] True Cons.prems assms(1)
    obtain it it' s' where it: "dir_entries ff = Ok it"
      "find_entry src (\<lambda>e. name_matches e name) (it, s) = (lookup_entry (content s) ff name, it', s')"
      and s': "lawful s'" "content s' = content s"
      by (auto simp: lookup_entry_def)
    have IH: "\<exists>s''. open_components src f ff' names s' = (walk_path (content s) f ff' names, s'')
        \<and> lawful s'' \<and> content s'' = content s" if "ff_fat ff' = f" for ff'
      using Cons.IH [OF s'(1) that] s'(2) by simp
    show ?thesis
    proof (cases "lookup_entry (content s) ff name")
      case (Ok r)
      have ok: "find_by_name src name (it, s) = (Ok r, it', s')" using it(2) Ok by (simp add: find_by_name_def)
      show ?thesis
      proof (cases "name = [0x2E, 0x2E]")
        case T: True
        then have "open_parent src f it s = (Ok (parent_target f r), s')"
          using ok by (simp add: open_parent_def parent_target_def Let_def split: option.split)
        then show ?thesis using True it(1) Ok T IH [of "parent_target f r"] by simp
      next
        case F: False
        then have "open_child src f it name (names = []) s
            = (case r of None \<Rightarrow> Err NotFound
               | Some e \<Rightarrow> if names \<noteq> [] \<and> \<not> entry_is_directory (de_data e) then Err NotADirectory
                           else Ok (entry_target f e), s')"
          using ok by (simp add: open_child_def entry_target_def Let_def split: option.split)
        then show ?thesis using True it(1) Ok F IH s' by (auto split: option.split)
      qed
    next
      case (Err e)
      then show ?thesis using True it s' by (auto simp: open_parent_def open_child_def find_by_name_def)
    next
      case Panic
      then show ?thesis using True it s' by (auto simp: open_parent_def open_child_def find_by_name_def)
    next
      case Diverge
      then show ?thesis using True it s' by (auto simp: open_parent_def open_child_def find_by_name_def)
    qed
  qed (use Cons.prems in simp)
qed simp

lemma fat_open_spec:
  assumes "fat_wf f" and "lawful s"
  shows "\<exists>s'. fat_open src f path s
      = (walk_path (content s) f (root_directory f) (open_path_components path), s')
    \<and> lawful s' \<and> content s' = content s"
  using open_components_spec [OF assms, of "root_directory f"] by (simp add: fat_open_def)

end

text \<open>A listing and a path never diverge or panic.\<close>

lemma returns_next_item [simp]: "returns (next_item r)"
  by (cases r rule: next_item.cases) simp_all

lemma returns_walk_path: "returns (walk_path c f ff names)"
  by (induction c f ff names rule: walk_path.induct)
    (auto simp: lookup_entry_def intro!: returns_and_then split: option.split)

interpretation fat_dir_cursor: try_iterator "iter_next cursor_source" "iter_sound cursor_inv cur_bytes c f" "iter_items c"
  for c f
  by (rule cursor.fat_dir_iterator)

end
