(* ===== verification/Fat_Walk.thy ===== *)
theory Fat_Walk
  imports Fat_Listing
begin

text \<open>
  The walk of \<open>Walk\<close> over a FAT volume: the driver's directories meet the contract of \<open>dir_tree\<close> for
  the tree that the volume's bytes describe, on every volume.
\<close>

definition dir_target :: "fat \<Rightarrow> fat_dir_entry \<Rightarrow> fat_file" where
  "dir_target f e =
     (let cluster = entry_first_cluster (de_data e) in
      if cluster = 0 then root_directory f else file_new f (Some cluster) True 0)"

definition visible_entry :: "fat_dir_entry \<Rightarrow> bool" where
  "visible_entry e \<longleftrightarrow> \<not> is_dot_or_dotdot (de_data e)"

definition fat_tree :: "bytes \<Rightarrow> fat \<Rightarrow> (fat_file, fat_dir_entry, fat_error) tree" where
  "fat_tree c f =
     \<lparr>t_kind = traverse_kind, t_id = traverse_id f, t_target = dir_target f,
      t_children = (\<lambda>d. keep_items visible_entry (file_entries c d))\<rparr>"

definition dir_ident :: "fat_file \<Rightarrow> nat" where
  "dir_ident d = (case ff_first_cluster d of Some cl \<Rightarrow> cl | None \<Rightarrow> 0)"

lemma fat_tree_simps [simp]:
  "t_kind (fat_tree c f) = traverse_kind" "t_id (fat_tree c f) = traverse_id f" "t_target (fat_tree c f) = dir_target f"
  "t_children (fat_tree c f) d = keep_items visible_entry (file_entries c d)"
  by (simp_all add: fat_tree_def)

lemma root_directory_is_directory [simp]: "ff_is_directory (root_directory f)"
  by (simp add: root_directory_def file_new_def split: fat_type.split)

lemma dir_target_simps [simp]: "ff_fat (dir_target f e) = f" "ff_is_directory (dir_target f e)"
  by (simp_all add: dir_target_def Let_def file_new_def)

lemma traverse_directory: "traverse_kind e = EkDirectory \<longleftrightarrow> entry_is_directory (de_data e)"
  by (simp add: traverse_kind_def)

context byte_reader
begin

theorem fat_dir_tree:
  "dir_tree (fat_walk_ops src f) (\<lambda>s. lawful s \<and> content s = c \<and> fat_wf f) (iter_sound lawful content c f)
    (\<lambda>st. keep_items visible_entry (iter_items c st)) (\<lambda>d. ff_fat d = f \<and> ff_is_directory d) (fat_tree c f)"
proof
  fix s and d :: fat_file assume "lawful s \<and> content s = c \<and> fat_wf f" and "ff_fat d = f \<and> ff_is_directory d"
  then show "\<exists>it s'. w_entries (fat_walk_ops src f) d s = (Ok it, s') \<and> iter_sound lawful content c f (it, s')
      \<and> keep_items visible_entry (iter_items c (it, s')) = t_children (fat_tree c f) d"
    using dir_entries_sound [of d s] by (auto simp: fat_walk_ops_def)
next
  fix st assume st: "iter_sound lawful content c f st"
  show "\<exists>st'. w_next (fat_walk_ops src f) st = (next_item (keep_items visible_entry (iter_items c st)), st')
      \<and> iter_sound lawful content c f st'
      \<and> keep_items visible_entry (iter_items c st') = later_items (keep_items visible_entry (iter_items c st))"
    using try_iterator.try_next_items [OF directory_next_iterator st]
    by (simp add: fat_walk_ops_def visible_entry_def [abs_def])
next
  fix it s assume "iter_sound lawful content c f (it, s)"
  then show "lawful s \<and> content s = c \<and> fat_wf f" by (simp add: iter_sound_simps)
next
  fix it s s' assume "iter_sound lawful content c f (it, s)" and "lawful s' \<and> content s' = c \<and> fat_wf f"
  then show "iter_sound lawful content c f (it, s')
      \<and> keep_items visible_entry (iter_items c (it, s')) = keep_items visible_entry (iter_items c (it, s))"
    by (simp add: iter_sound_simps iter_items_def)
next
  fix s x assume "lawful s \<and> content s = c \<and> fat_wf f" and "t_kind (fat_tree c f) x = EkDirectory"
  then show "\<exists>s'. w_open_dir (fat_walk_ops src f) x s = (Ok (Some (t_target (fat_tree c f) x)), s')
      \<and> (lawful s' \<and> content s' = c \<and> fat_wf f) \<and> ff_fat (t_target (fat_tree c f) x) = f \<and> ff_is_directory (t_target (fat_tree c f) x)"
    by (simp add: fat_walk_ops_def traverse_directory traverse_open_dir_def dir_target_def Let_def file_new_def)
qed (simp_all add: fat_walk_ops_def)

lemma fat_walk_returns:
  assumes "fat_wf f" and "lawful s" and "ff_fat d = f" and "ff_is_directory d"
  shows "\<exists>res seen' calls s'. walk_dir (fat_walk_ops src f) d seen s = Some (res, seen', calls, s')
    \<and> returns res \<and> lawful s' \<and> content s' = content s"
proof -
  let ?t = "fat_tree (content s) f"
  let ?w = "tree_walk ?t 0 (t_children ?t d) (case w_dir_id (fat_walk_ops src f) d of Some i \<Rightarrow> insert i seen | None \<Rightarrow> seen, [])"
  obtain res seen' calls where w: "?w = (res, seen', calls)" by (metis prod_cases3)
  moreover have "returns res" using returns_tree_walk [of ?t 0] w by (metis fst_conv)
  ultimately show ?thesis
    using dir_tree.walk_dir_tree [OF fat_dir_tree [of f "content s"], of s d seen] assms by auto
qed

end


section \<open>Identifiers\<close>

text \<open>The directories that can be reached carry the identifiers the entries give them.\<close>

definition fat_ids_ok :: "fat \<Rightarrow> bool" where
  "fat_ids_ok f \<longleftrightarrow> f_type f = Fat32 \<or> f_root_cluster f = 0"

lemma reachable_fat:
  assumes "reachable (fat_tree c f) (root_directory f) d"
  shows "d = root_directory f \<or> (\<exists>cl. cl \<noteq> 0 \<and> d = file_new f (Some cl) True 0)"
  using assms
  by (induction rule: reachable.induct) (auto simp: dir_target_def Let_def)

lemma dir_ident_inj: "inj_on dir_ident {d. reachable (fat_tree c f) (root_directory f) d}"
proof (rule inj_onI)
  fix d d' assume "d \<in> {d. reachable (fat_tree c f) (root_directory f) d}" "d' \<in> {d. reachable (fat_tree c f) (root_directory f) d}"
    and "dir_ident d = dir_ident d'"
  then show "d = d'"
    using reachable_fat [of c f d] reachable_fat [of c f d']
    by (auto simp: dir_ident_def root_directory_def file_new_def split: fat_type.splits)
qed

lemma traverse_id_target: "fat_ids_ok f \<Longrightarrow> traverse_id f e = Some (dir_ident (dir_target f e))"
  by (auto simp: traverse_id_def dir_target_def dir_ident_def fat_ids_ok_def Let_def root_directory_def file_new_def
      split: fat_type.split)

lemma fat_walkable:
  assumes "fat_ids_ok f" and "finite {d. reachable (fat_tree c f) (root_directory f) d}"
    and "card {d. reachable (fat_tree c f) (root_directory f) d} \<le> MAX_WALK_DEPTH"
    and "\<forall>d. reachable (fat_tree c f) (root_directory f) d \<longrightarrow> snd (file_entries c d) = None"
  shows "walkable (fat_tree c f) dir_ident {d. reachable (fat_tree c f) (root_directory f) d}"
  using assms dir_ident_inj [of c f] reachable_child [of "fat_tree c f" "root_directory f"]
  by (auto simp: walkable_def traverse_id_target keep_items_def)

context byte_reader
begin

lemma fat_walk_visits:
  assumes "fat_wf f" and "lawful s" and "walkable (fat_tree (content s) f) dir_ident {d. reachable (fat_tree (content s) f) (root_directory f) d}"
  shows "\<exists>seen calls s'. walk_dir (fat_walk_ops src f) (root_directory f) {} s = Some (Ok (), seen, calls, s')
    \<and> mset calls = (\<Sum>d | reachable (fat_tree (content s) f) (root_directory f) d. filter_mset visible_entry (mset (fst (file_entries (content s) d))))
    \<and> lawful s' \<and> content s' = content s"
proof -
  have "w_dir_id (fat_walk_ops src f) (root_directory f) = Some (dir_ident (root_directory f))"
    by (simp add: fat_walk_ops_def directory_id_def dir_ident_def)
  moreover obtain seen calls where
    "tree_walk (fat_tree (content s) f) 0 (t_children (fat_tree (content s) f) (root_directory f)) ({dir_ident (root_directory f)}, []) = (Ok (), seen, calls)"
    "mset calls = (\<Sum>d | reachable (fat_tree (content s) f) (root_directory f) d. mset (fst (t_children (fat_tree (content s) f) d)))"
    using tree_walk_complete [OF assms(3)] by blast
  ultimately show ?thesis
    using dir_tree.walk_dir_tree [OF fat_dir_tree [of f "content s"], of s "root_directory f" "{}"] assms
    by (auto simp: keep_items_def mset_filter)
qed

end

interpretation fat_tree_cursor: dir_tree "fat_walk_ops cursor_source f" "\<lambda>s. cursor_inv s \<and> cur_bytes s = c \<and> fat_wf f"
  "iter_sound cursor_inv cur_bytes c f" "\<lambda>st. keep_items visible_entry (iter_items c st)"
  "\<lambda>d. ff_fat d = f \<and> ff_is_directory d" "fat_tree c f"
  for c f
  by (rule cursor.fat_dir_tree)

end
