(* ===== verification/Fat_Lfn.thy ===== *)
theory Fat_Lfn
  imports Fat_Listing
begin

text \<open>
  Long names on disk. The VFAT layout of a long name is written out as a reference encoder: UTF-16
  units in parts of 13, one record per part, the last part first. Scanning such records before
  their short entry gives the name back.
\<close>

section \<open>The encoder\<close>

definition unit_bytes :: "u16 list \<Rightarrow> bytes" where
  "unit_bytes us = concat (map u16_to_le_bytes us)"

text \<open>A part shorter than 13 units ends with a null unit and is filled up with \<open>0xFFFF\<close>.\<close>

definition pad_part :: "u16 list \<Rightarrow> u16 list" where
  "pad_part us = take 13 (us @ 0 # replicate 12 0xFFFF)"

definition lfn_record :: "u8 \<Rightarrow> u8 \<Rightarrow> u16 list \<Rightarrow> bytes" where
  "lfn_record seq ck units =
     seq # unit_bytes (take 5 units) @ [0x0F, 0, ck] @ unit_bytes (take 6 (drop 5 units)) @ [0, 0]
     @ unit_bytes (drop 11 units)"

definition name_part :: "u16 list \<Rightarrow> nat \<Rightarrow> u16 list" where
  "name_part us i = take 13 (drop (13 * i) us)"

definition part_count :: "u16 list \<Rightarrow> nat" where
  "part_count us = (length us + 12) div 13"

definition part_sequence :: "u16 list \<Rightarrow> nat \<Rightarrow> u8" where
  "part_sequence us i = word_of_nat (i + 1) OR (if i + 1 = part_count us then 0x40 else 0)"

definition lfn_records :: "u16 list \<Rightarrow> u8 \<Rightarrow> bytes list" where
  "lfn_records us ck =
     map (\<lambda>i. lfn_record (part_sequence us i) ck (pad_part (name_part us i))) (rev [0 ..< part_count us])"

text \<open>A name that can be stored: not empty, at most 255 units, without the two padding units.\<close>

definition lfn_ok :: "u16 list \<Rightarrow> bool" where
  "lfn_ok us \<longleftrightarrow> us \<noteq> [] \<and> length us \<le> 255 \<and> 0 \<notin> set us \<and> 0xFFFF \<notin> set us"

definition encode_utf16_char :: "nat \<Rightarrow> u16 list" where
  "encode_utf16_char c =
     (if c < 0x10000 then [word_of_nat c]
      else [word_of_nat (0xD800 + (c - 0x10000) div 0x400), word_of_nat (0xDC00 + (c - 0x10000) mod 0x400)])"

definition encode_utf16 :: "chars \<Rightarrow> u16 list" where
  "encode_utf16 s = concat (map encode_utf16_char s)"

definition scalar_value :: "nat \<Rightarrow> bool" where
  "scalar_value c \<longleftrightarrow> c < 0xD800 \<or> 0xE000 \<le> c \<and> c < 0x110000"


section \<open>One record\<close>

lemma chunks2_unit_bytes: "chunks2 (unit_bytes us) = us"
proof (induction us)
  case (Cons u us)
  have "length (u16_to_le_bytes u) = Suc (Suc 0)" by simp
  then obtain a b where ab: "u16_to_le_bytes u = [a, b]" unfolding length_Suc_conv by auto
  moreover have "from_le_bytes [a, b] = u" using u16_le_roundtrip [of u] ab by simp
  ultimately show ?case using Cons by (simp add: unit_bytes_def)
qed (simp add: unit_bytes_def)

lemma length_unit_bytes: "length (unit_bytes us) = 2 * length us"
  by (induction us) (simp_all add: unit_bytes_def)

lemma length_pad_part: "length (pad_part us) = 13"
  by (simp add: pad_part_def)

lemma takeWhile_pad_part:
  assumes "length us \<le> 13" and "0 \<notin> set us" and "0xFFFF \<notin> set us"
  shows "takeWhile (\<lambda>c. \<not> (c = 0 \<or> c = 0xFFFF)) (pad_part us) = us"
proof -
  have "takeWhile (\<lambda>c. \<not> (c = 0 \<or> c = 0xFFFF)) (us @ rest) = us @ takeWhile (\<lambda>c. \<not> (c = 0 \<or> c = 0xFFFF)) rest" for rest
    using assms(2,3) by (intro takeWhile_append2) auto
  moreover have "pad_part us = us @ take (13 - length us) (0 # replicate 12 0xFFFF)"
    using assms(1) by (simp add: pad_part_def)
  ultimately show ?thesis using assms(2,3)
    by (cases "13 - length us") (auto simp: takeWhile_eq_all_conv)
qed

lemma length_lfn_record: "length units = 13 \<Longrightarrow> length (lfn_record seq ck units) = 32"
  by (simp add: lfn_record_def length_unit_bytes)

lemma read_lfn_record:
  assumes "length units = 13"
  shows "\<exists>l. read_lfn_entry (lfn_record seq ck units) = Some l \<and> l_sequence l = seq \<and> l_checksum l = ck
    \<and> chunks2 (l_name1 l) @ chunks2 (l_name2 l) @ chunks2 (l_name3 l) = units"
proof -
  let ?a = "unit_bytes (take 5 units)" and ?b = "unit_bytes (take 6 (drop 5 units))" and ?c = "unit_bytes (drop 11 units)"
  have len: "length ?a = 10" "length ?b = 12" "length ?c = 4" using assms by (simp_all add: length_unit_bytes)
  then have sl: "slice (lfn_record seq ck units) 1 10 = ?a" "slice (lfn_record seq ck units) 14 12 = ?b"
    "slice (lfn_record seq ck units) 28 4 = ?c" "lfn_record seq ck units ! 13 = ck" "lfn_record seq ck units ! 0 = seq"
    by (simp_all add: lfn_record_def slice_def nth_append)
  have "take 5 units @ take 6 (drop 5 units) @ drop 11 units = units"
    using append_take_drop_id [of 6 "drop 5 units"] append_take_drop_id [of 5 units] by simp
  then show ?thesis
    using assms by (simp add: read_lfn_entry_def length_lfn_record sl [unfolded One_nat_def] chunks2_unit_bytes)
qed


section \<open>The records of a name\<close>

lemma part_count_le: "lfn_ok us \<Longrightarrow> part_count us \<le> 20"
  by (auto simp: lfn_ok_def part_count_def intro: order_trans [OF div_le_mono [of _ 267]])

lemma part_count_pos: "lfn_ok us \<Longrightarrow> 0 < part_count us"
  by (cases us) (simp_all add: lfn_ok_def part_count_def)

lemma sequence_numbers:
  "\<forall>i \<in> set [0 ..< 20].
     unat ((word_of_nat (i + 1) :: u8) AND 0x1F) = i + 1 \<and> (word_of_nat (i + 1) :: u8) AND 0x40 = 0
     \<and> unat ((word_of_nat (i + 1) OR 0x40 :: u8) AND 0x1F) = i + 1 \<and> (word_of_nat (i + 1) OR 0x40 :: u8) AND 0x40 \<noteq> 0
     \<and> (word_of_nat (i + 1) :: u8) \<notin> {0, 0xE5} \<and> (word_of_nat (i + 1) OR 0x40 :: u8) \<notin> {0, 0xE5}"
  by code_simp

lemma part_sequence:
  assumes "lfn_ok us" and "i < part_count us"
  shows "unat (part_sequence us i AND 0x1F) = i + 1"
    and "part_sequence us i AND 0x40 \<noteq> 0 \<longleftrightarrow> i + 1 = part_count us"
    and "part_sequence us i \<noteq> 0" and "part_sequence us i \<noteq> 0xE5"
proof -
  have "i \<in> set [0 ..< 20]" using assms part_count_le [OF assms(1)] by simp
  note n = bspec [OF sequence_numbers this]
  show "unat (part_sequence us i AND 0x1F) = i + 1"
    "part_sequence us i AND 0x40 \<noteq> 0 \<longleftrightarrow> i + 1 = part_count us"
    "part_sequence us i \<noteq> 0" "part_sequence us i \<noteq> 0xE5"
    using n by (auto simp: part_sequence_def)
qed

lemma put_chars_eq:
  assumes "pos + length cs \<le> length us" and "length us \<le> 260" and "0 \<notin> set cs" and "0xFFFF \<notin> set cs"
  shows "put_chars pos cs us = take pos us @ cs @ drop (pos + length cs) us"
  using assms
proof (induction cs arbitrary: pos us)
  case (Cons c cs)
  then have "put_chars (pos + 1) cs (us[pos := c]) = take (pos + 1) (us[pos := c]) @ cs @ drop (pos + 1 + length cs) (us[pos := c])"
    by (intro Cons.IH) auto
  moreover have "take (pos + 1) (us[pos := c]) = take pos us @ [c]"
    using Cons.prems(1) by (simp add: take_Suc_conv_app_nth)
  ultimately show ?case using Cons.prems by (auto simp: LFN_MAX_LEN_def LFN_MAX_ENTRIES_def LFN_PART_LEN_def)
qed simp

lemma last_part:
  assumes "i + 1 = part_count us"
  shows "name_part us i = drop (13 * i) us" and "13 * i + length (name_part us i) = length us"
  using assms by (simp_all add: part_count_def name_part_def)

lemma inner_part:
  assumes "i + 1 < part_count us"
  shows "13 * (i + 1) \<le> length us" and "length (name_part us i) = 13"
    and "name_part us i @ drop (13 * (i + 1)) us = drop (13 * i) us"
proof -
  show le: "13 * (i + 1) \<le> length us" using assms by (simp add: part_count_def)
  then show "length (name_part us i) = 13" by (simp add: name_part_def)
  show "name_part us i @ drop (13 * (i + 1)) us = drop (13 * i) us"
    using append_take_drop_id [of 13 "drop (13 * i) us"] by (simp add: name_part_def)
qed

text \<open>The collected state once the parts from \<open>i\<close> on are in.\<close>

definition collected :: "u16 list \<Rightarrow> u8 \<Rightarrow> nat \<Rightarrow> lfn_state" where
  "collected us ck i =
     \<lparr>lfn_buffer = replicate (13 * i) 0 @ drop (13 * i) us, lfn_checksum = ck, lfn_collecting = True\<rparr>"

lemma collect_part:
  assumes ok: "lfn_ok us" and i: "i < part_count us"
    and l: "l_sequence l = part_sequence us i" "l_checksum l = ck"
      "chunks2 (l_name1 l) @ chunks2 (l_name2 l) @ chunks2 (l_name3 l) = pad_part (name_part us i)"
    and st: "i + 1 = part_count us \<or> st = collected us ck (i + 1)"
  shows "collect_lfn st l = collected us ck i"
proof -
  have sub: "set (name_part us i) \<subseteq> set us"
    unfolding name_part_def by (meson order_trans set_drop_subset set_take_subset)
  then have z: "0 \<notin> set (name_part us i)" "0xFFFF \<notin> set (name_part us i)" using ok by (auto simp: lfn_ok_def)
  have chars: "extract_chars l = name_part us i"
    unfolding extract_chars_def l(3) by (rule takeWhile_pad_part [OF _ z]) (simp add: name_part_def)
  note seq = part_sequence [OF ok i, folded l(1)]
  have n: "unat (l_sequence l AND LFN_SEQ_MASK) = i + 1" "\<not> LFN_MAX_ENTRIES < i + 1"
    using seq(1) part_count_le [OF ok] i by (simp_all add: LFN_SEQ_MASK_def LFN_MAX_ENTRIES_def)
  have len: "length us \<le> 255" using ok by (simp add: lfn_ok_def)
  show ?thesis
  proof (cases "i + 1 = part_count us")
    case True
    have "put_chars (13 * i) (name_part us i) (replicate (length us) 0)
        = take (13 * i) (replicate (length us) 0) @ name_part us i @ drop (13 * i + length (name_part us i)) (replicate (length us) 0)"
      using last_part [OF True] len z by (intro put_chars_eq) auto
    also have "\<dots> = replicate (13 * i) 0 @ drop (13 * i) us"
      using last_part [OF True] by (simp add: min_def)
    finally have put: "put_chars (13 * i) (name_part us i) (replicate (length us) 0)
        = replicate (13 * i) 0 @ drop (13 * i) us" .
    have "l_sequence l AND LFN_LAST_ENTRY \<noteq> 0" using True seq(2) by (simp add: LFN_LAST_ENTRY_def)
    moreover have "us \<noteq> []" using ok by (simp add: lfn_ok_def)
    ultimately show ?thesis
      using chars n l(2) len last_part(2) [OF True] put
      by (auto simp: collect_lfn_def Let_def LFN_PART_LEN_def LFN_MAX_LEN_def LFN_MAX_ENTRIES_def collected_def
          grow_zero_def mult.commute)
  next
    case False
    then have f: "i + 1 < part_count us" using i by simp
    note p = inner_part [OF f]
    let ?b = "replicate (13 * (i + 1)) 0 @ drop (13 * (i + 1)) us"
    have "put_chars (13 * i) (name_part us i) ?b = take (13 * i) ?b @ name_part us i @ drop (13 * i + length (name_part us i)) ?b"
      using p len z by (intro put_chars_eq) auto
    also have "\<dots> = replicate (13 * i) 0 @ drop (13 * i) us"
      using p by (simp add: min_def)
    finally show ?thesis
      using False st seq(2) chars n l(2) len p
      by (auto simp: collect_lfn_def Let_def LFN_LAST_ENTRY_def LFN_PART_LEN_def LFN_MAX_LEN_def
        LFN_MAX_ENTRIES_def collected_def mult.commute min_def)
  qed
qed

lemma process_lfn_record:
  assumes ok: "lfn_ok us" and i: "i < part_count us" and st: "i + 1 = part_count us \<or> st = collected us ck (i + 1)"
  shows "process_record (lfn_record (part_sequence us i) ck (pad_part (name_part us i))) st = (Skipped, collected us ck i)"
proof -
  let ?r = "lfn_record (part_sequence us i) ck (pad_part (name_part us i))"
  have len: "length ?r = 32" by (simp add: length_lfn_record length_pad_part)
  have b: "?r ! 0 = part_sequence us i" "?r ! 11 = 0x0F"
    by (simp_all add: lfn_record_def nth_append length_unit_bytes length_pad_part)
  obtain l where l: "read_lfn_entry ?r = Some l" "l_sequence l = part_sequence us i" "l_checksum l = ck"
      "chunks2 (l_name1 l) @ chunks2 (l_name2 l) @ chunks2 (l_name3 l) = pad_part (name_part us i)"
    using read_lfn_record [OF length_pad_part] by blast
  have "slice ?r 0 11 ! 0 = ?r ! 0" using len by (simp add: slice_def)
  then show ?thesis
    using collect_part [OF ok i l(2-4) st] l(1) len b part_sequence(3,4) [OF ok i]
    by (simp add: process_record_def read_dir_file_entry_def entry_is_end_def entry_is_deleted_def entry_is_lfn_def
        DIR_ENTRY_END_def DIR_ENTRY_DELETED_def LFN_ATTRIBUTES_def)
qed

lemma scan_parts:
  assumes ok: "lfn_ok us" and "k \<le> part_count us" and "k = part_count us \<or> st = collected us ck k" and "0 < k"
  shows "scan (map (\<lambda>i. lfn_record (part_sequence us i) ck (pad_part (name_part us i))) (rev [0 ..< k]) @ rs) e st
    = scan rs e (collected us ck 0)"
  using assms(2-)
proof (induction k arbitrary: st)
  case (Suc k)
  have "process_record (lfn_record (part_sequence us k) ck (pad_part (name_part us k))) st = (Skipped, collected us ck k)"
    using Suc.prems by (intro process_lfn_record [OF ok]) auto
  then show ?case using Suc.IH [of "collected us ck k"] Suc.prems(1) by (cases k) simp_all
qed simp

text \<open>A short entry that is neither free nor part of a long name.\<close>

definition short_record :: "bytes \<Rightarrow> dir_file_entry \<Rightarrow> bool" where
  "short_record r d \<longleftrightarrow> read_dir_file_entry r = Some d \<and> \<not> entry_is_end d \<and> \<not> entry_is_deleted d \<and> \<not> entry_is_lfn d"

lemma scan_lfn_records:
  assumes ok: "lfn_ok us" and r: "short_record r d"
  shows "scan (lfn_records us (sfn_checksum (d_name d)) @ r # rs) e st
    = apfst ((#) \<lparr>de_data = d, de_lfn_buffer = us\<rparr>) (scan rs e \<lparr>lfn_buffer = [], lfn_checksum = sfn_checksum (d_name d), lfn_collecting = False\<rparr>)"
proof -
  let ?ck = "sfn_checksum (d_name d)"
  have "us \<noteq> []" "length us \<le> 260" using ok by (simp_all add: lfn_ok_def)
  then have "process_record r (collected us ?ck 0)
      = (Found \<lparr>de_data = d, de_lfn_buffer = us\<rparr>, \<lparr>lfn_buffer = [], lfn_checksum = ?ck, lfn_collecting = False\<rparr>)"
    using r by (simp add: process_record_def short_record_def collected_def short_entry_def with_lfn_def lfn_reset_def
        LFN_MAX_LEN_def LFN_MAX_ENTRIES_def LFN_PART_LEN_def)
  then show ?thesis
    using scan_parts [OF ok order_refl _ part_count_pos [OF ok], of st ?ck "r # rs" e] by (simp add: lfn_records_def)
qed


section \<open>Names as text\<close>

lemma unat_u16: "v < 65536 \<Longrightarrow> unat (word_of_nat v :: u16) = v"
  by (simp add: unat_of_nat take_bit_nat_eq_self)

lemma decode_utf16_char:
  assumes "scalar_value c"
  shows "decode_utf16 (encode_utf16_char c @ us) = c # decode_utf16 us"
proof (cases "c < 0x10000")
  case True
  then have "\<not> is_high_surrogate (word_of_nat c)" "\<not> is_low_surrogate (word_of_nat c)"
    using assms by (auto simp: is_high_surrogate_def is_low_surrogate_def scalar_value_def word_le_nat_alt unat_u16)
  then show ?thesis using True by (simp add: encode_utf16_char_def unat_u16)
next
  case False
  let ?v = "c - 0x10000"
  have v: "?v < 0x100000" using False assms by (auto simp: scalar_value_def)
  have d: "?v div 0x400 < 0x400" "?v mod 0x400 < 0x400" using v by (simp_all add: less_mult_imp_div_less)
  have s: "is_high_surrogate (word_of_nat (0xD800 + ?v div 0x400))" "is_low_surrogate (word_of_nat (0xDC00 + ?v mod 0x400))"
    using d by (simp_all add: is_high_surrogate_def is_low_surrogate_def word_le_nat_alt unat_u16 del: of_nat_add)
  have "0x10000 + (?v div 0x400) * 0x400 + ?v mod 0x400 = c" using False by (simp add: add.assoc)
  then show ?thesis using False d s by (simp add: encode_utf16_char_def unat_u16 del: of_nat_add)
qed

lemma decode_encode_utf16: "list_all scalar_value s \<Longrightarrow> decode_utf16 (encode_utf16 s) = s"
  by (induction s) (simp_all add: encode_utf16_def decode_utf16_char)

lemma chars_eq_refl: "chars_eq_ignore_case s s"
  by (induction s) (simp_all add: eq_ignore_ascii_case_def)

end
