(* ===== verification/Fat_Sample.thy ===== *)
theory Fat_Sample
  imports Fat_Walk Fat_Lfn
begin

text \<open>
  A small FAT12 volume of seven sectors, on which the properties of the driver are applied: a boot
  sector, one table, a root directory with a file of two clusters and a directory, and four clusters.
\<close>

definition floppy_boot :: bytes where
  "floppy_boot =
     [0xEB, 0x3C, 0x90] @ ascii ''MSDOS5.0'' @ [0, 2, 1, 1, 0, 1, 16, 0, 7, 0, 0xF8, 1, 0] @ replicate 486 0 @ [0x55, 0xAA]"

definition floppy_table :: bytes where
  "floppy_table = [0xF8, 0xFF, 0xFF, 0x03, 0xF0, 0xFF, 0xFF, 0x0F, 0] @ replicate 503 0"

definition floppy_record :: "string \<Rightarrow> u8 \<Rightarrow> u8 \<Rightarrow> u8 list \<Rightarrow> bytes" where
  "floppy_record name attributes cluster len = ascii name @ [attributes, 0, 0, 0, 0, 0, 0, 0, 0, 0, 0, 0, 0, 0, 0, cluster, 0] @ len"

definition floppy_root :: bytes where
  "floppy_root = floppy_record ''A       TXT'' 0x20 2 [0x58, 2, 0, 0] @ floppy_record ''D          '' 0x10 4 [0, 0, 0, 0]
     @ replicate 448 0"

definition floppy_dir :: bytes where
  "floppy_dir = floppy_record ''.          '' 0x10 4 [0, 0, 0, 0] @ floppy_record ''..         '' 0x10 0 [0, 0, 0, 0]
     @ floppy_record ''B       TXT'' 0x20 0 [0, 0, 0, 0] @ replicate 416 0"

definition floppy_bytes :: bytes where
  "floppy_bytes = floppy_boot @ floppy_table @ floppy_root @ replicate 512 0x41 @ replicate 512 0x42 @ floppy_dir
     @ replicate 512 0"

definition floppy_fat :: fat where
  "floppy_fat = \<lparr>f_type = Fat12, f_cluster_size = 512, f_sector_size = 512, f_size = 3584, f_sectors_per_fat = 1,
     f_fat_start_sector = 1, f_root_dir_sectors = 1, f_first_data_sector = 3, f_total_clusters = 4,
     f_root_cluster = 0, f_serial_number = 0\<rparr>"

definition floppy :: cursor where
  "floppy = \<lparr>cur_bytes = floppy_bytes, cur_pos = 0\<rparr>"

lemma length_floppy_boot: "length floppy_boot = 512"
  by (simp add: floppy_boot_def ascii_def)

lemma floppy_boot_fields:
  "slice floppy_boot 510 2 = [0x55, 0xAA]" "slice floppy_boot 3 8 = ascii ''MSDOS5.0''"
  "slice floppy_boot 0x0B 25 = [0, 2, 1, 1, 0, 1, 16, 0, 7, 0, 0xF8, 1, 0] @ replicate 12 0"
  "slice floppy_boot 0x24 26 = replicate 26 0"
  by (simp_all add: floppy_boot_def ascii_def slice_def)

definition floppy_bpb :: dos_bpb where
  "floppy_bpb = \<lparr>bytes_per_sector = 512, sectors_per_cluster = 1, reserved_sectors = 1, num_fats = 1,
     root_entry_count = 16, total_sectors_16 = 7, media_descriptor = 0xF8, sectors_per_fat_16 = 1,
     sectors_per_track = 0, num_heads = 0, hidden_sectors = 0, total_sectors_32 = 0\<rparr>"

lemma floppy_bpb_parsed: "parse_dos_bpb (slice floppy_boot 0x0B 25) = Some floppy_bpb"
  unfolding floppy_boot_fields by (simp add: parse_dos_bpb_def floppy_bpb_def le_field_def slice_def)

lemma floppy_ebpb_parsed: "\<exists>e. fat16_boot_sector floppy_boot = Some e \<and> f16_volume_serial_number e = 0"
  by (simp add: fat16_boot_sector_def length_floppy_boot floppy_boot_fields)
    (simp add: parse_fat16_ebpb_def le_field_def slice_def)

lemma is_power_of_two_1: "is_power_of_two 1"
  by (auto simp: is_power_of_two_def image_iff intro: bexI [of _ 0])

lemma floppy_accepted: "fat_from_boot_sector floppy_boot = Ok floppy_fat"
proof -
  obtain e where e: "fat16_boot_sector floppy_boot = Some e" "f16_volume_serial_number e = 0"
    using floppy_ebpb_parsed by blast
  have "new_fat12_16 floppy_boot floppy_bpb 512 = Ok floppy_fat"
    using e is_power_of_two_1
    by (simp add: new_fat12_16_def floppy_bpb_def validate_sectors_per_cluster_def checked_mul32_def checked_add32_def
        bpb_total_sectors_def div_ceil_def from_clusters_def FAT16_MIN_CLUSTERS_def floppy_fat_def Let_def)
  moreover have "le_field floppy_boot 510 2 = BOOT_SIGNATURE"
    by (simp add: le_field_def floppy_boot_fields BOOT_SIGNATURE_def)
  moreover have "ascii ''MSDOS5.0'' \<noteq> ascii ''-FVE-FS-''" by (simp add: ascii_def)
  ultimately show ?thesis
    by (simp add: fat_from_boot_sector_def floppy_bpb_parsed floppy_boot_fields(2)) (simp add: floppy_bpb_def)
qed

lemma floppy_fat_wf: "fat_wf floppy_fat"
  using fat_from_boot_sector_answers [of floppy_boot] by (simp add: floppy_accepted)

lemma length_floppy:
  "length floppy_table = 512" "length floppy_root = 512" "length floppy_dir = 512" "length floppy_bytes = 3584"
  by (simp_all add: floppy_table_def floppy_root_def floppy_dir_def floppy_record_def ascii_def floppy_bytes_def
      length_floppy_boot)

lemma floppy_inv: "cursor_inv floppy"
  by (simp add: cursor_inv_def floppy_def length_floppy)

text \<open>The areas of the volume.\<close>

lemma floppy_areas:
  "slice floppy_bytes 0 512 = floppy_boot" "slice floppy_bytes 1024 512 = floppy_root"
  "slice floppy_bytes 1536 512 = replicate 512 0x41" "slice floppy_bytes 2048 512 = replicate 512 0x42"
  "slice floppy_bytes 2560 512 = floppy_dir"
  by (simp_all add: floppy_bytes_def slice_def length_floppy_boot length_floppy)

lemma floppy_table_entries:
  "slice floppy_bytes 515 2 = [0x03, 0xF0]" "slice floppy_bytes 516 2 = [0xF0, 0xFF]" "slice floppy_bytes 518 2 = [0xFF, 0x0F]"
  by (simp_all add: floppy_bytes_def slice_def length_floppy_boot floppy_table_def)

lemma floppy_geometry:
  "g_kind (file_geometry floppy_fat) = Fat12" "g_cluster_size (file_geometry floppy_fat) = 512"
  "g_sector_size (file_geometry floppy_fat) = 512" "g_table_start_sector (file_geometry floppy_fat) = 1"
  "g_data_start_sector (file_geometry floppy_fat) = 3" "g_cluster_count (file_geometry floppy_fat) = 4"
  by (simp_all add: file_geometry_def floppy_fat_def)

lemma floppy_valid_cluster: "valid_cluster (file_geometry floppy_fat) cl \<longleftrightarrow> 2 \<le> cl \<and> cl \<le> 5"
  by (auto simp: valid_cluster_def floppy_geometry saturating_add32_def)

lemma floppy_links:
  "fat_link 512 floppy_bytes (file_geometry floppy_fat) 2 = Ok (Some 3)"
  "fat_link 512 floppy_bytes (file_geometry floppy_fat) 3 = Ok None"
  "fat_link 512 floppy_bytes (file_geometry floppy_fat) 4 = Ok None"
  by (simp_all add: fat_link_def floppy_valid_cluster entry_position_def entry_offset_def entry_len_def floppy_geometry
      length_floppy le_field_def floppy_table_entries entry_value_def entry_link_def end_mark_def)

lemma fat_chain_numeral:
  "fat_chain (numeral v) c g cl
     = cl # (case fat_link (g_sector_size g) c g cl of Ok (Some nx) \<Rightarrow> fat_chain (pred_numeral v) c g nx | _ \<Rightarrow> [])"
  by (simp only: numeral_eq_Suc fat_chain.simps)

lemma floppy_chain:
  "fat_chain 4 floppy_bytes (file_geometry floppy_fat) 2 = [2, 3]"
  "fat_chain 4 floppy_bytes (file_geometry floppy_fat) 4 = [4]"
  by (simp_all add: fat_chain_numeral floppy_geometry floppy_links)

definition floppy_value :: fat_file_value where
  "floppy_value = \<lparr>fv_geometry = file_geometry floppy_fat, fv_first_cluster = Some 2, fv_current_cluster = Some 2,
     fv_position_in_cluster = 0, fv_stream_position = 0, fv_data_size = 600, fv_clusters_traversed = 0,
     fv_fat_cache = \<lparr>bc_block_size = 512, bc_start = None, bc_bytes = []\<rparr>\<rparr>"

lemma floppy_value_ok: "file_ok floppy_bytes floppy_value"
  using fat_geometry_wf [OF floppy_fat_wf]
  by (simp add: file_ok_def floppy_value_def file_clusters_def floppy_geometry floppy_chain chain_ok_def
      floppy_valid_cluster cluster_position_def length_floppy floppy_links)

lemma floppy_data: "file_data floppy_bytes floppy_value = replicate 512 0x41 @ replicate 88 0x42"
  by (simp add: file_data_def file_clusters_def floppy_value_def floppy_geometry floppy_chain cluster_bytes_def
      cluster_position_def floppy_areas)


section \<open>Its directories\<close>

definition floppy_entry :: "string \<Rightarrow> u8 \<Rightarrow> u16 \<Rightarrow> nat \<Rightarrow> fat_dir_entry" where
  "floppy_entry name attributes cluster len =
     \<lparr>de_data = \<lparr>d_name = ascii name, d_attributes = attributes, d_nt_reserved = 0, d_create_time_tenths = 0,
        d_create_time = 0, d_create_date = 0, d_access_date = 0, d_first_cluster_high = 0, d_modify_time = 0,
        d_modify_date = 0, d_first_cluster_low = cluster, d_file_size = len\<rparr>, de_lfn_buffer = []\<rparr>"

lemma records_block: "length r = 32 \<Longrightarrow> records (r @ bs) = r # records bs"
  by (subst records.simps) simp

lemma records_zeros: "32 \<le> n \<Longrightarrow> records (replicate n 0) = replicate 32 0 # records (replicate (n - 32) 0)"
  by (subst records.simps) simp

lemma process_zeros: "process_record (replicate 32 0) st = (EndOfDirectory, st)"
  by (simp add: process_record_def read_dir_file_entry_def entry_is_end_def DIR_ENTRY_END_def slice_def)

lemma process_floppy_record:
  assumes "length name = 11" and "ascii name ! 0 \<noteq> 0" and "ascii name ! 0 \<noteq> 0xE5" and "attributes \<noteq> 0x0F"
    and "length len = 4" and "\<not> lfn_collecting st"
  shows "process_record (floppy_record name attributes cluster len) st
    = (Found (floppy_entry name attributes (ucast cluster) (le_nat len)), lfn_reset st)"
proof -
  let ?r = "floppy_record name attributes cluster len"
  have n: "length (ascii name) = 11" using assms(1) by (simp add: ascii_def)
  have len: "length ?r = 32" using n assms(5) by (simp add: floppy_record_def)
  have "read_dir_file_entry ?r = Some (de_data (floppy_entry name attributes (ucast cluster) (le_nat len)))"
    using n assms(5) len
    by (simp add: read_dir_file_entry_def floppy_entry_def) (simp add: floppy_record_def slice_def nth_append
        from_le_bytes_def le_field_def)
  then show ?thesis
    using assms len by (simp add: process_record_def entry_is_end_def entry_is_deleted_def entry_is_lfn_def
        DIR_ENTRY_END_def DIR_ENTRY_DELETED_def LFN_ATTRIBUTES_def short_entry_def floppy_entry_def)
qed

lemma length_floppy_record: "length name = 11 \<Longrightarrow> length len = 4 \<Longrightarrow> length (floppy_record name a cl len) = 32"
  by (simp add: floppy_record_def ascii_def)

lemma ascii_nth_0: "ascii (ch # cs) ! 0 = of_char ch"
  by (simp add: ascii_def)

lemma lfn_initial_simps: "\<not> lfn_collecting lfn_initial" "\<not> lfn_collecting (lfn_reset st)"
  by (simp_all add: lfn_initial_def lfn_reset_def)

lemmas floppy_scan = block_entries_def records_block records_zeros length_floppy_record process_floppy_record
  process_zeros ascii_nth_0 lfn_initial_simps

lemma chain_blocks_numeral:
  "chain_blocks (numeral v) c g current
     = (case current of
          None \<Rightarrow> ([], None)
        | Some cl \<Rightarrow>
            if \<not> valid_cluster g cl then ([], Some (InvalidCluster cl))
            else if length c < cluster_position g cl + g_cluster_size g then ([], Some (Io UnexpectedEof))
            else case fat_link (g_sector_size g) c g cl of
              Ok nx \<Rightarrow> apfst ((#) (cluster_bytes c g cl)) (chain_blocks (pred_numeral v) c g nx)
            | Err e \<Rightarrow> ([], Some e)
            | _ \<Rightarrow> ([], None))"
  by (simp only: numeral_eq_Suc chain_blocks.simps)

lemma floppy_root_entries:
  "block_entries ([floppy_root], None) = ([floppy_entry ''A       TXT'' 0x20 2 600, floppy_entry ''D          '' 0x10 4 0], None)"
  by (simp add: floppy_root_def floppy_scan)

lemma floppy_dir_entries:
  "block_entries ([floppy_dir], None) = ([floppy_entry ''.          '' 0x10 4 0, floppy_entry ''..         '' 0x10 0 0,
     floppy_entry ''B       TXT'' 0x20 0 0], None)"
  by (simp add: floppy_dir_def floppy_scan)

lemma floppy_entries:
  "file_entries floppy_bytes (root_directory floppy_fat)
     = ([floppy_entry ''A       TXT'' 0x20 2 600, floppy_entry ''D          '' 0x10 4 0], None)"
  "file_entries floppy_bytes (file_new floppy_fat (Some 4) True 0)
     = ([floppy_entry ''.          '' 0x10 4 0, floppy_entry ''..         '' 0x10 0 0,
         floppy_entry ''B       TXT'' 0x20 0 0], None)"
proof -
  have "fixed_blocks floppy_bytes 512 1024 512 = ([floppy_root], None)"
    by (simp add: fixed_blocks.simps [of _ _ 1024] fixed_blocks.simps [of _ _ 1536] length_floppy floppy_areas)
  then show "file_entries floppy_bytes (root_directory floppy_fat)
     = ([floppy_entry ''A       TXT'' 0x20 2 600, floppy_entry ''D          '' 0x10 4 0], None)"
    by (simp add: file_entries_def root_directory_def floppy_fat_def file_new_def root_dir_offset_def
        flip: floppy_root_entries)
  have "chain_blocks 4 floppy_bytes (file_geometry floppy_fat) (Some 4) = ([floppy_dir], None)"
    by (simp add: chain_blocks_numeral floppy_valid_cluster cluster_position_def floppy_geometry
        length_floppy floppy_links cluster_bytes_def floppy_areas)
  then show "file_entries floppy_bytes (file_new floppy_fat (Some 4) True 0)
     = ([floppy_entry ''.          '' 0x10 4 0, floppy_entry ''..         '' 0x10 0 0,
         floppy_entry ''B       TXT'' 0x20 0 0], None)"
    by (simp add: file_entries_def chain_entries_def file_new_def floppy_geometry flip: floppy_dir_entries)
qed


section \<open>The names on the sample volume\<close>

lemma floppy_entry_simps:
  "entry_is_directory (de_data (floppy_entry name a cl n)) \<longleftrightarrow> a AND 0x10 = 0x10"
  "entry_first_cluster (de_data (floppy_entry name a cl n)) = unat cl" "d_file_size (de_data (floppy_entry name a cl n)) = n"
  "d_name (de_data (floppy_entry name a cl n)) = ascii name" "de_lfn_buffer (floppy_entry name a cl n) = []"
proof -
  have "take_bit 32 (unat cl) = unat cl"
    using unat_less_power [of cl] by (intro take_bit_nat_eq_self) simp
  then show "entry_first_cluster (de_data (floppy_entry name a cl n)) = unat cl"
    by (simp add: floppy_entry_def entry_first_cluster_def unsigned_ucast_eq)
qed (simp_all add: floppy_entry_def entry_is_directory_def from_bits_truncate_def DIRECTORY_def and.assoc)

lemma floppy_short_names:
  "short_name_string (floppy_entry ''A       TXT'' a cl n) = [0x41, 0x2E, 0x54, 0x58, 0x54]"
  "short_name_string (floppy_entry ''B       TXT'' a cl n) = [0x42, 0x2E, 0x54, 0x58, 0x54]"
  "short_name_string (floppy_entry ''D          '' a cl n) = [0x44]"
  "short_name_string (floppy_entry ''.          '' a cl n) = [0x2E]"
  "short_name_string (floppy_entry ''..         '' a cl n) = [0x2E, 0x2E]"
  by (simp_all add: short_name_string_def floppy_entry_def ascii_def trim_spaces_def name_chars_def slice_def Let_def)

lemmas floppy_names = name_matches_def has_long_name_def floppy_entry_simps floppy_short_names ascii_eq_ignore_case_def
  utf8_def utf8_char_def eq_ignore_ascii_case_def to_ascii_lowercase_def

end
