(* ===== verification/Fat_Properties.thy ===== *)
theory Fat_Properties
  imports Fat_Sample
begin

text \<open>
  The properties of the FAT driver, over any reader that satisfies the contract of \<open>byte_reader\<close>, and
  their instances on the volume of \<open>Fat_Sample\<close>.
\<close>

section \<open>Mounting\<close>

text \<open>
  C18: whatever the 512 bytes of a boot sector, the driver rejects it or derives a well-formed
  geometry, without a panic: a legal sector size, a cluster size that is a non-zero multiple of it
  and at most 512 KiB, a root area before the data area, and the type that the number of clusters
  determines.
\<close>

theorem fat_boot_sector_gives_wellformed_geometry:
  "answers (fat_from_boot_sector bs) (\<lambda>f.
     f_sector_size f \<in> {512, 1024, 2048, 4096} \<and> 0 < f_cluster_size f \<and> f_cluster_size f \<le> 512 * 1024
     \<and> f_sector_size f dvd f_cluster_size f \<and> f_fat_start_sector f + f_root_dir_sectors f \<le> f_first_data_sector f
     \<and> f_type f = from_clusters (f_total_clusters f))"
  by (rule answers_mono [OF fat_from_boot_sector_answers]) (simp add: fat_wf_def)

text \<open>
  C19: the clusters of a mounted volume are disjoint ranges inside the volume: every cluster number
  from 2 to the number of clusters plus 1 has an offset, at which a whole cluster fits before the end
  that the boot sector declares, clusters do not overlap, and any other number is an error. None of
  the computations overflows.
\<close>

theorem fat_clusters_are_disjoint_ranges:
  assumes "fat_from_boot_sector bs = Ok f" and "f_total_clusters f + 1 < 2 ^ 32"
  shows "(\<forall>cl. 2 \<le> cl \<and> cl \<le> f_total_clusters f + 1 \<longrightarrow>
      (\<exists>p. cluster_offset f cl = Ok p \<and> f_first_data_sector f * f_sector_size f \<le> p \<and> p + f_cluster_size f \<le> f_size f))
    \<and> (\<forall>cl cl' p p'. cl < cl' \<and> cluster_offset f cl = Ok p \<and> cluster_offset f cl' = Ok p' \<longrightarrow> p + f_cluster_size f \<le> p')
    \<and> (\<forall>cl. cl < 2 \<or> f_total_clusters f + 1 < cl \<longrightarrow> cluster_offset f cl = Err (InvalidCluster cl))"
proof -
  let ?g = "file_geometry f"
  have wf: "fat_wf f" using fat_from_boot_sector_answers [of bs] assms(1) by simp
  note gwf = fat_geometry_wf [OF wf]
  have valid: "valid_cluster ?g cl \<longleftrightarrow> 2 \<le> cl \<and> cl \<le> f_total_clusters f + 1" for cl
    using assms(2) by (simp add: valid_cluster_def file_geometry_def saturating_add32_def)
  have ok: "cluster_offset f cl = Ok (f_first_data_sector f * f_sector_size f + (cl - 2) * f_cluster_size f)"
    if "valid_cluster ?g cl" for cl
    using cluster_offset_valid(1) [OF gwf that] by (simp add: cluster_offset_def file_geometry_def)
  have no: "cluster_offset f cl = Err (InvalidCluster cl)" if "\<not> valid_cluster ?g cl" for cl
    using cluster_offset_invalid [OF that] by (simp add: cluster_offset_def)
  have fits: "f_first_data_sector f * f_sector_size f + (cl - 2) * f_cluster_size f + f_cluster_size f \<le> f_size f"
    if "valid_cluster ?g cl" for cl
  proof -
    have n: "cl - 2 + 1 \<le> f_total_clusters f" "0 < f_total_clusters f" using that by (auto simp: valid)
    from mult_le_mono1 [OF n(1), of "f_cluster_size f"]
    have "(cl - 2) * f_cluster_size f + f_cluster_size f \<le> f_total_clusters f * f_cluster_size f" by (simp add: add.commute)
    with n(2) wf show ?thesis by (auto simp: fat_wf_def)
  qed
  have apart: "p + f_cluster_size f \<le> p'"
    if "cl < cl'" "cluster_offset f cl = Ok p" "cluster_offset f cl' = Ok p'" for cl cl' p p'
  proof -
    have v: "valid_cluster ?g cl" "valid_cluster ?g cl'" using that no by (metis outcome.distinct(1))+
    have "2 \<le> cl" using v(1) by (simp add: valid)
    then have "cl - 2 + 1 \<le> cl' - 2" using that(1) by linarith
    from mult_le_mono1 [OF this, of "f_cluster_size f"] show ?thesis using that ok v by simp
  qed
  show ?thesis using ok no fits apart by (auto simp: valid)
qed

theorem fat_clusters_are_disjoint_ranges_witness:
  "cluster_offset floppy_fat 2 = Ok 1536 \<and> cluster_offset floppy_fat 6 = Err (InvalidCluster 6)
   \<and> (\<exists>p. cluster_offset floppy_fat 5 = Ok p \<and> 1536 \<le> p \<and> p + 512 \<le> 3584)"
proof -
  have t: "f_total_clusters floppy_fat + 1 < 2 ^ 32" by (simp add: floppy_fat_def)
  have "cluster_offset floppy_fat 2 = Ok 1536"
    using cluster_offset_valid(1) [OF fat_geometry_wf [OF floppy_fat_wf], of 2]
    by (simp add: cluster_offset_def floppy_valid_cluster floppy_geometry)
  then show ?thesis
    using fat_clusters_are_disjoint_ranges [OF floppy_accepted t] by (simp add: floppy_fat_def)
qed


section \<open>The allocation table\<close>

text \<open>
  C20: on a volume of whole sectors, the lookup that goes through the block cache and the direct one
  return the same successor, or the same error, for every cluster number, if the number of clusters
  plus one fits 32 bits (the direct lookup adds one to it without a check).
\<close>

theorem fat_cached_lookup_is_direct_lookup:
  assumes "byte_reader src lawful pos content" and "fat_wf f" and "f_total_clusters f + 1 < 2 ^ 32"
    and "lawful s" and "cache_inv (content s) bc" and "bc_block_size bc = f_sector_size f"
    and "f_sector_size f dvd length (content s)"
  shows "fst (next_cluster_cached src (file_geometry f) cl (bc, s)) = fst (next_cluster src f s cl)"
proof -
  have "0 < f_sector_size f" using assms(2) by (auto simp: fat_wf_def)
  from fat_link_whole_blocks [OF assms(7) this]
    byte_reader.next_cluster_cached_link [OF assms(1) fat_geometry_wf [OF assms(2)] assms(5,4), of cl]
    byte_reader.next_cluster_link [OF assms(1,2,4,3), of cl]
  show ?thesis using assms(6) by auto
qed

theorem fat_cached_lookup_is_direct_lookup_witness:
  "fst (next_cluster cursor_source floppy_fat floppy 2) = Ok (Some 3)"
proof -
  let ?bc = "\<lparr>bc_block_size = 512, bc_start = None, bc_bytes = []\<rparr>"
  have bc: "cache_inv (cur_bytes floppy) ?bc" "bc_block_size ?bc = f_sector_size floppy_fat"
    "f_total_clusters floppy_fat + 1 < 2 ^ 32" "f_sector_size floppy_fat dvd length (cur_bytes floppy)"
    by (simp_all add: cache_inv_def floppy_fat_def floppy_def length_floppy)
  have "fst (next_cluster_cached cursor_source (file_geometry floppy_fat) 2 (?bc, floppy)) = Ok (Some 3)"
    using cursor.next_cluster_cached_link [OF fat_geometry_wf [OF floppy_fat_wf] bc(1) floppy_inv, of 2]
    by (auto simp: floppy_def floppy_links)
  with fat_cached_lookup_is_direct_lookup [OF cursor.byte_reader_axioms floppy_fat_wf bc(3) floppy_inv bc(1,2,4), of 2]
  show ?thesis by simp
qed


section \<open>Files\<close>

text \<open>
  C21: a file whose chain is intact reads as the concatenation of its clusters, cut to its size:
  after opening it, a seek to any position followed by an exact read returns those bytes when they
  lie inside the file and the end-of-file error otherwise, and leaves the file readable in the same
  way.
\<close>

theorem fat_file_serves_its_clusters:
  assumes "byte_reader src lawful pos content" and "lawful s" and "fv_new f first len = Ok v"
    and "file_ok (content s) v"
  shows "\<exists>st. and_do (fv_seek src (v, s) (Start p)) (\<lambda>_ st. value_read_exact (fat_value_ops src) interrupted eof st n)
      = (if n = 0 \<or> p + n \<le> len then Ok (slice (file_data (content s) v) p n) else Err eof, st)
    \<and> fv_inv lawful content st \<and> file_data (content (snd st)) (fst st) = file_data (content s) v"
proof -
  have inv: "fv_inv lawful content (v, s)" using byte_reader.fv_new_inv(1) [OF assms(1,2,3,4)] .
  have len: "length (file_data (content s) v) = len"
    using length_file_data [OF assms(4)] assms(3) by (auto simp: fv_new_def Let_def and_then_eq_Ok_iff)
  have seek: "v_seek (fat_value_ops src) = fv_seek src" by (simp add: fat_value_ops_def)
  note r = value_reader.seek_read_exact [OF byte_reader.fat_value_reader [OF assms(1)] inv, of p interrupted eof n]
  show ?thesis using r by (simp only: seek fst_conv snd_conv len)
qed

theorem fat_file_serves_its_clusters_witness:
  "fst (and_do (fv_seek cursor_source (floppy_value, floppy) (Start 511))
      (\<lambda>_ st. value_read_exact (fat_value_ops cursor_source) (\<lambda>_. False) (Io UnexpectedEof) st 2)) = Ok [0x41, 0x42]"
proof -
  have new: "fv_new floppy_fat (Some 2) 600 = Ok floppy_value"
    by (simp add: fv_new_def floppy_value_def cache_new_def file_geometry_def floppy_fat_def)
  have ok: "file_ok (cur_bytes floppy) floppy_value" using floppy_value_ok by (simp add: floppy_def)
  have "slice (file_data (cur_bytes floppy) floppy_value) 511 2 = [0x41, 0x42]"
    by (simp add: floppy_def floppy_data slice_def)
  with fat_file_serves_its_clusters [OF cursor.byte_reader_axioms floppy_inv new ok, of 511 "\<lambda>_. False" "Io UnexpectedEof" 2]
  show ?thesis by auto
qed

text \<open>Sequences of reads and seeks on one open file, with the outcome of each; a read gives its count.\<close>

datatype value_op = ReadOp nat | SeekOp seek_from

primrec value_step :: "'s source \<Rightarrow> value_op \<Rightarrow> 's fat_value \<Rightarrow> (nat, fat_error) outcome \<times> 's fat_value" where
  "value_step src (ReadOp n) st = apfst (\<lambda>r. and_then r (\<lambda>bs. Ok (length bs))) (fv_read src st n)"
| "value_step src (SeekOp whence) st = fv_seek src st whence"

primrec run_value_ops :: "'s source \<Rightarrow> value_op list \<Rightarrow> 's fat_value \<Rightarrow> (nat, fat_error) outcome list" where
  "run_value_ops src [] st = []"
| "run_value_ops src (op # ops) st = (let (r, st) = value_step src op st in r # run_value_ops src ops st)"

definition op_limit :: "value_op \<Rightarrow> nat \<Rightarrow> bool" where
  "op_limit op k \<longleftrightarrow> (case op of ReadOp n \<Rightarrow> k \<le> n | SeekOp whence \<Rightarrow> True)"

lemma value_step_keeps:
  assumes "byte_reader src lawful pos content" and "fv_bounded lawful content c g d st"
  shows "ensures (fv_bounded lawful content c g d) (op_limit op) (value_step src op st)"
proof (cases op)
  case (ReadOp n)
  then show ?thesis
    using byte_reader.fv_read_keeps [OF assms, of n]
    by (cases "fv_read src st n"; cases "fst (fv_read src st n)") (auto simp: op_limit_def)
next
  case (SeekOp whence)
  then show ?thesis
    using byte_reader.fv_seek_keeps [OF assms(1), of c g d "fst st" "snd st" whence] assms(2)
    by (cases "fv_seek src st whence"; cases "fst (fv_seek src st whence)") (auto simp: op_limit_def)
qed

lemma run_value_ops_return:
  assumes "byte_reader src lawful pos content" and "fv_bounded lawful content c g d st"
  shows "list_all2 (\<lambda>op r. answers r (op_limit op)) ops (run_value_ops src ops st)"
  using assms(2)
proof (induction ops arbitrary: st)
  case (Cons op ops)
  from value_step_keeps [OF assms(1) Cons.prems, of op] obtain r st' where
    "value_step src op st = (r, st')" "answers r (op_limit op)" "fv_bounded lawful content c g d st'"
    by (rule ensuresE)
  then show ?case using Cons.IH [of st'] by simp
qed simp

text \<open>
  C22: on any volume, also one whose table is damaged, cyclic or cut short, every sequence of reads
  and seeks on an open file returns: each operation ends with a result or an error, never with a
  panic or an endless loop, and a read returns no more bytes than it was asked for.
\<close>

theorem fat_file_operations_return:
  assumes "byte_reader src lawful pos content" and "fat_wf f" and "lawful s" and "len < 2 ^ 63"
  shows "\<exists>v. fv_new f first len = Ok v
    \<and> list_all2 (\<lambda>op r. answers r (op_limit op)) ops (run_value_ops src ops (v, s))"
  using byte_reader.fv_new_bounded [OF assms(1-4), of first] run_value_ops_return [OF assms(1)] by metis

theorem fat_file_operations_return_witness:
  "\<exists>v. fv_new floppy_fat (Some 2) 600 = Ok v
   \<and> list_all2 (\<lambda>op r. answers r (op_limit op)) [SeekOp (Start 511), ReadOp 2, SeekOp (Current (-2)), ReadOp 700]
       (run_value_ops cursor_source [SeekOp (Start 511), ReadOp 2, SeekOp (Current (-2)), ReadOp 700] (v, floppy))"
  by (rule fat_file_operations_return [OF cursor.byte_reader_axioms floppy_fat_wf floppy_inv]) simp


section \<open>Directories\<close>

text \<open>
  C23: taking all entries of a directory gives exactly the entries that its records describe, in
  order, with the long name where one is stored before them: the records of the root area or of the
  directory's clusters, up to the end mark, without deleted ones; or the error that a damaged chain
  or a short volume causes.
\<close>

theorem fat_listing_is_directory_content:
  assumes "byte_reader src lawful pos content" and "fat_wf (ff_fat ff)" and "lawful s" and "ff_is_directory ff"
  shows "\<exists>it st. dir_entries ff = Ok it \<and> list_entries src (it, s) = (all_items (file_entries (content s) ff), st)"
  using byte_reader.dir_entries_sound [OF assms] byte_reader.list_entries_items [OF assms(1)] by metis

theorem fat_listing_is_directory_content_witness:
  "\<exists>it st. dir_entries (root_directory floppy_fat) = Ok it
   \<and> list_entries cursor_source (it, floppy)
     = (Ok [floppy_entry ''A       TXT'' 0x20 2 600, floppy_entry ''D          '' 0x10 4 0], st)"
  using fat_listing_is_directory_content [OF cursor.byte_reader_axioms, of "root_directory floppy_fat" floppy]
    floppy_fat_wf floppy_inv floppy_entries(1)
  by (simp add: all_items_def floppy_def)

text \<open>
  C24: opening a path resolves it component by component in the directories' contents: each name to
  the first entry whose long or short name matches it, ignoring ASCII case, \<open>..\<close> to the parent, and
  errors where a name is missing or an inner component is no directory. It always returns, whatever
  the volume holds.
\<close>

theorem fat_open_resolves_path:
  assumes "byte_reader src lawful pos content" and "fat_wf f" and "lawful s"
  shows "fst (fat_open src f path s) = walk_path (content s) f (root_directory f) (open_path_components path)
    \<and> returns (fst (fat_open src f path s))"
  using byte_reader.fat_open_spec [OF assms, of path] returns_walk_path by auto

theorem fat_open_resolves_path_witness:
  "fst (fat_open cursor_source floppy_fat (map of_char ''/d/./b.txt'') floppy) = Ok (file_new floppy_fat (Some 0) False 0)"
proof -
  have "fst (fat_open cursor_source floppy_fat (map of_char ''/d/./b.txt'') floppy)
      = walk_path floppy_bytes floppy_fat (root_directory floppy_fat) (open_path_components (map of_char ''/d/./b.txt''))"
    using fat_open_resolves_path [OF cursor.byte_reader_axioms floppy_fat_wf floppy_inv] by (simp add: floppy_def)
  moreover have "open_path_components (map of_char ''/d/./b.txt'') = [map of_char ''d'', map of_char ''b.txt'']"
    by (simp add: open_path_components_def)
  moreover have "lookup_entry floppy_bytes (root_directory floppy_fat) (map of_char ''d'')
      = Ok (Some (floppy_entry ''D          '' 0x10 4 0))"
    by (simp add: lookup_entry_def floppy_entries skip_to_def floppy_names)
  moreover have "entry_target floppy_fat (floppy_entry ''D          '' 0x10 4 0) = file_new floppy_fat (Some 4) True 0"
    "entry_target floppy_fat (floppy_entry ''B       TXT'' 0x20 0 0) = file_new floppy_fat (Some 0) False 0"
    by (simp_all add: entry_target_def floppy_entry_simps)
  moreover have "lookup_entry floppy_bytes (file_new floppy_fat (Some 4) True 0) (map of_char ''b.txt'')
      = Ok (Some (floppy_entry ''B       TXT'' 0x20 0 0))"
    by (simp add: lookup_entry_def floppy_entries skip_to_def floppy_names)
  moreover have "ff_is_directory (file_new floppy_fat (Some 4) True 0)" by (simp add: file_new_def)
  ultimately show ?thesis by (simp add: floppy_entry_simps)
qed

text \<open>
  C25: a long name stored in the VFAT layout reads back unchanged: scanning the records of a name of
  Unicode scalar values, in any state of the collector, followed by the short entry whose checksum
  they carry, gives an entry with exactly that name, which a search for the name matches, and leaves
  the records after it to be scanned.
\<close>

theorem fat_long_name_roundtrip:
  assumes "list_all scalar_value name" and "lfn_ok (encode_utf16 name)" and "short_record r d"
  shows "\<exists>e lfn. scan (lfn_records (encode_utf16 name) (sfn_checksum (d_name d)) @ r # rs) err st = apfst ((#) e) (scan rs err lfn)
    \<and> \<not> lfn_collecting lfn \<and> de_data e = d \<and> entry_name e = name \<and> name_matches e name"
proof -
  let ?e = "\<lparr>de_data = d, de_lfn_buffer = encode_utf16 name\<rparr>"
  have "has_long_name ?e" using assms(2) by (simp add: has_long_name_def lfn_ok_def)
  then have "entry_name ?e = name" "name_matches ?e name"
    using decode_encode_utf16 [OF assms(1)] chars_eq_refl
    by (simp_all add: entry_name_def long_name_string_def name_matches_def utf16_eq_ignore_ascii_case_def)
  with scan_lfn_records [OF assms(2,3), of rs err st] show ?thesis
    by (intro exI [of _ ?e] exI [of _ "\<lparr>lfn_buffer = [], lfn_checksum = sfn_checksum (d_name d), lfn_collecting = False\<rparr>"])
      simp
qed

theorem fat_long_name_roundtrip_witness:
  "\<exists>e lfn. scan (lfn_records (encode_utf16 [0x4E, 0x1F600]) (sfn_checksum (ascii ''A       TXT''))
       @ [floppy_record ''A       TXT'' 0x20 2 [0x58, 2, 0, 0]]) None lfn_initial = apfst ((#) e) (scan [] None lfn)
     \<and> entry_name e = [0x4E, 0x1F600]"
proof -
  let ?r = "floppy_record ''A       TXT'' 0x20 2 [0x58, 2, 0, 0]"
  obtain d where d: "short_record ?r d" "d_name d = ascii ''A       TXT''"
    by (simp add: short_record_def read_dir_file_entry_def length_floppy_record entry_is_end_def entry_is_deleted_def
        entry_is_lfn_def DIR_ENTRY_END_def DIR_ENTRY_DELETED_def LFN_ATTRIBUTES_def)
      (simp add: floppy_record_def ascii_def slice_def)
  have "list_all scalar_value [0x4E, 0x1F600]" by (simp add: scalar_value_def)
  moreover have "lfn_ok (encode_utf16 [0x4E, 0x1F600])"
    by (simp add: lfn_ok_def encode_utf16_def encode_utf16_char_def)
  ultimately show ?thesis
    using fat_long_name_roundtrip [OF _ _ d(1), of "[0x4E, 0x1F600]" "[]" None lfn_initial] d(2) by auto
qed


section \<open>Walking the tree\<close>

text \<open>
  C26: the recursive walk over a FAT volume always returns, from any directory and with any set of
  directories marked as seen: cycles in the tree, damaged chains and short volumes end in a result
  or an error.
\<close>

theorem fat_walk_always_returns:
  assumes "byte_reader src lawful pos content" and "fat_wf f" and "lawful s" and "ff_fat d = f" and "ff_is_directory d"
  shows "\<exists>res seen' calls s'. walk_dir (fat_walk_ops src f) d seen s = Some (res, seen', calls, s') \<and> returns res"
  using byte_reader.fat_walk_returns [OF assms, of seen] by blast

theorem fat_walk_always_returns_witness:
  "\<exists>res seen' calls s'. walk_dir (fat_walk_ops cursor_source floppy_fat) (file_new floppy_fat (Some 9) True 0) {4} floppy
     = Some (res, seen', calls, s') \<and> returns res"
  using fat_walk_always_returns [OF cursor.byte_reader_axioms floppy_fat_wf floppy_inv, of "file_new floppy_fat (Some 9) True 0" "{4}"]
  by (simp add: file_new_def)

text \<open>
  C27: on an undamaged volume with at most 4096 directories, the walk from the root reports every
  entry of every directory that can be reached, and reports each exactly as often as it is stored:
  the reported entries are, as a multiset, the union of the entries of the reachable directories
  without \<open>.\<close> and \<open>..\<close>.
\<close>

theorem fat_walk_reports_every_entry_once:
  assumes "byte_reader src lawful pos content" and "fat_wf f" and "lawful s" and "fat_ids_ok f"
    and "R = {d. reachable (fat_tree (content s) f) (root_directory f) d}" and "finite R" and "card R \<le> MAX_WALK_DEPTH"
    and "\<forall>d \<in> R. snd (file_entries (content s) d) = None"
  shows "\<exists>seen calls s'. walk_dir (fat_walk_ops src f) (root_directory f) {} s = Some (Ok (), seen, calls, s')
    \<and> mset calls = (\<Sum>d \<in> R. filter_mset visible_entry (mset (fst (file_entries (content s) d))))"
  using byte_reader.fat_walk_visits [OF assms(1-3)] fat_walkable [OF assms(4), of "content s"] assms(5-8) by auto

lemma floppy_visible:
  "visible_entry (floppy_entry ''D          '' a cl n)" "visible_entry (floppy_entry ''A       TXT'' a cl n)"
  "visible_entry (floppy_entry ''B       TXT'' a cl n)"
  "\<not> visible_entry (floppy_entry ''.          '' a cl n)" "\<not> visible_entry (floppy_entry ''..         '' a cl n)"
  by (simp_all add: visible_entry_def is_dot_or_dotdot_def floppy_entry_simps ascii_def)

lemma floppy_reachable:
  "{d. reachable (fat_tree floppy_bytes floppy_fat) (root_directory floppy_fat) d}
     = {root_directory floppy_fat, file_new floppy_fat (Some 4) True 0}"
proof -
  let ?t = "fat_tree floppy_bytes floppy_fat" and ?d = "file_new floppy_fat (Some 4) True 0"
  have t: "dir_target floppy_fat (floppy_entry ''D          '' 0x10 4 0) = ?d" by (simp add: dir_target_def floppy_entry_simps)
  have k: "traverse_kind (floppy_entry name 0x10 cl n) = EkDirectory" "traverse_kind (floppy_entry name 0x20 cl n) \<noteq> EkDirectory"
    for name cl n by (simp_all add: traverse_directory floppy_entry_simps)
  note v = floppy_visible
  have "d \<in> {root_directory floppy_fat, ?d}" if "reachable ?t (root_directory floppy_fat) d" for d
    using that by (induction rule: reachable.induct) (auto simp: keep_items_def floppy_entries k t v)
  moreover have "reachable ?t (root_directory floppy_fat) ?d"
    using reachable_child [OF reachable_root [of ?t "root_directory floppy_fat"], of "floppy_entry ''D          '' 0x10 4 0"]
    by (simp add: keep_items_def floppy_entries k t v)
  ultimately show ?thesis using reachable_root [of ?t] by auto
qed

theorem fat_walk_reports_every_entry_once_witness:
  "\<exists>seen calls s'. walk_dir (fat_walk_ops cursor_source floppy_fat) (root_directory floppy_fat) {} floppy = Some (Ok (), seen, calls, s')
     \<and> floppy_entry ''B       TXT'' 0x20 0 0 \<in> set calls \<and> length calls = 3"
proof -
  let ?R = "{root_directory floppy_fat, file_new floppy_fat (Some 4) True 0}"
  have ne: "root_directory floppy_fat \<noteq> file_new floppy_fat (Some 4) True 0"
    by (simp add: root_directory_def floppy_fat_def file_new_def)
  have ids: "fat_ids_ok floppy_fat" by (simp add: fat_ids_ok_def floppy_fat_def)
  have R: "?R = {d. reachable (fat_tree (cur_bytes floppy) floppy_fat) (root_directory floppy_fat) d}"
    using floppy_reachable by (simp add: floppy_def)
  have "card ?R \<le> MAX_WALK_DEPTH" using ne by (simp add: MAX_WALK_DEPTH_def)
  moreover have "\<forall>d \<in> ?R. snd (file_entries (cur_bytes floppy) d) = None" by (simp add: floppy_def floppy_entries)
  ultimately obtain seen calls s' where
    w: "walk_dir (fat_walk_ops cursor_source floppy_fat) (root_directory floppy_fat) {} floppy = Some (Ok (), seen, calls, s')"
    and "mset calls = (\<Sum>d \<in> ?R. filter_mset visible_entry (mset (fst (file_entries (cur_bytes floppy) d))))"
    using fat_walk_reports_every_entry_once [OF cursor.byte_reader_axioms floppy_fat_wf floppy_inv ids R] by auto
  then have m: "mset calls = {#floppy_entry ''A       TXT'' 0x20 2 600, floppy_entry ''D          '' 0x10 4 0,
      floppy_entry ''B       TXT'' 0x20 0 0#}"
    using ne by (simp add: floppy_def floppy_entries floppy_visible)
  have "floppy_entry ''B       TXT'' 0x20 0 0 \<in># mset calls" "size (mset calls) = 3" unfolding m by simp_all
  then show ?thesis using w by auto
qed

end
