(* ===== verification/Fat_Findings.thy ===== *)
theory Fat_Findings
  imports Fat_Sample
begin

text \<open>Two inputs on which the FAT driver does not do what it means to.\<close>

section \<open>A failed seek\<close>

text \<open>The sample volume, with the first cluster of the file marked bad in the table.\<close>

definition bad_link_bytes :: bytes where
  "bad_link_bytes = floppy_boot @ [0xF8, 0xFF, 0xFF, 0xF7, 0x0F] @ replicate 507 0 @ floppy_root @ replicate 512 0x41
     @ replicate 512 0x42 @ floppy_dir @ replicate 512 0"

definition bad_link_cursor :: "nat \<Rightarrow> cursor" where
  "bad_link_cursor p = \<lparr>cur_bytes = bad_link_bytes, cur_pos = p\<rparr>"

lemma length_bad_link: "length bad_link_bytes = 3584"
  by (simp add: bad_link_bytes_def length_floppy_boot length_floppy)

lemma bad_link: "fat_link 512 bad_link_bytes (file_geometry floppy_fat) 2 = Err (BadCluster 2)"
proof -
  have "slice bad_link_bytes 515 2 = [0xF7, 0x0F]" by (simp add: bad_link_bytes_def slice_def length_floppy_boot)
  then show ?thesis
    by (simp add: fat_link_def floppy_valid_cluster entry_position_def entry_offset_def entry_len_def floppy_geometry
        length_bad_link le_field_def entry_value_def entry_link_def end_mark_def)
qed

text \<open>
  A seek to the second cluster of the file fails, since the table does not lead there, but it has
  moved the stream position before it failed. A read then returns bytes of the first cluster as
  those of position 512.
\<close>

theorem failed_seek_misplaces_the_next_read:
  "\<exists>v p. fv_seek cursor_source (floppy_value, bad_link_cursor 0) (Start 512) = (Err (BadCluster 2), v, bad_link_cursor p)
     \<and> fv_stream_position v = 512 \<and> fst (fv_read cursor_source (v, bad_link_cursor p) 4) = Ok (slice bad_link_bytes 1536 4)"
proof -
  let ?v = "floppy_value\<lparr>fv_stream_position := 512\<rparr>"
  let ?bc = "\<lparr>bc_block_size = 512, bc_start = None, bc_bytes = []\<rparr>"
  have inv: "cursor_inv (bad_link_cursor p)" for p by (simp add: cursor_inv_def bad_link_cursor_def length_bad_link)
  have "cache_inv (cur_bytes (bad_link_cursor 0)) ?bc" by (simp add: cache_inv_def)
  from cursor.next_cluster_cached_link [OF fat_geometry_wf [OF floppy_fat_wf] this inv, of 2] obtain bc s where
    n: "next_cluster_cached cursor_source (file_geometry floppy_fat) 2 (?bc, bad_link_cursor 0) = (Err (BadCluster 2), bc, s)"
    "cur_bytes s = bad_link_bytes"
    using bad_link by (auto simp: bad_link_cursor_def)
  have s: "s = bad_link_cursor (cur_pos s)" using n(2) by (simp add: bad_link_cursor_def)
  have "advance_cluster cursor_source (?v, bad_link_cursor 0) = (Err (BadCluster 2), ?v\<lparr>fv_fat_cache := bc\<rparr>, s)"
    using n(1) by (simp add: advance_cluster_def floppy_value_def Let_def floppy_geometry)
  then have "fv_seek cursor_source (floppy_value, bad_link_cursor 0) (Start 512)
      = (Err (BadCluster 2), ?v\<lparr>fv_fat_cache := bc\<rparr>, bad_link_cursor (cur_pos s))"
    using s by (simp add: fv_seek_def seek_to_position_def Let_def seek_loop.simps seek_step_def floppy_value_def floppy_geometry
        sub_or_panic_def add64_def)
  moreover have "fst (fv_read cursor_source (?v\<lparr>fv_fat_cache := bc\<rparr>, bad_link_cursor p) 4) = Ok (slice bad_link_bytes 1536 4)" for p
    by (simp add: fv_read_def fv_remaining_def floppy_value_def read_loop.simps read_step_def Let_def floppy_geometry
        sub_or_panic_def read_cluster_def geometry_cluster_offset_def saturating_add32_def mul64_def add64_def add32_def
        cursor_seek_def cursor_read_def bad_link_cursor_def length_bad_link)
  ultimately show ?thesis by (intro exI conjI) (assumption, simp_all)
qed


section \<open>The largest cluster count\<close>

text \<open>A FAT32 boot sector that declares the largest number of sectors and no tables: all of them are clusters.\<close>

definition huge_boot :: bytes where
  "huge_boot = [0xEB, 0x58, 0x90] @ ascii ''MSDOS5.0'' @ [0, 2, 1] @ replicate 18 0 @ [0xFF, 0xFF, 0xFF, 0xFF]
     @ replicate 474 0 @ [0x55, 0xAA]"

lemma huge_boot_fields:
  "length huge_boot = 512" "slice huge_boot 510 2 = [0x55, 0xAA]" "slice huge_boot 3 8 = ascii ''MSDOS5.0''"
  "slice huge_boot 0x0B 25 = [0, 2, 1] @ replicate 18 0 @ [0xFF, 0xFF, 0xFF, 0xFF]" "slice huge_boot 0x24 54 = replicate 54 0"
  by (simp_all add: huge_boot_def ascii_def slice_def)

definition huge_bpb :: dos_bpb where
  "huge_bpb = \<lparr>bytes_per_sector = 512, sectors_per_cluster = 1, reserved_sectors = 0, num_fats = 0,
     root_entry_count = 0, total_sectors_16 = 0, media_descriptor = 0, sectors_per_fat_16 = 0,
     sectors_per_track = 0, num_heads = 0, hidden_sectors = 0, total_sectors_32 = 2 ^ 32 - 1\<rparr>"

lemma huge_bpb_parsed: "parse_dos_bpb (slice huge_boot 0x0B 25) = Some huge_bpb"
  unfolding huge_boot_fields by (simp add: parse_dos_bpb_def huge_bpb_def le_field_def slice_def)

lemma huge_accepted: "\<exists>f. fat_from_boot_sector huge_boot = Ok f \<and> f_total_clusters f = 2 ^ 32 - 1"
proof -
  obtain e where e: "fat32_boot_sector huge_boot = Some e" "sectors_per_fat_32 e = 0"
    by (simp add: fat32_boot_sector_def huge_boot_fields) (simp add: parse_fat32_ebpb_def le_field_def slice_def)
  have "fat_from_boot_sector huge_boot = new_fat32 huge_boot huge_bpb 512"
    by (simp add: fat_from_boot_sector_def huge_bpb_parsed le_field_def huge_boot_fields(2,3) BOOT_SIGNATURE_def)
      (simp add: huge_bpb_def ascii_def)
  then show ?thesis
    using e is_power_of_two_1
    by (simp add: new_fat32_def huge_bpb_def validate_sectors_per_cluster_def checked_mul32_def checked_add32_def
        bpb_total_sectors_def Let_def)
qed

text \<open>
  On it the direct lookup of a successor panics for every cluster, in its test against the largest
  cluster number, where the cached one answers.
\<close>

theorem direct_lookup_panics_at_the_largest_count:
  "\<exists>f. fat_from_boot_sector huge_boot = Ok f
     \<and> (\<forall>cl \<ge> 2. fst (next_cluster cursor_source f \<lparr>cur_bytes = huge_boot, cur_pos = 0\<rparr> cl) = Panic)
     \<and> returns (fst (next_cluster_cached cursor_source (file_geometry f) 2
         (\<lparr>bc_block_size = 512, bc_start = None, bc_bytes = []\<rparr>, \<lparr>cur_bytes = huge_boot, cur_pos = 0\<rparr>)))"
proof -
  obtain f where f: "fat_from_boot_sector huge_boot = Ok f" "f_total_clusters f = 2 ^ 32 - 1" using huge_accepted by blast
  have wf: "fat_wf f" using fat_from_boot_sector_answers [of huge_boot] f(1) by simp
  let ?s = "\<lparr>cur_bytes = huge_boot, cur_pos = 0\<rparr>" and ?bc = "\<lparr>bc_block_size = 512, bc_start = None, bc_bytes = []\<rparr>"
  have "cursor_inv ?s" by (simp add: cursor_inv_def huge_boot_fields)
  moreover have "cache_inv (cur_bytes ?s) ?bc" by (simp add: cache_inv_def)
  ultimately have "\<exists>st. next_cluster_cached cursor_source (file_geometry f) 2 (?bc, ?s) = (fat_link 512 huge_boot (file_geometry f) 2, st)"
    using cursor.next_cluster_cached_link [OF fat_geometry_wf [OF wf], of ?s ?bc 2] by auto
  moreover have "returns (fat_link 512 huge_boot (file_geometry f) 2)"
    by (simp add: fat_link_def Let_def entry_link_def)
  moreover have "fst (next_cluster cursor_source f ?s cl) = Panic" if "2 \<le> cl" for cl
    using that f(2) by (simp add: next_cluster_def add32_def)
  ultimately show ?thesis using f(1) by auto
qed

end
