(* ===== verification/Fat_Time.thy ===== *)
theory Fat_Time
  imports Fat_Dir
begin

text \<open>
  \<open>fs-fat/src/time.rs\<close>: the packed dates and times of FAT, their conversion to NT timestamps, and
  from the system clock. A \<open>SystemTime\<close> is its distance from the Unix epoch in nanoseconds. The
  conversions from the \<open>chrono\<close> and \<open>time\<close> packages read a date through its accessors; their results
  are the record \<open>date_time\<close>. Converting the system clock and back loses what is finer than ten
  milliseconds, and nothing else.
\<close>

section \<open>Packed dates\<close>

definition FAT_EPOCH_DIFFERENCE_IN_INTERVALS :: nat where
  "FAT_EPOCH_DIFFERENCE_IN_INTERVALS = 119600064000000000"

definition INTERVALS_PER_SECOND :: nat where "INTERVALS_PER_SECOND = 10000000"

definition INTERVALS_PER_MILLISECOND :: nat where "INTERVALS_PER_MILLISECOND = 10000"

record fat_time =
  ft_date :: u16
  ft_time :: u16
  ft_tenths :: u8

definition fat_time_new :: "u16 \<Rightarrow> u16 \<Rightarrow> u8 \<Rightarrow> fat_time" where
  "fat_time_new date time tenths = \<lparr>ft_date = date, ft_time = time, ft_tenths = tenths\<rparr>"

definition fat_time_from_date :: "u16 \<Rightarrow> fat_time" where
  "fat_time_from_date date = \<lparr>ft_date = date, ft_time = 0, ft_tenths = 0\<rparr>"

definition fat_time_default :: fat_time where
  "fat_time_default = fat_time_new 0x0021 0 0"

definition creation_time :: "fat_dir_entry \<Rightarrow> fat_time" where
  "creation_time e = fat_time_new (d_create_date (de_data e)) (d_create_time (de_data e))
     (d_create_time_tenths (de_data e))"

definition modification_time :: "fat_dir_entry \<Rightarrow> fat_time" where
  "modification_time e = fat_time_new (d_modify_date (de_data e)) (d_modify_time (de_data e)) 0"

definition access_date :: "fat_dir_entry \<Rightarrow> fat_time" where
  "access_date e = fat_time_from_date (d_access_date (de_data e))"

definition ft_year :: "fat_time \<Rightarrow> nat" where
  "ft_year t = 1980 + unat (drop_bit 9 (ft_date t) AND 0x7F)"

definition ft_month :: "fat_time \<Rightarrow> nat" where
  "ft_month t = unat (drop_bit 5 (ft_date t) AND 0x0F)"

definition ft_day :: "fat_time \<Rightarrow> nat" where
  "ft_day t = unat (ft_date t AND 0x1F)"

definition ft_hour :: "fat_time \<Rightarrow> nat" where
  "ft_hour t = unat (drop_bit 11 (ft_time t) AND 0x1F)"

definition ft_minute :: "fat_time \<Rightarrow> nat" where
  "ft_minute t = unat (drop_bit 5 (ft_time t) AND 0x3F)"

definition ft_second :: "fat_time \<Rightarrow> nat" where
  "ft_second t = (let base_seconds = unat ((ft_time t AND 0x1F) * 2)
     in if 100 \<le> unat (ft_tenths t) then base_seconds + 1 else base_seconds)"

definition ft_millisecond :: "fat_time \<Rightarrow> nat" where
  "ft_millisecond t = (let tenths_mod = (if 100 \<le> unat (ft_tenths t) then unat (ft_tenths t) - 100
       else unat (ft_tenths t)) in tenths_mod * 10)"

section \<open>NT timestamps\<close>

definition count_before :: "nat \<Rightarrow> nat" where
  "count_before year = (if year = 0 then 0 else let y = year - 1 in y div 4 - y div 100 + y div 400)"

definition count_leap_years :: "nat \<Rightarrow> nat \<Rightarrow> nat" where
  "count_leap_years start_year end_year =
     (if end_year \<le> start_year then 0 else count_before end_year - count_before start_year)"

definition is_leap_year :: "nat \<Rightarrow> bool" where
  "is_leap_year year \<longleftrightarrow> (4 dvd year \<and> \<not> 100 dvd year) \<or> 400 dvd year"

definition days_before_month :: "nat \<Rightarrow> bool \<Rightarrow> nat" where
  "days_before_month month is_leap =
     (if 12 < month then 0
      else if is_leap then [0, 0, 31, 60, 91, 121, 152, 182, 213, 244, 274, 305, 335] ! month
      else [0, 0, 31, 59, 90, 120, 151, 181, 212, 243, 273, 304, 334] ! month)"

definition days_since_fat_epoch :: "fat_time \<Rightarrow> nat" where
  "days_since_fat_epoch t = (let year = ft_year t; month = ft_month t; day = ft_day t;
       years_since_epoch = year - 1980; leap_years = count_leap_years 1980 year;
       days_from_years = years_since_epoch * 365 + leap_years;
       days_from_months = days_before_month month (is_leap_year year)
     in days_from_years + days_from_months + (day - 1))"

definition nt_timestamp :: "fat_time \<Rightarrow> nat" where
  "nt_timestamp t = (let days = days_since_fat_epoch t;
       seconds_in_day = ft_hour t * 3600 + ft_minute t * 60 + ft_second t;
       total_seconds = days * 86400 + seconds_in_day;
       intervals = total_seconds * INTERVALS_PER_SECOND + ft_millisecond t * INTERVALS_PER_MILLISECOND
     in FAT_EPOCH_DIFFERENCE_IN_INTERVALS + intervals)"

section \<open>Conversion into packed dates\<close>

text \<open>The fields are packed into disjoint bit ranges; narrowing to \<open>w\<close> bits is \<open>try_from\<close>.\<close>

definition narrow :: "nat \<Rightarrow> nat \<Rightarrow> (nat, fat_error) outcome" where
  "narrow w n = (if n < 2 ^ w then Ok n else Err InvalidTime)"

definition pack_date :: "nat \<Rightarrow> nat \<Rightarrow> nat \<Rightarrow> u16" where
  "pack_date year_offset month day =
     push_bit 9 (of_nat year_offset) OR push_bit 5 (of_nat month) OR of_nat day"

definition pack_time :: "nat \<Rightarrow> nat \<Rightarrow> nat \<Rightarrow> u16" where
  "pack_time hour minute second =
     push_bit 11 (of_nat hour) OR push_bit 5 (of_nat minute) OR of_nat (second div 2)"

definition pack_tenths :: "nat \<Rightarrow> nat \<Rightarrow> (u8, fat_error) outcome" where
  "pack_tenths second millis =
     and_then (narrow 8 (min (millis div 10) 99)) (\<lambda>subsecond_tenths.
     Ok (of_nat ((if second mod 2 = 1 then 100 else 0) + subsecond_tenths)))"

record date_time =
  dt_year :: int
  dt_month :: nat
  dt_day :: nat
  dt_hour :: nat
  dt_minute :: nat
  dt_second :: nat
  dt_millis :: nat

definition try_from_chrono :: "date_time \<Rightarrow> (fat_time, fat_error) outcome" where
  "try_from_chrono dt =
     (if dt_year dt < 1980 \<or> 2107 < dt_year dt then Err InvalidTime
      else and_then (narrow 16 (nat (dt_year dt - 1980))) (\<lambda>year_offset.
        and_then (narrow 16 (dt_month dt)) (\<lambda>month.
        and_then (narrow 16 (dt_day dt)) (\<lambda>day.
        and_then (narrow 16 (dt_hour dt)) (\<lambda>hour.
        and_then (narrow 16 (dt_minute dt)) (\<lambda>minute.
        and_then (narrow 16 (dt_second dt)) (\<lambda>second.
        and_then (pack_tenths second (dt_millis dt)) (\<lambda>tenths.
        Ok (fat_time_new (pack_date year_offset month day) (pack_time hour minute second) tenths)))))))))"

definition try_from_offset_date_time :: "date_time \<Rightarrow> (fat_time, fat_error) outcome" where
  "try_from_offset_date_time dt =
     (if dt_year dt < 1980 \<or> 2107 < dt_year dt then Err InvalidTime
      else and_then (narrow 16 (nat (dt_year dt - 1980))) (\<lambda>year_offset.
        and_then (pack_tenths (dt_second dt) (dt_millis dt)) (\<lambda>tenths.
        Ok (fat_time_new (pack_date year_offset (dt_month dt) (dt_day dt))
          (pack_time (dt_hour dt) (dt_minute dt) (dt_second dt)) tenths))))"

section \<open>The system clock\<close>

function ymd_year_loop :: "nat \<Rightarrow> nat \<Rightarrow> nat \<times> nat" where
  "ymd_year_loop days year = (let days_in_year = (if is_leap_year year then 366 else 365)
     in if days < days_in_year then (days, year) else ymd_year_loop (days - days_in_year) (year + 1))"
  by pat_completeness auto
termination by (relation "measure fst") (auto simp: Let_def split: if_splits)

declare ymd_year_loop.simps [simp del]

fun ymd_month_loop :: "nat list \<Rightarrow> nat \<Rightarrow> nat \<Rightarrow> nat \<times> nat" where
  "ymd_month_loop [] days month = (days, month)"
| "ymd_month_loop (dim # dims) days month =
     (if days < dim then (days, month) else ymd_month_loop dims (days - dim) (month + 1))"

definition days_in_months :: "bool \<Rightarrow> nat list" where
  "days_in_months is_leap = (if is_leap then [31, 29, 31, 30, 31, 30, 31, 31, 30, 31, 30, 31]
     else [31, 28, 31, 30, 31, 30, 31, 31, 30, 31, 30, 31])"

definition days_to_ymd :: "nat \<Rightarrow> nat \<times> nat \<times> nat" where
  "days_to_ymd days =
     (case ymd_year_loop days 1980 of (days, year) \<Rightarrow>
      case ymd_month_loop (days_in_months (is_leap_year year)) days 1 of (days, month) \<Rightarrow>
        (year, month, if days + 1 < 2 ^ 8 then days + 1 else 31))"

definition FAT_EPOCH_UNIX_SECONDS :: nat where "FAT_EPOCH_UNIX_SECONDS = 315532800"

type_synonym system_time = int

text \<open>\<open>duration_since(UNIX_EPOCH)\<close>, in nanoseconds.\<close>

definition since_unix_epoch :: "system_time \<Rightarrow> (nat, fat_error) outcome" where
  "since_unix_epoch st = (if st < 0 then Err InvalidTime else Ok (nat st))"

definition try_from_system_time :: "system_time \<Rightarrow> (fat_time, fat_error) outcome" where
  "try_from_system_time st =
     and_then (since_unix_epoch st) (\<lambda>nanos.
     let secs_since_unix = nanos div 1000000000
     in if secs_since_unix < FAT_EPOCH_UNIX_SECONDS then Err InvalidTime
      else let secs_since_fat = secs_since_unix - FAT_EPOCH_UNIX_SECONDS;
          days = secs_since_fat div 86400; time_of_day = secs_since_fat mod 86400
      in and_then (narrow 16 (nanos div 1000000 mod 1000)) (\<lambda>millis.
      and_then (narrow 8 (time_of_day div 3600)) (\<lambda>hour.
      and_then (narrow 8 (time_of_day mod 3600 div 60)) (\<lambda>minute.
      and_then (narrow 8 (time_of_day mod 60)) (\<lambda>second.
      and_then (narrow 32 days) (\<lambda>days.
      case days_to_ymd days of (year, month, day) \<Rightarrow>
        if 2107 < year then Err InvalidTime
        else and_then (narrow 16 (year - 1980)) (\<lambda>year_offset.
          and_then (pack_tenths second millis) (\<lambda>tenths.
          Ok (fat_time_new (pack_date year_offset month day) (pack_time hour minute second) tenths)))))))))"

section \<open>Calendar lemmas\<close>

lemma ymd_year_loop_unfold:
  "ymd_year_loop days year = (if days < (if is_leap_year year then 366 else 365) then (days, year)
     else ymd_year_loop (days - (if is_leap_year year then 366 else 365)) (year + 1))"
  by (subst ymd_year_loop.simps) (simp add: Let_def)

text \<open>The days from the epoch to a year.\<close>

definition year_start :: "nat \<Rightarrow> nat" where
  "year_start year = (year - 1980) * 365 + count_leap_years 1980 year"

lemma count_before_Suc: "0 < year \<Longrightarrow> count_before (year + 1) = count_before year + (if is_leap_year year then 1 else 0)"
proof -
  assume "0 < year"
  then obtain y where y: "year = y + 1" by (metis Suc_eq_plus1 gr0_implies_Suc)
  have step: "(y + 1) div k = y div k + (if k dvd y + 1 then 1 else 0)" for k :: nat
    using div_Suc [of y k] by (simp add: dvd_eq_mod_eq_0)
  have "100 dvd (y + 1) \<Longrightarrow> 4 dvd (y + 1)" "400 dvd (y + 1) \<Longrightarrow> 100 dvd (y + 1)" by presburger+
  moreover have "y div 100 \<le> y div 4" by (rule div_le_mono2) auto
  ultimately show ?thesis unfolding count_before_def y is_leap_year_def
    using step [of 4] step [of 100] step [of 400] by (auto simp: Let_def)
qed

lemma count_before_mono: "x \<le> y \<Longrightarrow> count_before x \<le> count_before y"
proof (induction y rule: dec_induct)
  case (step y)
  then show ?case using count_before_Suc [of y] by (cases "y = 0") (auto simp: count_before_def)
qed simp

lemma year_start_Suc:
  assumes "1980 \<le> year"
  shows "year_start (year + 1) = year_start year + (if is_leap_year year then 366 else 365)"
proof -
  have "count_before 1980 \<le> count_before year" by (rule count_before_mono [OF assms])
  then show ?thesis using assms count_before_Suc [of year]
    by (auto simp: year_start_def count_leap_years_def Suc_diff_le)
qed

lemma year_start_mono:
  assumes "1980 \<le> x" "x \<le> y"
  shows "year_start x \<le> year_start y"
  using assms(2)
proof (induction y rule: dec_induct)
  case (step y)
  then show ?case using year_start_Suc [of y] assms(1) by simp
qed simp

lemma year_start_values: "year_start 1980 = 0" "year_start 2108 = 46751"
  by (simp_all add: year_start_def count_leap_years_def count_before_def)

lemma ymd_year_loop_spec:
  assumes "ymd_year_loop days year = (d, y)" "1980 \<le> year"
  shows "year \<le> y \<and> year_start y + d = year_start year + days
    \<and> d < (if is_leap_year y then 366 else 365)"
  using assms
proof (induction days year rule: ymd_year_loop.induct)
  case (1 days year)
  let ?n = "if is_leap_year year then 366 else (365 :: nat)"
  show ?case
  proof (cases "days < ?n")
    case True
    then have "d = days" "y = year" using "1.prems"(1) by (simp_all only: ymd_year_loop_unfold [of days] if_True prod.inject)
    then show ?thesis using True by simp
  next
    case False
    then have "ymd_year_loop (days - ?n) (year + 1) = (d, y)" using "1.prems"(1) by (simp add: ymd_year_loop_unfold [of days])
    then show ?thesis using "1.IH" [OF refl False] "1.prems"(2) False year_start_Suc [of year] by simp
  qed
qed

lemma ymd_month_loop_nth:
  assumes "ymd_month_loop dims days month = (d, m)" "days < sum_list dims"
  shows "\<exists>k < length dims. m = month + k \<and> d < dims ! k \<and> sum_list (take k dims) + d = days"
  using assms
proof (induction dims days month rule: ymd_month_loop.induct)
  case (2 dim dims days month)
  show ?case
  proof (cases "days < dim")
    case False
    then obtain k where "k < length dims \<and> m = month + 1 + k \<and> d < dims ! k \<and> sum_list (take k dims) + d = days - dim"
      using 2 by (auto simp: less_diff_conv2)
    then show ?thesis using False by (intro exI [of _ "k + 1"]) auto
  qed (use 2 in auto)
qed simp

lemma days_before_month_sum:
  assumes "k < 12"
  shows "days_before_month (k + 1) leap = sum_list (take k (days_in_months leap)) \<and> days_in_months leap ! k \<le> 31"
proof -
  have "k \<in> set [0, 1, 2, 3, 4, 5, 6, 7, 8, 9, 10, 11]" using assms by (simp, arith)
  then show ?thesis by (cases leap) (auto simp: days_before_month_def days_in_months_def)
qed

lemma ymd_month_loop_spec:
  assumes "days < (if leap then 366 else 365)" "ymd_month_loop (days_in_months leap) days 1 = (d, m)"
  shows "1 \<le> m \<and> m \<le> 12 \<and> d < 31 \<and> days_before_month m leap + d = days"
proof -
  have "length (days_in_months leap) = 12" "sum_list (days_in_months leap) = (if leap then 366 else 365)"
    by (simp_all add: days_in_months_def)
  with ymd_month_loop_nth [OF assms(2)] assms(1) obtain k where
    "k < 12" "m = 1 + k" "d < days_in_months leap ! k" "sum_list (take k (days_in_months leap)) + d = days"
    by auto
  then show ?thesis using days_before_month_sum [of k leap] by simp
qed

lemma days_to_ymd_spec:
  assumes "days_to_ymd days = (y, m, d)"
  shows "1980 \<le> y \<and> 1 \<le> m \<and> m \<le> 12 \<and> 1 \<le> d \<and> d \<le> 31
    \<and> year_start y + days_before_month m (is_leap_year y) + (d - 1) = days
    \<and> (y \<le> 2107 \<longleftrightarrow> days < 46751)"
proof -
  obtain r y' where loop: "ymd_year_loop days 1980 = (r, y')" by fastforce
  obtain q m' where months: "ymd_month_loop (days_in_months (is_leap_year y')) r 1 = (q, m')" by fastforce
  note y = ymd_year_loop_spec [OF loop, simplified year_start_values, simplified]
  note mo = ymd_month_loop_spec [OF y [THEN conjunct2, THEN conjunct2] months]
  have eqs: "y = y'" "m = m'" "d = q + 1" using assms loop months mo by (auto simp: days_to_ymd_def)
  have "year_start y' + r < year_start (y' + 1)" using year_start_Suc [of y'] y by simp
  moreover have "y' \<le> 2107 \<Longrightarrow> year_start (y' + 1) \<le> year_start 2108" "2107 < y' \<Longrightarrow> year_start 2108 \<le> year_start y'"
    using y by (auto intro!: year_start_mono)
  ultimately show ?thesis using y mo eqs year_start_values by (cases "y' \<le> 2107") auto
qed

section \<open>Packing\<close>

text \<open>Three fields in one word: \<open>c\<close> in the low \<open>k\<close> bits, \<open>b\<close> in the next \<open>l\<close> and \<open>a\<close> above.\<close>

lemma packed_fields:
  fixes a b c :: nat
  assumes "c < 2 ^ k" "b < 2 ^ l" "a < 2 ^ j" "k + l + j \<le> 16"
  defines "w \<equiv> push_bit (k + l) (of_nat a) OR push_bit k (of_nat b) OR of_nat c :: u16"
  shows "unat (drop_bit (k + l) w AND mask j) = a" "unat (drop_bit k w AND mask l) = b" "unat (w AND mask k) = c"
proof -
  have fields: "take_bit k c = c" "take_bit l b = b" "take_bit j a = a"
    using assms(1-3) by (simp_all add: take_bit_nat_eq_self)
  have "drop_bit (k + l) v AND mask j = of_nat (take_bit j a)" "drop_bit k v AND mask l = of_nat (take_bit l b)"
    "v AND mask k = of_nat (take_bit k c)"
    if "v = push_bit (k + l) (of_nat (take_bit j a)) OR push_bit k (of_nat (take_bit l b)) OR of_nat (take_bit k c)" for v :: u16
    unfolding that using assms(4) by (auto intro!: bit_word_eqI simp: bit_simps)
  then have "drop_bit (k + l) w AND mask j = of_nat a" "drop_bit k w AND mask l = of_nat b" "w AND mask k = of_nat c"
    by (simp_all add: fields w_def)
  moreover have "(2 :: nat) ^ k \<le> 2 ^ 16" "(2 :: nat) ^ l \<le> 2 ^ 16" "(2 :: nat) ^ j \<le> 2 ^ 16"
    using assms(4) by (simp_all only: power_increasing_iff)
  then have "unat (of_nat a :: u16) = a" "unat (of_nat b :: u16) = b" "unat (of_nat c :: u16) = c"
    using assms(1-3) by (simp_all add: unat_of_nat)
  ultimately show "unat (drop_bit (k + l) w AND mask j) = a" "unat (drop_bit k w AND mask l) = b" "unat (w AND mask k) = c"
    by simp_all
qed

lemma ft_date_fields:
  assumes "y < 128" "m < 16" "d < 32"
  shows "ft_year (fat_time_new (pack_date y m d) t s) = 1980 + y"
    "ft_month (fat_time_new (pack_date y m d) t s) = m"
    "ft_day (fat_time_new (pack_date y m d) t s) = d"
  using packed_fields [of d 5 m 4 y 7] assms
  by (simp_all add: ft_year_def ft_month_def ft_day_def fat_time_new_def pack_date_def mask_numeral)

lemma ft_time_fields:
  assumes "h < 32" "m < 64" "s < 60" "ms < 1000"
    and t: "t = fat_time_new date (pack_time h m s) (of_nat ((if s mod 2 = 1 then 100 else 0) + ms div 10))"
  shows "ft_hour t = h" "ft_minute t = m" "ft_second t = s" "ft_millisecond t = ms div 10 * 10"
proof -
  have p: "unat (drop_bit 11 (pack_time h m s) AND 0x1F) = h" "unat (drop_bit 5 (pack_time h m s) AND 0x3F) = m"
    "unat (pack_time h m s AND 0x1F) = s div 2"
    using packed_fields [of "s div 2" 5 m 6 h 5] assms(1-3) by (simp_all add: pack_time_def mask_numeral)
  have halves: "s mod 2 = 1 \<Longrightarrow> s div 2 * 2 + 1 = s" "s mod 2 \<noteq> 1 \<Longrightarrow> s div 2 * 2 = s" by presburger+
  have "unat ((pack_time h m s AND 0x1F) * 2) = s div 2 * 2"
    using p(3) assms(3) by (simp add: unat_word_ariths)
  moreover have "ms div 10 < 100" using assms(4) by simp
  then have "unat (of_nat ((if s mod 2 = 1 then 100 else 0) + ms div 10) :: u8) = (if s mod 2 = 1 then 100 else 0) + ms div 10"
    by (auto simp: unat_of_nat simp del: of_nat_add)
  ultimately show "ft_hour t = h" "ft_minute t = m" "ft_second t = s" "ft_millisecond t = ms div 10 * 10"
    using p \<open>ms div 10 < 100\<close> halves
    by (auto simp: t fat_time_new_def ft_hour_def ft_minute_def ft_second_def ft_millisecond_def Let_def split: if_splits)
qed

lemma nt_timestamp_of_parts:
  assumes "days_to_ymd days = (y, m, d)" "y \<le> 2107" "tod < 86400" "ms < 1000"
    and t: "t = fat_time_new (pack_date (y - 1980) m d) (pack_time (tod div 3600) (tod mod 3600 div 60) (tod mod 60))
      (of_nat ((if tod mod 60 mod 2 = 1 then 100 else 0) + ms div 10))"
  shows "nt_timestamp t = 119600064000000000 + (days * 86400 + tod) * 10000000 + ms div 10 * 100000"
proof -
  note ymd = days_to_ymd_spec [OF assms(1)]
  have date: "ft_year t = y" "ft_month t = m" "ft_day t = d"
    using ft_date_fields [of "y - 1980" m d] ymd assms(2) by (simp_all add: t)
  have "tod div 3600 < 32" "tod mod 3600 div 60 < 64" "tod mod 60 < 60" using assms(3) by (simp_all add: less_mult_imp_div_less)
  note time = ft_time_fields [OF this assms(4) t]
  have "days_since_fat_epoch t = days" using ymd by (auto simp: days_since_fat_epoch_def date year_start_def Let_def)
  moreover have "tod mod 3600 mod 60 = tod mod 60" by (rule mod_mod_cancel) simp
  then have "tod div 3600 * 3600 + tod mod 3600 div 60 * 60 + tod mod 60 = tod"
    using div_mult_mod_eq [of tod 3600] div_mult_mod_eq [of "tod mod 3600" 60] by linarith
  ultimately show ?thesis
    by (simp add: nt_timestamp_def time Let_def INTERVALS_PER_SECOND_def INTERVALS_PER_MILLISECOND_def
        FAT_EPOCH_DIFFERENCE_IN_INTERVALS_def)
qed

lemma tenths_split: "n div 1000000000 * 100 + n div 1000000 mod 1000 div 10 = n div 10000000" for n :: nat
proof -
  have "n div 1000000 = 1000 * (n div 1000000000) + n div 1000000 mod 1000"
    using mult_div_mod_eq [of 1000 "n div 1000000"] by (simp add: div_mult2_eq [symmetric])
  moreover have "n div 10000000 = n div 1000000 div 10" by (simp add: div_mult2_eq [symmetric])
  moreover have "(1000 * a + r) div 10 = 100 * a + r div 10" for a r :: nat
    using div_mult_self4 [of 10 "100 * a" r] by simp
  ultimately show ?thesis by (metis mult.commute)
qed

lemma epochs_differ:
  "b = a + 315532800 \<Longrightarrow> e = b * 100 + c
    \<Longrightarrow> 119600064000000000 + a * 10000000 + c * 100000 = 116444736000000000 + e * 100000" for a b c e :: nat
  by (simp add: distrib_right)

lemma try_from_system_time_parts:
  assumes "st = int nanos" "FAT_EPOCH_UNIX_SECONDS \<le> nanos div 1000000000"
    and secs: "secs = nanos div 1000000000 - FAT_EPOCH_UNIX_SECONDS" and tod: "tod = secs mod 86400"
    and ms: "ms = nanos div 1000000 mod 1000" and ymd: "days_to_ymd (secs div 86400) = (y, m, d)"
  shows "try_from_system_time st = (if secs div 86400 < 2 ^ 32 \<and> y \<le> 2107
      then Ok (fat_time_new (pack_date (y - 1980) m d) (pack_time (tod div 3600) (tod mod 3600 div 60) (tod mod 60))
        (of_nat ((if tod mod 60 mod 2 = 1 then 100 else 0) + ms div 10)))
      else Err InvalidTime)"
proof -
  have "ms < 1000" by (simp add: ms)
  then have "ms < 2 ^ 16" "ms div 10 < 2 ^ 8" "min (ms div 10) 99 = ms div 10" by simp_all
  moreover have "tod < 86400" "tod mod 3600 < 3600" "tod mod 60 < 60" by (simp_all add: tod)
  then have "tod div 3600 < 2 ^ 8" "tod mod 3600 div 60 < 2 ^ 8" "tod mod 60 < 2 ^ 8"
    by (auto intro: div_less_iff_less_mult [THEN iffD2])
  ultimately have narrows: "narrow 16 ms = Ok ms" "narrow 8 (tod div 3600) = Ok (tod div 3600)"
    "narrow 8 (tod mod 3600 div 60) = Ok (tod mod 3600 div 60)" "narrow 8 (tod mod 60) = Ok (tod mod 60)"
    "pack_tenths (tod mod 60) ms = Ok (of_nat ((if tod mod 60 mod 2 = 1 then 100 else 0) + ms div 10))"
    by (simp_all only: narrow_def pack_tenths_def if_True and_then.simps)
  have "y \<le> 2107 \<Longrightarrow> narrow 16 (y - 1980) = Ok (y - 1980)" by (simp add: narrow_def)
  with narrows show ?thesis using assms(1,2) ymd
    by (cases "y \<le> 2107"; cases "secs div 86400 < 2 ^ 32";
        simp add: try_from_system_time_def since_unix_epoch_def Let_def narrow_def [of 32]
        secs [symmetric] ms [symmetric] tod [symmetric] del: of_nat_add)
qed

text \<open>
  C34: converting the system clock succeeds exactly from 1980 up to the end of 2107, and fails with
  an error outside; the date it gives is the same instant as an NT timestamp, cut to ten
  milliseconds.
\<close>

theorem fat_time_of_system_time:
  "case try_from_system_time st of
     Ok t \<Rightarrow> 315532800 * 10 ^ 9 \<le> st \<and> st < 4354819200 * 10 ^ 9
       \<and> int (nt_timestamp t) = 116444736000000000 + st div 10 ^ 7 * 10 ^ 5
   | Err e \<Rightarrow> e = InvalidTime \<and> (st < 315532800 * 10 ^ 9 \<or> 4354819200 * 10 ^ 9 \<le> st)
   | _ \<Rightarrow> False"
proof (cases "st < 315532800 * 10 ^ 9")
  case True
  then have "nat st div 1000000000 < FAT_EPOCH_UNIX_SECONDS"
    by (simp add: FAT_EPOCH_UNIX_SECONDS_def less_mult_imp_div_less nat_less_iff)
  then show ?thesis using True by (simp add: try_from_system_time_def since_unix_epoch_def Let_def)
next
  case False
  define nanos where "nanos = nat st"
  define secs where "secs = nanos div 1000000000 - FAT_EPOCH_UNIX_SECONDS"
  obtain y m d where ymd: "days_to_ymd (secs div 86400) = (y, m, d)" by (metis prod_cases3)
  have st: "st = int nanos" "315532800 \<le> nanos div 1000000000" using False by (auto simp: nanos_def)
  have secs: "secs div 86400 * 86400 + secs mod 86400 + 315532800 = nanos div 1000000000"
    using st(2) by (simp add: secs_def FAT_EPOCH_UNIX_SECONDS_def)
  note run = try_from_system_time_parts [OF st(1) _ secs_def refl refl ymd]
  have "secs mod 86400 < 86400" by simp
  then have "secs div 86400 < 46751 \<longleftrightarrow> nanos div 1000000000 < 4354819200" using secs by linarith
  then have range: "y \<le> 2107 \<longleftrightarrow> nanos < 4354819200 * 10 ^ 9"
    using days_to_ymd_spec [OF ymd] by (simp add: div_less_iff_less_mult)
  show ?thesis
  proof (cases "nanos < 4354819200 * 10 ^ 9")
    case True
    then have "y \<le> 2107" "secs div 86400 < 2 ^ 32" using range days_to_ymd_spec [OF ymd] by auto
    then have "\<exists>t. try_from_system_time st = Ok t \<and> nt_timestamp t = 119600064000000000
        + (secs div 86400 * 86400 + secs mod 86400) * 10000000 + nanos div 1000000 mod 1000 div 10 * 100000"
      using run st(2) nt_timestamp_of_parts [OF ymd _ _ _ refl, of "secs mod 86400" "nanos div 1000000 mod 1000"]
      by (simp add: FAT_EPOCH_UNIX_SECONDS_def)
    then obtain t where "try_from_system_time st = Ok t"
      "nt_timestamp t = 116444736000000000 + nanos div 10000000 * 100000"
      using epochs_differ [OF secs [symmetric] tenths_split [symmetric]] by metis
    then show ?thesis using True False st by (simp add: zdiv_int)
  next
    case False
    then show ?thesis using run range st by (auto simp: FAT_EPOCH_UNIX_SECONDS_def)
  qed
qed

end
