(* ===== verification/Partition_Table.thy ===== *)
theory Partition_Table
  imports Byte_Source
begin

text \<open>
  \<open>fsmnt-parser-core/src/partition.rs\<close>: the structures of MBR and GPT partition tables, the tests on
  them, the byte extents they describe, and the readers of a GPT header and of its entries. Integers
  are little-endian fields of fixed width, kept as natural numbers; the unchecked arithmetic of the
  source panics when it overflows.
\<close>

section \<open>MBR\<close>

definition MBR_SIGNATURE :: nat where "MBR_SIGNATURE = 0xAA55"

definition GPT_SIGNATURE :: nat where "GPT_SIGNATURE = 0x5452415020494645"

definition MBR_ENTRY_SIZE :: nat where "MBR_ENTRY_SIZE = 16"

definition GPT_ENTRY_SIZE :: nat where "GPT_ENTRY_SIZE = 128"

definition MBR_TYPE_GPT_PROTECTIVE :: nat where "MBR_TYPE_GPT_PROTECTIVE = 0xEE"

definition MBR_TYPES_EXTENDED :: "nat list" where "MBR_TYPES_EXTENDED = [0x05, 0x0F, 0x85]"

record mbr_partition_entry =
  boot_indicator :: nat
  start_head :: nat
  start_sector_cylinder :: bytes
  partition_type :: nat
  end_head :: nat
  end_sector_cylinder :: bytes
  me_start_lba :: nat
  sector_count :: nat

definition parse_mbr_entry :: "bytes \<Rightarrow> mbr_partition_entry" where
  "parse_mbr_entry bs =
     \<lparr>boot_indicator = le_field bs 0 1, start_head = le_field bs 1 1, start_sector_cylinder = slice bs 2 2,
      partition_type = le_field bs 4 1, end_head = le_field bs 5 1, end_sector_cylinder = slice bs 6 2,
      me_start_lba = le_field bs 8 4, sector_count = le_field bs 12 4\<rparr>"

definition me_is_empty :: "mbr_partition_entry \<Rightarrow> bool" where
  "me_is_empty e \<longleftrightarrow> partition_type e = 0"

definition me_is_gpt_protective :: "mbr_partition_entry \<Rightarrow> bool" where
  "me_is_gpt_protective e \<longleftrightarrow> partition_type e = MBR_TYPE_GPT_PROTECTIVE"

definition is_extended :: "mbr_partition_entry \<Rightarrow> bool" where
  "is_extended e \<longleftrightarrow> partition_type e \<in> set MBR_TYPES_EXTENDED"

definition me_start_offset :: "mbr_partition_entry \<Rightarrow> nat \<Rightarrow> (nat, 'e) outcome" where
  "me_start_offset e bytes_per_sector = mul64 (me_start_lba e) bytes_per_sector"

definition me_size_bytes :: "mbr_partition_entry \<Rightarrow> nat \<Rightarrow> (nat, 'e) outcome" where
  "me_size_bytes e bytes_per_sector = mul64 (sector_count e) bytes_per_sector"

record mbr =
  mbr_boot_code :: bytes
  mbr_entries :: "mbr_partition_entry list"
  mbr_signature :: nat

definition mbr_from_bytes :: "bytes \<Rightarrow> mbr option" where
  "mbr_from_bytes data =
     (if length data < 512 then None
      else Some \<lparr>mbr_boot_code = slice data 0 446,
        mbr_entries = map (\<lambda>i. parse_mbr_entry (slice data (446 + i * MBR_ENTRY_SIZE) MBR_ENTRY_SIZE)) [0 ..< 4],
        mbr_signature = le_field data 510 2\<rparr>)"

definition mbr_is_valid :: "mbr \<Rightarrow> bool" where
  "mbr_is_valid m \<longleftrightarrow> mbr_signature m = MBR_SIGNATURE"

definition mbr_is_gpt_protective :: "mbr \<Rightarrow> bool" where
  "mbr_is_gpt_protective m \<longleftrightarrow> mbr_is_valid m \<and> me_is_gpt_protective (mbr_entries m ! 0)"

definition valid_partitions :: "mbr \<Rightarrow> mbr_partition_entry list" where
  "valid_partitions m = filter (\<lambda>p. \<not> me_is_empty p) (mbr_entries m)"

text \<open>The loop of \<open>is_plausible_table\<close>; the extents are those of the entries before.\<close>

fun plausible_entries :: "(nat \<times> nat) list \<Rightarrow> mbr_partition_entry list \<Rightarrow> bool" where
  "plausible_entries extents [] = True"
| "plausible_entries extents (e # es) =
     (if me_is_empty e then plausible_entries extents es
      else if boot_indicator e \<noteq> 0x00 \<and> boot_indicator e \<noteq> 0x80 then False
      else let start = me_start_lba e; sectors = sector_count e in
        if start = 0 \<or> sectors = 0 then False
        else let fin = saturating_add64 start sectors in
          if list_ex (\<lambda>(other_start, other_end). start < other_end \<and> other_start < fin) extents then False
          else plausible_entries (extents @ [(start, fin)]) es)"

definition is_plausible_table :: "mbr \<Rightarrow> bool" where
  "is_plausible_table m = plausible_entries [] (mbr_entries m)"

definition mbr_type_name :: "mbr_partition_entry \<Rightarrow> string option" where
  "mbr_type_name e =
     (let t = partition_type e in
      if t = 0x05 then Some ''Extended (CHS)'' else if t = 0x07 then Some ''NTFS/HPFS/exFAT''
      else if t = 0x0B then Some ''FAT32 (CHS)'' else if t = 0x0C then Some ''FAT32 (LBA)''
      else if t = 0x0E then Some ''FAT16 (LBA)'' else if t = 0x0F then Some ''Extended (LBA)''
      else if t = 0x4D then Some ''QNX4.x'' else if t = 0x83 then Some ''Linux''
      else if t = 0x82 then Some ''Linux Swap'' else if t = 0x85 then Some ''Extended (Linux)''
      else if 0xB1 \<le> t \<and> t \<le> 0xB3 then Some ''QNX6 Power-Safe''
      else if t = 0xEE then Some ''GPT Protective'' else if t = 0xEF then Some ''EFI System'' else None)"


section \<open>GPT\<close>

record gpt_header =
  gh_signature :: nat
  gh_revision :: nat
  gh_header_size :: nat
  gh_header_crc32 :: nat
  gh_reserved :: nat
  gh_current_lba :: nat
  gh_backup_lba :: nat
  gh_first_usable_lba :: nat
  gh_last_usable_lba :: nat
  gh_disk_guid :: bytes
  gh_partition_entry_lba :: nat
  gh_num_partition_entries :: nat
  gh_partition_entry_size :: nat
  gh_partition_entries_crc32 :: nat

definition gpt_header_from_bytes :: "bytes \<Rightarrow> gpt_header option" where
  "gpt_header_from_bytes data =
     (if length data < 92 then None
      else Some \<lparr>gh_signature = le_field data 0 8, gh_revision = le_field data 8 4,
        gh_header_size = le_field data 12 4, gh_header_crc32 = le_field data 16 4, gh_reserved = le_field data 20 4,
        gh_current_lba = le_field data 24 8, gh_backup_lba = le_field data 32 8,
        gh_first_usable_lba = le_field data 40 8, gh_last_usable_lba = le_field data 48 8,
        gh_disk_guid = slice data 56 16, gh_partition_entry_lba = le_field data 72 8,
        gh_num_partition_entries = le_field data 80 4, gh_partition_entry_size = le_field data 84 4,
        gh_partition_entries_crc32 = le_field data 88 4\<rparr>)"

definition gh_is_valid :: "gpt_header \<Rightarrow> bool" where
  "gh_is_valid h \<longleftrightarrow> gh_signature h = GPT_SIGNATURE"

record gpt_partition_entry =
  type_guid :: bytes
  partition_guid :: bytes
  ge_start_lba :: nat
  ge_end_lba :: nat
  ge_attributes :: nat
  ge_name :: bytes

definition NULL_GUID :: bytes where "NULL_GUID = replicate 16 0"

definition gpt_entry_from_bytes :: "bytes \<Rightarrow> gpt_partition_entry option" where
  "gpt_entry_from_bytes data =
     (if length data < 128 then None
      else Some \<lparr>type_guid = slice data 0 16, partition_guid = slice data 16 16, ge_start_lba = le_field data 32 8,
        ge_end_lba = le_field data 40 8, ge_attributes = le_field data 48 8, ge_name = slice data 56 72\<rparr>)"

definition ge_is_empty :: "gpt_partition_entry \<Rightarrow> bool" where
  "ge_is_empty e \<longleftrightarrow> type_guid e = NULL_GUID"

definition ge_start_offset :: "gpt_partition_entry \<Rightarrow> nat \<Rightarrow> (nat, 'e) outcome" where
  "ge_start_offset e bytes_per_sector = mul64 (ge_start_lba e) bytes_per_sector"

definition ge_size_bytes :: "gpt_partition_entry \<Rightarrow> nat \<Rightarrow> (nat, 'e) outcome" where
  "ge_size_bytes e bytes_per_sector =
     and_then (sub_or_panic (ge_end_lba e) (ge_start_lba e)) (\<lambda>d.
     and_then (add64 d 1) (\<lambda>n. mul64 n bytes_per_sector))"

definition EFI_SYSTEM_GUID :: bytes where
  "EFI_SYSTEM_GUID = [0x28, 0x73, 0x2A, 0xC1, 0x1F, 0xF8, 0xD2, 0x11, 0xBA, 0x4B, 0x00, 0xA0, 0xC9, 0x3E, 0xC9, 0x3B]"

definition MICROSOFT_BASIC_DATA_GUID :: bytes where
  "MICROSOFT_BASIC_DATA_GUID =
     [0xA2, 0xA0, 0xD0, 0xEB, 0xE5, 0xB9, 0x33, 0x44, 0x87, 0xC0, 0x68, 0xB6, 0xB7, 0x26, 0x99, 0xC7]"

definition MICROSOFT_RESERVED_GUID :: bytes where
  "MICROSOFT_RESERVED_GUID =
     [0x16, 0xE3, 0xC9, 0xE3, 0x5C, 0x0B, 0xB8, 0x4D, 0x81, 0x7D, 0xF9, 0x2D, 0xF0, 0x02, 0x15, 0xAE]"

definition WINDOWS_RECOVERY_GUID :: bytes where
  "WINDOWS_RECOVERY_GUID =
     [0xA4, 0xBB, 0x94, 0xDE, 0xD1, 0x06, 0x40, 0x4D, 0xA1, 0x6A, 0xBF, 0xD5, 0x01, 0x79, 0xD6, 0xAC]"

definition LINUX_FILESYSTEM_GUID :: bytes where
  "LINUX_FILESYSTEM_GUID =
     [0xAF, 0x3D, 0xC6, 0x0F, 0x83, 0x84, 0x72, 0x47, 0x8E, 0x79, 0x3D, 0x69, 0xD8, 0x47, 0x7D, 0xE4]"

definition gpt_type_name :: "gpt_partition_entry \<Rightarrow> string option" where
  "gpt_type_name e =
     (let g = type_guid e in
      if g = EFI_SYSTEM_GUID then Some ''EFI System''
      else if g = MICROSOFT_BASIC_DATA_GUID then Some ''Basic Data (NTFS/FAT)''
      else if g = MICROSOFT_RESERVED_GUID then Some ''Microsoft Reserved''
      else if g = WINDOWS_RECOVERY_GUID then Some ''Windows Recovery''
      else if g = LINUX_FILESYSTEM_GUID then Some ''Linux filesystem'' else None)"

definition read_gpt_header :: "'s source \<Rightarrow> nat \<Rightarrow> 's \<Rightarrow> (gpt_header, io_error) outcome \<times> 's" where
  "read_gpt_header src sector_size s =
     and_do (read_exact_from src s sector_size 92) (\<lambda>buffer s.
     and_do (ok_or InvalidData (gpt_header_from_bytes buffer), s) (\<lambda>header s.
       if \<not> gh_is_valid header then (Err InvalidData, s) else (Ok header, s)))"

primrec read_entries ::
  "'s source \<Rightarrow> nat \<Rightarrow> nat \<Rightarrow> gpt_partition_entry list \<Rightarrow> 's \<Rightarrow> (gpt_partition_entry list, io_error) outcome \<times> 's" where
  "read_entries src entry_size 0 partitions s = (Ok partitions, s)"
| "read_entries src entry_size (Suc n) partitions s =
     and_do (read_exact src s entry_size) (\<lambda>buffer s.
       read_entries src entry_size n
         (if GPT_ENTRY_SIZE \<le> length buffer
          then case gpt_entry_from_bytes (take GPT_ENTRY_SIZE buffer) of
              Some e \<Rightarrow> if \<not> ge_is_empty e then partitions @ [e] else partitions
            | None \<Rightarrow> partitions
          else partitions) s)"

definition read_gpt_partitions ::
  "'s source \<Rightarrow> gpt_header \<Rightarrow> nat \<Rightarrow> 's \<Rightarrow> (gpt_partition_entry list, io_error) outcome \<times> 's" where
  "read_gpt_partitions src header sector_size s =
     and_do (mul64 (gh_partition_entry_lba header) sector_size, s) (\<lambda>p s.
     and_do (do_seek src s (Start p)) (\<lambda>_ s.
       read_entries src (gh_partition_entry_size header) (gh_num_partition_entries header) [] s))"

end
