(* ===== verification/Boot_Detection.thy ===== *)
theory Boot_Detection
  imports Boot_Sector Partition_Table Qnx6_Checks
begin

text \<open>
  \<open>fsmnt-parser-core/src/boot_sector/detection.rs\<close>, with the probes of \<open>boot_sector/mod.rs\<close> and
  \<open>boot_sector/ext.rs\<close>: what a volume or disk holds, from its first bytes. A buffer that is too
  short for an index is a panic of the model, so that the length tests of the source matter; that
  detection never panics is a theorem.
\<close>

unbundle bit_operations_syntax

section \<open>Results\<close>

datatype filesystem_type = FsFat12 | FsFat16 | FsFat32 | FsNtfs | FsExFat | FsHpfs | FsUnknown

datatype detected_boot_sector = DetNtfs | DetFat12 | DetFat16 | DetFat32 | DetExFat | DetExt | DetApfs
  | DetBtrfs | DetQnx6 | DetBitLocker | DetMbrPartitioned | DetGptPartitioned | DetUnknown

datatype boot_sector_unknown_reason =
    BufferTooSmall
  | AllZeroes
  | InvalidSignature
  | CorruptedStructure
  | UnsupportedFilesystem filesystem_type
  | UnknownFilesystem (ntfs_oem_hint: bool) (exfat_hint: bool) (bitlocker_hint: bool) (mbr_layout_hint: bool)

datatype boot_sector_diagnosis = Detected detected_boot_sector | Undetected boot_sector_unknown_reason

datatype parsed_boot_sector =
    ParsedFat12 boot_sector_header dos_bpb fat16_ebpb bytes
  | ParsedFat16 boot_sector_header dos_bpb fat16_ebpb bytes
  | ParsedFat32 boot_sector_header dos_bpb fat32_ebpb bytes
  | ParsedNtfs boot_sector_header dos_bpb ntfs_ebpb bytes
  | ParsedBitLocker boot_sector_header dos_bpb nat nat bytes
  | ParsedExFat exfat_boot_sector
  | ParsedHpfs boot_sector_header dos_bpb fat16_ebpb bytes
  | ParsedMbr mbr
  | ParsedGpt mbr

datatype parse_error = PeBufferTooSmall | PeInvalidBootSignature | PeInvalidBytesPerSector
  | PeUnknownFilesystem | PeParseFailed

definition is_filesystem :: "detected_boot_sector \<Rightarrow> bool" where
  "is_filesystem d \<longleftrightarrow>
     d \<in> {DetNtfs, DetFat12, DetFat16, DetFat32, DetExFat, DetExt, DetApfs, DetBtrfs, DetQnx6}"

definition is_partition_table :: "detected_boot_sector \<Rightarrow> bool" where
  "is_partition_table d \<longleftrightarrow> d \<in> {DetMbrPartitioned, DetGptPartitioned}"


section \<open>Superblock probes\<close>

definition APFS_NX_MAGIC :: nat where "APFS_NX_MAGIC = le_nat (ascii ''NXSB'')"

definition APFS_NX_MAGIC_OFFSET :: nat where "APFS_NX_MAGIC_OFFSET = 0x20"

definition APFS_OBJECT_TYPE_OFFSET :: nat where "APFS_OBJECT_TYPE_OFFSET = 0x18"

definition APFS_NX_BLOCK_SIZE_OFFSET :: nat where "APFS_NX_BLOCK_SIZE_OFFSET = 0x24"

definition APFS_PROBE_MIN_LEN :: nat where "APFS_PROBE_MIN_LEN = APFS_NX_BLOCK_SIZE_OFFSET + 4"

definition probe_apfs :: "bytes \<Rightarrow> (bool, 'e) outcome" where
  "probe_apfs buf =
     (if length buf < APFS_PROBE_MIN_LEN then Ok False
      else
        and_then (le_at buf APFS_NX_MAGIC_OFFSET 4) (\<lambda>magic.
        if magic \<noteq> APFS_NX_MAGIC then Ok False
        else and_then (le_at buf APFS_OBJECT_TYPE_OFFSET 4) (\<lambda>object_type.
        if object_type AND 0x0000FFFF \<noteq> 0x00000001 then Ok False
        else and_then (le_at buf APFS_NX_BLOCK_SIZE_OFFSET 4) (\<lambda>block_size.
          Ok (is_power_of_two block_size \<and> 512 \<le> block_size \<and> block_size \<le> 65536)))))"

definition BTRFS_PRIMARY_SUPERBLOCK_OFFSET :: nat where "BTRFS_PRIMARY_SUPERBLOCK_OFFSET = 0x10000"

definition BTRFS_SUPERBLOCK_PROBE_SIZE :: nat where "BTRFS_SUPERBLOCK_PROBE_SIZE = 0x94 + 4"

definition BTRFS_SUPERBLOCK_MAGIC :: bytes where "BTRFS_SUPERBLOCK_MAGIC = ascii ''_BHRfS_M''"

definition is_btrfs_primary_superblock :: "bytes \<Rightarrow> (bool, 'e) outcome" where
  "is_btrfs_primary_superblock buf =
     (if length buf < BTRFS_SUPERBLOCK_PROBE_SIZE then Ok False
      else
        and_then (subslice buf 0x40 (0x40 + length BTRFS_SUPERBLOCK_MAGIC)) (\<lambda>magic.
        if magic \<noteq> BTRFS_SUPERBLOCK_MAGIC then Ok False
        else and_then (le_at buf 0x30 8) (\<lambda>self_address.
        if self_address \<noteq> BTRFS_PRIMARY_SUPERBLOCK_OFFSET then Ok False
        else and_then (le_at buf 0x70 8) (\<lambda>total_bytes.
        and_then (le_at buf 0x78 8) (\<lambda>bytes_used.
        if total_bytes < BTRFS_PRIMARY_SUPERBLOCK_OFFSET + 0x1000 \<or> total_bytes < bytes_used then Ok False
        else and_then (le_at buf 0x88 8) (\<lambda>num_devices.
        if num_devices = 0 then Ok False
        else and_then (le_at buf 0x90 4) (\<lambda>sector_size.
        if \<not> is_power_of_two sector_size \<or> \<not> (4096 \<le> sector_size \<and> sector_size \<le> 65536) then Ok False
        else and_then (le_at buf 0x94 4) (\<lambda>node_size.
          Ok (is_power_of_two node_size \<and> sector_size \<le> node_size \<and> node_size \<le> 65536)))))))))"

definition probe_btrfs_volume :: "bytes \<Rightarrow> (bool, 'e) outcome" where
  "probe_btrfs_volume buf =
     (if BTRFS_PRIMARY_SUPERBLOCK_OFFSET \<le> length buf
      then is_btrfs_primary_superblock (drop BTRFS_PRIMARY_SUPERBLOCK_OFFSET buf) else Ok False)"

definition EXT_SUPERBLOCK_OFFSET :: nat where "EXT_SUPERBLOCK_OFFSET = 1024"

definition SB_S_BLOCK_GROUP_NR :: nat where "SB_S_BLOCK_GROUP_NR = 0x5A"

definition EXT_PROBE_MIN_LEN :: nat where
  "EXT_PROBE_MIN_LEN = EXT_SUPERBLOCK_OFFSET + SB_S_BLOCK_GROUP_NR + 2"

definition ext_superblock_plausible :: "bytes \<Rightarrow> (bool, 'e) outcome" where
  "ext_superblock_plausible buf =
     (if length buf < EXT_PROBE_MIN_LEN then Ok False
      else
        and_then (le_at buf (EXT_SUPERBLOCK_OFFSET + 0x38) 2) (\<lambda>magic.
        if magic \<noteq> 0xEF53 then Ok False
        else and_then (le_at buf (EXT_SUPERBLOCK_OFFSET + 0x18) 4) (\<lambda>log_block_size.
        if 6 < log_block_size then Ok False
        else and_then (le_at buf (EXT_SUPERBLOCK_OFFSET + 0x20) 4) (\<lambda>blocks_per_group.
        if blocks_per_group = 0 then Ok False
        else and_then (le_at buf (EXT_SUPERBLOCK_OFFSET + 0x28) 4) (\<lambda>inodes_per_group.
          Ok (inodes_per_group \<noteq> 0))))))"

definition probe_ext :: "bytes \<Rightarrow> (bool, 'e) outcome" where
  "probe_ext buf =
     and_then (ext_superblock_plausible buf) (\<lambda>plausible.
       if plausible
       then and_then (le_at buf (EXT_SUPERBLOCK_OFFSET + SB_S_BLOCK_GROUP_NR) 2) (\<lambda>group. Ok (group = 0))
       else Ok False)"


section \<open>Geometry of an ext superblock\<close>

record ext_superblock_record =
  xi_block_size :: nat
  xi_blocks_count :: nat
  xi_blocks_per_group :: nat
  xi_first_data_block :: nat
  xi_block_group_nr :: nat
  xi_uuid :: bytes
  xi_inodes_per_group :: nat
  xi_inode_size :: nat
  xi_feature_compat :: nat
  xi_feature_incompat :: nat
  xi_feature_ro_compat :: nat
  xi_desc_size :: nat

definition xi_is_primary :: "ext_superblock_record \<Rightarrow> bool" where
  "xi_is_primary i \<longleftrightarrow> xi_block_group_nr i = 0"

definition group_size_bytes :: "ext_superblock_record \<Rightarrow> nat" where
  "group_size_bytes i = saturating_mul64 (xi_blocks_per_group i) (xi_block_size i)"

definition xi_size_bytes :: "ext_superblock_record \<Rightarrow> nat" where
  "xi_size_bytes i = saturating_mul64 (xi_blocks_count i) (xi_block_size i)"

definition copy_offset :: "ext_superblock_record \<Rightarrow> nat" where
  "copy_offset i =
     (if xi_is_primary i then 1024
      else let block = saturating_add64 (xi_first_data_block i)
             (saturating_mul64 (xi_block_group_nr i) (xi_blocks_per_group i))
        in saturating_mul64 block (xi_block_size i))"

text \<open>The reads of \<open>read_u32_le_at\<close>, \<open>read_u16_le_at\<close> and \<open>read_uuid_at\<close>.\<close>

definition le_get :: "bytes \<Rightarrow> nat \<Rightarrow> nat \<Rightarrow> nat option" where
  "le_get buf off n = (if off + n \<le> length buf then Some (le_field buf off n) else None)"

definition read_uuid_at :: "bytes \<Rightarrow> nat \<Rightarrow> bytes option" where
  "read_uuid_at buf off = (if off + 16 \<le> length buf then Some (slice buf off 16) else None)"

definition unwrap_or :: "'a option \<Rightarrow> 'a \<Rightarrow> 'a" where
  "unwrap_or m d = (case m of Some a \<Rightarrow> a | None \<Rightarrow> d)"

definition ext_superblock_info :: "bytes \<Rightarrow> (ext_superblock_record option, 'e) outcome" where
  "ext_superblock_info buf =
     and_then (ext_superblock_plausible buf) (\<lambda>plausible.
     if \<not> plausible then Ok None
     else
       and_then (le_at buf (EXT_SUPERBLOCK_OFFSET + 0x18) 4) (\<lambda>log_block_size.
       and_then (le_at buf (EXT_SUPERBLOCK_OFFSET + 0x04) 4) (\<lambda>blocks_count_lo.
       and_then (le_at buf (EXT_SUPERBLOCK_OFFSET + 0x60) 4) (\<lambda>feature_incompat.
       let sixty_four_bit = feature_incompat AND 0x00000080 \<noteq> 0;
           blocks_count =
             (if sixty_four_bit
              then blocks_count_lo OR push_bit 32 (unwrap_or (le_get buf (EXT_SUPERBLOCK_OFFSET + 0x150) 4) 0)
              else blocks_count_lo);
           inode_size =
             (if le_get buf (EXT_SUPERBLOCK_OFFSET + 0x4C) 4 = Some 0 then 128
              else unwrap_or (le_get buf (EXT_SUPERBLOCK_OFFSET + 0x58) 2) 0);
           desc_size =
             (if sixty_four_bit then unwrap_or (le_get buf (EXT_SUPERBLOCK_OFFSET + 0xFE) 2) 0 else 32)
       in
       and_then (le_at buf (EXT_SUPERBLOCK_OFFSET + 0x20) 4) (\<lambda>blocks_per_group.
       and_then (le_at buf (EXT_SUPERBLOCK_OFFSET + 0x14) 4) (\<lambda>first_data_block.
       and_then (le_at buf (EXT_SUPERBLOCK_OFFSET + SB_S_BLOCK_GROUP_NR) 2) (\<lambda>block_group_nr.
       and_then (le_at buf (EXT_SUPERBLOCK_OFFSET + 0x28) 4) (\<lambda>inodes_per_group.
         Ok (Some \<lparr>xi_block_size = push_bit log_block_size 1024, xi_blocks_count = blocks_count,
           xi_blocks_per_group = blocks_per_group, xi_first_data_block = first_data_block,
           xi_block_group_nr = block_group_nr,
           xi_uuid = unwrap_or (read_uuid_at buf (EXT_SUPERBLOCK_OFFSET + 0x68)) (replicate 16 0),
           xi_inodes_per_group = inodes_per_group, xi_inode_size = inode_size,
           xi_feature_compat = unwrap_or (le_get buf (EXT_SUPERBLOCK_OFFSET + 0x5C) 4) 0,
           xi_feature_incompat = feature_incompat,
           xi_feature_ro_compat = unwrap_or (le_get buf (EXT_SUPERBLOCK_OFFSET + 0x64) 4) 0,
           xi_desc_size = desc_size\<rparr>)))))))))"

definition ext_backup_superblock_group :: "bytes \<Rightarrow> (nat option, 'e) outcome" where
  "ext_backup_superblock_group buf =
     and_then (ext_superblock_plausible buf) (\<lambda>plausible.
     if \<not> plausible then Ok None
     else and_then (le_at buf (EXT_SUPERBLOCK_OFFSET + SB_S_BLOCK_GROUP_NR) 2) (\<lambda>group.
       Ok (if group = 0 then None else Some group)))"

record ext_backup_superblock =
  xb_group :: nat
  xb_block_size :: nat
  xb_blocks_per_group :: nat
  xb_first_data_block :: nat

definition group_start_bytes :: "ext_backup_superblock \<Rightarrow> nat option" where
  "group_start_bytes b =
     Option.bind (checked_mul64 (xb_group b) (xb_blocks_per_group b)) (\<lambda>n.
     Option.bind (checked_add64 n (xb_first_data_block b)) (\<lambda>block. checked_mul64 block (xb_block_size b)))"

definition filesystem_start :: "ext_backup_superblock \<Rightarrow> nat \<Rightarrow> nat option" where
  "filesystem_start b probe_offset =
     Option.bind (checked_add64 probe_offset EXT_SUPERBLOCK_OFFSET) (\<lambda>p.
     Option.bind (group_start_bytes b) (\<lambda>start. checked_sub p start))"

definition ext_backup_superblock_info :: "bytes \<Rightarrow> (ext_backup_superblock option, 'e) outcome" where
  "ext_backup_superblock_info buf =
     and_then (ext_superblock_info buf) (\<lambda>info.
       Ok (case info of None \<Rightarrow> None
         | Some i \<Rightarrow>
             (if xi_is_primary i then None
              else Some \<lparr>xb_group = xi_block_group_nr i, xb_block_size = xi_block_size i,
                xb_blocks_per_group = xi_blocks_per_group i, xb_first_data_block = xi_first_data_block i\<rparr>)))"


section \<open>Parsing\<close>

definition determine_fat_type :: "dos_bpb \<Rightarrow> (filesystem_type, 'e) outcome" where
  "determine_fat_type bpb =
     (let spb = bytes_per_sector bpb; spc = sectors_per_cluster bpb in
      if spb = 0 \<or> spc = 0 then Ok FsUnknown
      else
        and_then (mul32 (root_entry_count bpb) 32) (\<lambda>root_bytes.
        let root_dir_sectors = div_ceil root_bytes spb in
        if sectors_per_fat_16 bpb = 0 then Ok FsUnknown
        else
          let fat_size = sectors_per_fat_16 bpb; total_sectors = bpb_total_sectors bpb in
          and_then (mul32 (num_fats bpb) fat_size) (\<lambda>fat_area.
          and_then (add32 (reserved_sectors bpb) fat_area) (\<lambda>n.
          and_then (add32 n root_dir_sectors) (\<lambda>first_data_sector.
            if total_sectors \<le> first_data_sector then Ok FsUnknown
            else
              let data_sectors = total_sectors - first_data_sector;
                  cluster_count = data_sectors div spc
              in Ok (if cluster_count < 4085 then FsFat12
                     else if cluster_count < 65525 then FsFat16 else FsFat32))))))"

definition try_parse_filesystem :: "bytes \<Rightarrow> (parsed_boot_sector, parse_error) outcome" where
  "try_parse_filesystem data =
     and_then (subslice data 0 11) (\<lambda>hb.
     and_then (ok_or PeParseFailed (parse_header hb)) (\<lambda>header.
     and_then (subslice data 0x0B 0x40) (\<lambda>region.
     and_then
       (if list_all (\<lambda>b. b = 0) region
        then and_then (subslice data 0 512) (\<lambda>xb.
             and_then (ok_or PeParseFailed (parse_exfat_boot_sector xb)) (\<lambda>x.
               Ok (if exfat_is_valid x then Some x else None)))
        else Ok None) (\<lambda>exfat.
     case exfat of
       Some x \<Rightarrow> Ok (ParsedExFat x)
     | None \<Rightarrow>
       and_then (subslice data 0x0B 0x24) (\<lambda>bb.
       and_then (ok_or PeParseFailed (parse_dos_bpb bb)) (\<lambda>bpb.
       if bytes_per_sector bpb \<notin> {512, 1024, 2048, 4096} then Err PeInvalidBytesPerSector
       else if is_bitlocker header then
         and_then (subslice data 0x24 0x54) (\<lambda>eb.
         and_then (ok_or PeParseFailed (parse_ntfs_ebpb eb)) (\<lambda>ebpb.
         and_then (subslice data 0x54 510) (\<lambda>code.
           Ok (ParsedBitLocker header bpb (ntfs_total_sectors ebpb) (ntfs_volume_serial_number ebpb) code))))
       else if is_ntfs header \<or> looks_like_ntfs bpb then
         and_then (subslice data 0x24 0x54) (\<lambda>eb.
         and_then (ok_or PeParseFailed (parse_ntfs_ebpb eb)) (\<lambda>ebpb.
         and_then (subslice data 0x54 510) (\<lambda>code. Ok (ParsedNtfs header bpb ebpb code))))
       else if sectors_per_fat_16 bpb = 0 \<and> root_entry_count bpb = 0 then
         and_then (subslice data 0x24 0x5A) (\<lambda>eb.
         and_then (ok_or PeParseFailed (parse_fat32_ebpb eb)) (\<lambda>ebpb.
         and_then (subslice data 0x5A 510) (\<lambda>code. Ok (ParsedFat32 header bpb ebpb code))))
       else
         and_then (subslice data 0x24 0x3E) (\<lambda>eb.
         and_then (ok_or PeParseFailed (parse_fat16_ebpb eb)) (\<lambda>ebpb.
         and_then (subslice data 0x3E 510) (\<lambda>code.
         if take 4 (oem_id header) = ascii ''HPFS'' \<or> take 4 (oem_id header) = ascii ''OS2 ''
         then Ok (ParsedHpfs header bpb ebpb code)
         else
           and_then (determine_fat_type bpb) (\<lambda>fs_type.
             case fs_type of
               FsFat12 \<Rightarrow> Ok (ParsedFat12 header bpb ebpb code)
             | FsFat16 \<Rightarrow> Ok (ParsedFat16 header bpb ebpb code)
             | _ \<Rightarrow> Err PeUnknownFilesystem))))))))))"

definition try_parse_partition_table :: "bytes \<Rightarrow> (parsed_boot_sector, parse_error) outcome" where
  "try_parse_partition_table data =
     and_then (ok_or PeParseFailed (mbr_from_bytes data)) (\<lambda>m.
     if \<not> mbr_is_valid m then Err PeInvalidBootSignature
     else if mbr_is_gpt_protective m then Ok (ParsedGpt m)
     else if valid_partitions m \<noteq> [] then Ok (ParsedMbr m)
     else Err PeUnknownFilesystem)"

definition parse_boot_sector :: "bytes \<Rightarrow> (parsed_boot_sector, parse_error) outcome" where
  "parse_boot_sector data =
     (if length data < BOOT_SECTOR_SIZE then Err PeBufferTooSmall
      else and_then (le_at data 510 2) (\<lambda>signature.
        if signature \<noteq> BOOT_SIGNATURE then Err PeInvalidBootSignature
        else or_else (try_parse_filesystem data) (\<lambda>_. try_parse_partition_table data)))"


section \<open>Detection\<close>

fun parsed_detection :: "parsed_boot_sector \<Rightarrow> boot_sector_diagnosis" where
  "parsed_detection (ParsedFat12 h b e c) = Detected DetFat12"
| "parsed_detection (ParsedFat16 h b e c) = Detected DetFat16"
| "parsed_detection (ParsedFat32 h b e32 c) = Detected DetFat32"
| "parsed_detection (ParsedNtfs h b en c) = Detected DetNtfs"
| "parsed_detection (ParsedBitLocker h b n v c) = Detected DetBitLocker"
| "parsed_detection (ParsedExFat x) = Detected DetExFat"
| "parsed_detection (ParsedHpfs h b e c) = Undetected (UnsupportedFilesystem FsHpfs)"
| "parsed_detection (ParsedMbr m) = Detected DetMbrPartitioned"
| "parsed_detection (ParsedGpt m) = Detected DetGptPartitioned"

definition unknown_filesystem :: "bytes \<Rightarrow> (boot_sector_diagnosis, 'e) outcome" where
  "unknown_filesystem boot_sector =
     and_then (subslice boot_sector 0 11) (\<lambda>hb.
     let header = parse_header hb;
         hint = (\<lambda>p. case header of Some h \<Rightarrow> p h | None \<Rightarrow> False) in
     and_then (subslice boot_sector 0x0B 0x40) (\<lambda>region.
       Ok (Undetected (UnknownFilesystem (hint is_ntfs) (hint is_exfat \<or> list_all (\<lambda>b. b = 0) region)
         (hint is_bitlocker) (mbr_from_bytes boot_sector \<noteq> None)))))"

fun diagnose_parsed ::
  "bytes \<Rightarrow> (parsed_boot_sector, parse_error) outcome \<Rightarrow> (boot_sector_diagnosis, 'e) outcome" where
  "diagnose_parsed bs (Ok parsed) = Ok (parsed_detection parsed)"
| "diagnose_parsed bs (Err PeBufferTooSmall) = Ok (Undetected BufferTooSmall)"
| "diagnose_parsed bs (Err PeInvalidBootSignature) = Ok (Undetected InvalidSignature)"
| "diagnose_parsed bs (Err PeInvalidBytesPerSector) = Ok (Undetected CorruptedStructure)"
| "diagnose_parsed bs (Err PeParseFailed) = Ok (Undetected CorruptedStructure)"
| "diagnose_parsed bs (Err PeUnknownFilesystem) = unknown_filesystem bs"
| "diagnose_parsed bs Panic = Panic"
| "diagnose_parsed bs Diverge = Diverge"

definition diagnose_boot_sector_standard :: "bytes \<Rightarrow> (boot_sector_diagnosis, 'e) outcome" where
  "diagnose_boot_sector_standard bs =
     (if length bs < BOOT_SECTOR_SIZE then Ok (Undetected BufferTooSmall)
      else if list_all (\<lambda>b. b = 0) bs then Ok (Undetected AllZeroes)
      else and_then (le_at bs 510 2) (\<lambda>signature.
        if signature \<noteq> BOOT_SIGNATURE then Ok (Undetected InvalidSignature)
        else diagnose_parsed bs (parse_boot_sector bs)))"

definition standard_is_authoritative :: "bytes \<Rightarrow> boot_sector_diagnosis \<Rightarrow> bool" where
  "standard_is_authoritative bs standard =
     (case standard of
        Detected d \<Rightarrow>
          (if d = DetMbrPartitioned
           then (case mbr_from_bytes bs of Some m \<Rightarrow> is_plausible_table m | None \<Rightarrow> False)
           else True)
      | Undetected _ \<Rightarrow> False)"

definition diagnose_boot_sector :: "bytes \<Rightarrow> (boot_sector_diagnosis, 'e) outcome" where
  "diagnose_boot_sector bs =
     and_then (diagnose_boot_sector_standard bs) (\<lambda>standard.
     if standard_is_authoritative bs standard then Ok standard
     else if probe_volume bs then Ok (Detected DetQnx6)
     else case standard of
         Detected _ \<Rightarrow> Ok standard
       | Undetected _ \<Rightarrow>
           and_then (probe_apfs bs) (\<lambda>apfs.
           if apfs then Ok (Detected DetApfs)
           else and_then (probe_btrfs_volume bs) (\<lambda>btrfs.
           if btrfs then Ok (Detected DetBtrfs)
           else and_then (probe_ext bs) (\<lambda>ext.
           if ext then Ok (Detected DetExt) else Ok standard))))"

definition detected_from_bytes :: "bytes \<Rightarrow> (detected_boot_sector, 'e) outcome" where
  "detected_from_bytes bs =
     and_then (diagnose_boot_sector bs) (\<lambda>diagnosis.
       Ok (case diagnosis of Detected d \<Rightarrow> d | Undetected _ \<Rightarrow> DetUnknown))"

definition boot_sector_volume_size :: "detected_boot_sector \<Rightarrow> bytes \<Rightarrow> (nat option, 'e) outcome" where
  "boot_sector_volume_size detected probe =
     (let sized = (\<lambda>sectors spb. Ok (case checked_mul64 sectors spb of
              Some n \<Rightarrow> (if 0 < n then Some n else None) | None \<Rightarrow> None))
      in case parse_boot_sector probe of
        Err e \<Rightarrow> Ok None | Panic \<Rightarrow> Panic | Diverge \<Rightarrow> Diverge
      | Ok parsed \<Rightarrow>
          (case (detected, parsed) of
             (DetNtfs, ParsedNtfs h bpb ebpb c) \<Rightarrow> sized (ntfs_total_sectors ebpb) (bytes_per_sector bpb)
           | (DetBitLocker, ParsedBitLocker h bpb n v c) \<Rightarrow> sized n (bytes_per_sector bpb)
           | (DetFat12, ParsedFat12 h bpb e c) \<Rightarrow> sized (bpb_total_sectors bpb) (bytes_per_sector bpb)
           | (DetFat16, ParsedFat16 h bpb e c) \<Rightarrow> sized (bpb_total_sectors bpb) (bytes_per_sector bpb)
           | (DetFat32, ParsedFat32 h bpb e c) \<Rightarrow> sized (bpb_total_sectors bpb) (bytes_per_sector bpb)
           | (DetExFat, ParsedExFat x) \<Rightarrow>
               and_then (exfat_bytes_per_sector x) (\<lambda>spb. sized (volume_length x) spb)
           | _ \<Rightarrow> Ok None))"

definition declared_volume_size :: "detected_boot_sector \<Rightarrow> bytes \<Rightarrow> (nat option, 'e) outcome" where
  "declared_volume_size d probe =
     (if d = DetExt then and_then (ext_superblock_info probe) (\<lambda>info. Ok (map_option xi_size_bytes info))
      else if d = DetQnx6 then Ok (probed_volume_size probe)
      else if d \<in> {DetNtfs, DetBitLocker, DetFat12, DetFat16, DetFat32, DetExFat}
      then boot_sector_volume_size d probe
      else Ok None)"


section \<open>Detection returns\<close>

lemma le_at_ok [simp]: "off + n \<le> length bs \<Longrightarrow> le_at bs off n = Ok (le_field bs off n)"
  by (simp add: le_at_def)

lemma subslice_ok [simp]: "a \<le> b \<Longrightarrow> b \<le> length xs \<Longrightarrow> subslice xs a b = Ok (slice xs a (b - a))"
  by (simp add: subslice_def)

definition succeeds :: "('a, 'e) outcome \<Rightarrow> bool" where
  "succeeds m \<longleftrightarrow> (\<exists>a. m = Ok a)"

lemma succeeds_simps [simp]: "succeeds (Ok a)" "\<not> succeeds (Err e)" "\<not> succeeds Panic" "\<not> succeeds Diverge"
  by (simp_all add: succeeds_def)

lemma succeeds_and_then: "succeeds m \<Longrightarrow> (\<And>a. succeeds (f a)) \<Longrightarrow> succeeds (and_then m f)"
  by (auto simp: succeeds_def)

lemma succeeds_probe_apfs: "succeeds (probe_apfs buf)"
  by (simp add: probe_apfs_def APFS_PROBE_MIN_LEN_def APFS_NX_BLOCK_SIZE_OFFSET_def APFS_NX_MAGIC_OFFSET_def
      APFS_OBJECT_TYPE_OFFSET_def)

lemma succeeds_is_btrfs: "succeeds (is_btrfs_primary_superblock buf)"
  by (simp add: is_btrfs_primary_superblock_def BTRFS_SUPERBLOCK_PROBE_SIZE_def BTRFS_SUPERBLOCK_MAGIC_def ascii_def)

lemma succeeds_probe_btrfs: "succeeds (probe_btrfs_volume buf)"
  by (simp add: probe_btrfs_volume_def succeeds_is_btrfs)

lemma ext_superblock_plausible_eq:
  "ext_superblock_plausible buf = Ok (EXT_PROBE_MIN_LEN \<le> length buf \<and> le_field buf 1080 2 = 0xEF53
     \<and> le_field buf 1048 4 \<le> 6 \<and> le_field buf 1056 4 \<noteq> 0 \<and> le_field buf 1064 4 \<noteq> 0)"
  by (simp add: ext_superblock_plausible_def EXT_PROBE_MIN_LEN_def EXT_SUPERBLOCK_OFFSET_def SB_S_BLOCK_GROUP_NR_def)

lemma succeeds_probe_ext: "succeeds (probe_ext buf)"
  by (simp add: probe_ext_def ext_superblock_plausible_eq EXT_PROBE_MIN_LEN_def EXT_SUPERBLOCK_OFFSET_def
      SB_S_BLOCK_GROUP_NR_def)

text \<open>The fields of a parameter block fit their widths.\<close>

lemma dos_bpb_bounds:
  assumes "parse_dos_bpb bs = Some bpb"
  shows "root_entry_count bpb < 65536" "num_fats bpb < 256" "sectors_per_fat_16 bpb < 65536"
    "reserved_sectors bpb < 65536" "sectors_per_cluster bpb < 256" "bytes_per_sector bpb < 65536"
    "bpb_total_sectors bpb < 2 ^ 32"
proof -
  note b1 = le_field_bound [of bs _ 1] and b2 = le_field_bound [of bs _ 2] and b4 = le_field_bound [of bs _ 4]
  from assms show "root_entry_count bpb < 65536" "num_fats bpb < 256" "sectors_per_fat_16 bpb < 65536"
    "reserved_sectors bpb < 65536" "sectors_per_cluster bpb < 256" "bytes_per_sector bpb < 65536"
    using b1 b2 by (auto simp: parse_dos_bpb_def split: if_splits)
  have "total_sectors_16 bpb < 65536" "total_sectors_32 bpb < 2 ^ 32"
    using assms b2 b4 by (auto simp: parse_dos_bpb_def split: if_splits)
  then show "bpb_total_sectors bpb < 2 ^ 32" by (simp add: bpb_total_sectors_def)
qed

text \<open>The first data sector of a 16-bit layout, and the type its cluster count gives.\<close>

definition first_data_sector_16 :: "dos_bpb \<Rightarrow> nat" where
  "first_data_sector_16 bpb =
     reserved_sectors bpb + num_fats bpb * sectors_per_fat_16 bpb
     + div_ceil (root_entry_count bpb * 32) (bytes_per_sector bpb)"

lemma first_data_sector_16_bound:
  assumes "parse_dos_bpb bs = Some bpb" and "0 < bytes_per_sector bpb"
  shows "root_entry_count bpb * 32 < 2 ^ 32" "num_fats bpb * sectors_per_fat_16 bpb < 2 ^ 24"
    "first_data_sector_16 bpb < 2 ^ 32"
proof -
  note b = dos_bpb_bounds [OF assms(1)]
  show r: "root_entry_count bpb * 32 < 2 ^ 32" using b(1) by simp
  have "num_fats bpb * sectors_per_fat_16 bpb \<le> 255 * 65535" using b by (intro mult_le_mono) simp_all
  then show f: "num_fats bpb * sectors_per_fat_16 bpb < 2 ^ 24" by simp
  let ?n = "div_ceil (root_entry_count bpb * 32) (bytes_per_sector bpb)"
  have "?n * 1 \<le> ?n * bytes_per_sector bpb" using assms(2) by (intro mult_le_mono) simp_all
  also have "\<dots> < root_entry_count bpb * 32 + bytes_per_sector bpb" using div_ceil_le(2) assms(2) by blast
  finally show "first_data_sector_16 bpb < 2 ^ 32" using b(1,4,6) f by (simp add: first_data_sector_16_def)
qed

definition fat_kind :: "dos_bpb \<Rightarrow> filesystem_type" where
  "fat_kind bpb =
     (if bytes_per_sector bpb = 0 \<or> sectors_per_cluster bpb = 0 \<or> sectors_per_fat_16 bpb = 0
        \<or> bpb_total_sectors bpb \<le> first_data_sector_16 bpb then FsUnknown
      else let n = (bpb_total_sectors bpb - first_data_sector_16 bpb) div sectors_per_cluster bpb
        in if n < 4085 then FsFat12 else if n < 65525 then FsFat16 else FsFat32)"

lemma determine_fat_type_eq:
  assumes "parse_dos_bpb bs = Some bpb"
  shows "determine_fat_type bpb = Ok (fat_kind bpb)"
proof (cases "bytes_per_sector bpb = 0 \<or> sectors_per_cluster bpb = 0")
  case False
  then have "0 < bytes_per_sector bpb" by simp
  note b = first_data_sector_16_bound [OF assms this]
  then have "reserved_sectors bpb + num_fats bpb * sectors_per_fat_16 bpb < 2 ^ 32"
    by (simp add: first_data_sector_16_def)
  with b False show ?thesis
    by (simp add: determine_fat_type_def fat_kind_def Let_def mul32_def add32_def first_data_sector_16_def)
qed (auto simp: determine_fat_type_def fat_kind_def)

text \<open>The structures of a whole sector parse, so the only failures are those of their values.\<close>

definition sector_bpb :: "bytes \<Rightarrow> dos_bpb" where
  "sector_bpb data = the (parse_dos_bpb (slice data 0x0B 25))"

lemma parse_sector_bpb: "512 \<le> length data \<Longrightarrow> parse_dos_bpb (slice data 0x0B 25) = Some (sector_bpb data)"
  by (simp add: sector_bpb_def parse_dos_bpb_def)

lemma sector_structures:
  assumes "512 \<le> length data"
  shows "\<exists>h. parse_header (slice data 0 11) = Some h" "\<exists>e. parse_fat16_ebpb (slice data 0x24 26) = Some e"
    "\<exists>e. parse_fat32_ebpb (slice data 0x24 54) = Some e" "\<exists>e. parse_ntfs_ebpb (slice data 0x24 48) = Some e"
    "\<exists>x. parse_exfat_boot_sector (slice data 0 512) = Some x"
  using assms
  by (simp_all add: parse_header_def parse_fat16_ebpb_def parse_fat32_ebpb_def parse_ntfs_ebpb_def
      parse_exfat_boot_sector_def)

definition fat32_layout :: "dos_bpb \<Rightarrow> bool" where
  "fat32_layout bpb \<longleftrightarrow> sectors_per_fat_16 bpb = 0 \<and> root_entry_count bpb = 0"

text \<open>The cascade of \<open>try_parse_filesystem\<close> on the structures of a whole sector.\<close>

definition filesystem_cascade ::
  "bytes \<Rightarrow> boot_sector_header \<Rightarrow> dos_bpb \<Rightarrow> fat16_ebpb \<Rightarrow> fat32_ebpb \<Rightarrow> ntfs_ebpb \<Rightarrow> exfat_boot_sector
    \<Rightarrow> (parsed_boot_sector, parse_error) outcome" where
  "filesystem_cascade data h bpb e16 e32 en x =
     (if list_all (\<lambda>b. b = 0) (slice data 11 53) \<and> exfat_is_valid x then Ok (ParsedExFat x)
      else if bytes_per_sector bpb \<notin> {512, 1024, 2048, 4096} then Err PeInvalidBytesPerSector
      else if is_bitlocker h
      then Ok (ParsedBitLocker h bpb (ntfs_total_sectors en) (ntfs_volume_serial_number en) (slice data 84 426))
      else if is_ntfs h \<or> looks_like_ntfs bpb then Ok (ParsedNtfs h bpb en (slice data 84 426))
      else if fat32_layout bpb then Ok (ParsedFat32 h bpb e32 (slice data 90 420))
      else if take 4 (oem_id h) = ascii ''HPFS'' \<or> take 4 (oem_id h) = ascii ''OS2 ''
      then Ok (ParsedHpfs h bpb e16 (slice data 62 448))
      else if fat_kind bpb = FsFat12 then Ok (ParsedFat12 h bpb e16 (slice data 62 448))
      else if fat_kind bpb = FsFat16 then Ok (ParsedFat16 h bpb e16 (slice data 62 448))
      else Err PeUnknownFilesystem)"

lemma try_parse_filesystem_cascade:
  assumes "512 \<le> length data"
  obtains h e16 e32 en x where "oem_id h = slice data 3 8"
    "try_parse_filesystem data = filesystem_cascade data h (sector_bpb data) e16 e32 en x"
proof -
  obtain h e16 e32 en x where s: "parse_header (slice data 0 11) = Some h"
    "parse_fat16_ebpb (slice data 0x24 26) = Some e16" "parse_fat32_ebpb (slice data 0x24 54) = Some e32"
    "parse_ntfs_ebpb (slice data 0x24 48) = Some en" "parse_exfat_boot_sector (slice data 0 512) = Some x"
    using sector_structures [OF assms] by blast
  note bpb = parse_sector_bpb [OF assms]
  have "oem_id h = slice data 3 8"
    using s(1) assms by (auto simp: parse_header_def slice_def drop_take)
  then show ?thesis
    by (rule that [where ?e16.0 = e16 and ?e32.0 = e32 and en = en and x = x])
      (use assms in \<open>simp add: try_parse_filesystem_def filesystem_cascade_def s bpb fat32_layout_def
        determine_fat_type_eq [OF bpb] split: filesystem_type.split\<close>)
qed

lemma returns_try_parse_filesystem: "512 \<le> length data \<Longrightarrow> returns (try_parse_filesystem data)"
  by (rule try_parse_filesystem_cascade [of data]) (auto simp: filesystem_cascade_def)

lemma returns_try_parse_partition_table: "returns (try_parse_partition_table data)"
  by (auto simp: try_parse_partition_table_def mbr_from_bytes_def)

lemma returns_parse_boot_sector: "returns (parse_boot_sector data)"
proof (cases "length data < 512")
  case False
  then have "returns (try_parse_filesystem data)" by (intro returns_try_parse_filesystem) simp
  with False show ?thesis
    using returns_try_parse_partition_table [of data]
    by (cases "try_parse_filesystem data") (auto simp: parse_boot_sector_def BOOT_SECTOR_SIZE_def)
qed (simp add: parse_boot_sector_def BOOT_SECTOR_SIZE_def)

lemma succeeds_diagnose_parsed:
  assumes "512 \<le> length bs" and "returns r"
  shows "succeeds (diagnose_parsed bs r)"
proof (cases r)
  case (Err e)
  with assms(1) show ?thesis by (cases e) (simp_all add: unknown_filesystem_def Let_def)
qed (use assms in simp_all)

lemma succeeds_standard: "succeeds (diagnose_boot_sector_standard bs)"
  by (simp add: diagnose_boot_sector_standard_def BOOT_SECTOR_SIZE_def succeeds_diagnose_parsed returns_parse_boot_sector)

lemma succeeds_diagnose: "succeeds (diagnose_boot_sector bs)"
  unfolding diagnose_boot_sector_def
  by (auto intro!: succeeds_and_then succeeds_standard succeeds_probe_apfs succeeds_probe_btrfs succeeds_probe_ext
      split: boot_sector_diagnosis.split)

lemma succeeds_detected: "succeeds (detected_from_bytes bs)"
  unfolding detected_from_bytes_def using succeeds_diagnose by (rule succeeds_and_then) simp

end
