(* ===== verification/Device_Detection.thy ===== *)
theory Device_Detection
  imports Boot_Detection
begin

text \<open>
  \<open>fsmnt-device/src/detection.rs\<close> with \<open>detection/dos.rs\<close> and \<open>detection/qnx6.rs\<close>: detection over a
  seekable reader. A short prefix is classified first, the Btrfs superblock is read only when the
  prefix says nothing, and the redundant boot regions of FAT32, exFAT, NTFS and QNX6 are tried last.
  Over a lawful reader the result is a function of the bytes, however the reader splits its reads.
\<close>

section \<open>Reading\<close>

text \<open>
  The loop of \<open>read_at\<close>: it retries interrupted reads and stops at the end of the source. A read that
  claims more than was asked for fills the buffer.
\<close>

partial_function (option) read_at_loop ::
  "'s source \<Rightarrow> 's \<Rightarrow> nat \<Rightarrow> bytes \<Rightarrow> ((bytes, io_error) outcome \<times> 's) option" where
  "read_at_loop src s n acc =
     (if n = 0 then Some (Ok acc, s)
      else let (r, s') = do_read src s n in
        case r of
          Ok bs \<Rightarrow>
            (if bs = [] then Some (Ok acc, s')
             else if n \<le> length bs then Some (Ok (acc @ take n bs), s')
             else read_at_loop src s' (n - length bs) (acc @ bs))
        | Err e \<Rightarrow> (if e = Interrupted then read_at_loop src s' n acc else Some (Err e, s'))
        | Panic \<Rightarrow> Some (Panic, s')
        | Diverge \<Rightarrow> Some (Diverge, s'))"

definition read_at :: "'s source \<Rightarrow> nat \<Rightarrow> nat \<Rightarrow> 's \<Rightarrow> (bytes, io_error) outcome \<times> 's" where
  "read_at src offset len s =
     and_do (do_seek src s (Start offset)) (\<lambda>_ s.
       case read_at_loop src s len [] of Some r \<Rightarrow> r | None \<Rightarrow> (Diverge, s))"

definition FS_DETECT_PROBE_SIZE :: nat where "FS_DETECT_PROBE_SIZE = 0x2000 + QNX6_SUPERBLOCK_SIZE"

record detection_probe =
  dp_detected :: detected_boot_sector
  dp_prefix :: bytes

definition probe_at :: "'s source \<Rightarrow> nat \<Rightarrow> 's \<Rightarrow> (detection_probe, io_error) outcome \<times> 's" where
  "probe_at src offset s =
     and_do (read_at src offset FS_DETECT_PROBE_SIZE s) (\<lambda>prefix s.
     and_do (detected_from_bytes prefix, s) (\<lambda>detected s.
     if detected = DetUnknown then
       and_do (ok_or InvalidInput (checked_add64 offset BTRFS_PRIMARY_SUPERBLOCK_OFFSET), s) (\<lambda>superblock_offset s.
       and_do (read_at src superblock_offset BTRFS_SUPERBLOCK_PROBE_SIZE s) (\<lambda>superblock s.
       and_do (is_btrfs_primary_superblock superblock, s) (\<lambda>btrfs s.
         (Ok \<lparr>dp_detected = (if btrfs then DetBtrfs else detected), dp_prefix = prefix\<rparr>, s))))
     else (Ok \<lparr>dp_detected = detected, dp_prefix = prefix\<rparr>, s)))"


section \<open>Redundant boot regions\<close>

definition absolute_offset :: "nat \<Rightarrow> nat \<Rightarrow> (nat, io_error) outcome" where
  "absolute_offset base relative = ok_or InvalidInput (checked_add64 base relative)"

definition bpb_bytes_per_sector :: "bytes \<Rightarrow> nat" where
  "bpb_bytes_per_sector sector = (if length sector < 0x0D then 0 else le_field sector 0x0B 2)"

definition SECTOR_SIZES :: "nat list" where "SECTOR_SIZES = [512, 4096]"

text \<open>\<open>1_u64.checked_shl(shift) == Some(sector_size)\<close> is false for shifts of 64 and more.\<close>

definition exfat_sector_size_is :: "bytes \<Rightarrow> nat \<Rightarrow> bool" where
  "exfat_sector_size_is exfat sector_size \<longleftrightarrow> 0x6C < length exfat
     \<and> unat (exfat ! 0x6C) < 64 \<and> 2 ^ unat (exfat ! 0x6C) = sector_size"

definition dos_detect_fat :: "'s source \<Rightarrow> nat \<Rightarrow> nat \<Rightarrow> 's \<Rightarrow> (bool, io_error) outcome \<times> 's" where
  "dos_detect_fat src offset sector_size s =
     and_do (absolute_offset offset (6 * sector_size), s) (\<lambda>fat_offset s.
     and_do (read_at src fat_offset FS_DETECT_PROBE_SIZE s) (\<lambda>fat s.
     and_do (detected_from_bytes fat, s) (\<lambda>d s.
       (Ok (d = DetFat32 \<and> bpb_bytes_per_sector fat = sector_size), s))))"

definition dos_detect_exfat :: "'s source \<Rightarrow> nat \<Rightarrow> nat \<Rightarrow> 's \<Rightarrow> (bool, io_error) outcome \<times> 's" where
  "dos_detect_exfat src offset sector_size s =
     and_do (absolute_offset offset (12 * sector_size), s) (\<lambda>exfat_offset s.
     and_do (read_at src exfat_offset FS_DETECT_PROBE_SIZE s) (\<lambda>exfat s.
     and_do (detected_from_bytes exfat, s) (\<lambda>d s.
       (Ok (d = DetExFat \<and> exfat_sector_size_is exfat sector_size), s))))"

definition dos_detect_ntfs ::
  "'s source \<Rightarrow> nat \<Rightarrow> nat option \<Rightarrow> nat \<Rightarrow> 's \<Rightarrow> (bool, io_error) outcome \<times> 's" where
  "dos_detect_ntfs src offset len sector_size s =
     (case Option.bind len (\<lambda>n. checked_sub n sector_size) of
        None \<Rightarrow> (Ok False, s)
      | Some relative \<Rightarrow>
          and_do (absolute_offset offset relative, s) (\<lambda>ntfs_offset s.
          and_do (read_at src ntfs_offset FS_DETECT_PROBE_SIZE s) (\<lambda>ntfs s.
          and_do (detected_from_bytes ntfs, s) (\<lambda>d s.
            (Ok (d = DetNtfs \<and> bpb_bytes_per_sector ntfs = sector_size), s)))))"

primrec dos_detect_loop ::
  "'s source \<Rightarrow> nat \<Rightarrow> nat option \<Rightarrow> nat list \<Rightarrow> 's \<Rightarrow> (detected_boot_sector option, io_error) outcome \<times> 's" where
  "dos_detect_loop src offset len [] s = (Ok None, s)"
| "dos_detect_loop src offset len (sector_size # sizes) s =
     and_do (dos_detect_fat src offset sector_size s) (\<lambda>fat s.
     if fat then (Ok (Some DetFat32), s)
     else and_do (dos_detect_exfat src offset sector_size s) (\<lambda>exfat s.
     if exfat then (Ok (Some DetExFat), s)
     else and_do (dos_detect_ntfs src offset len sector_size s) (\<lambda>ntfs s.
     if ntfs then (Ok (Some DetNtfs), s)
     else dos_detect_loop src offset len sizes s)))"

definition dos_detect_backup ::
  "'s source \<Rightarrow> nat \<Rightarrow> nat option \<Rightarrow> 's \<Rightarrow> (detected_boot_sector option, io_error) outcome \<times> 's" where
  "dos_detect_backup src offset len s = dos_detect_loop src offset len SECTOR_SIZES s"

definition qnx6_detect_backup ::
  "'s source \<Rightarrow> nat \<Rightarrow> nat \<Rightarrow> 's \<Rightarrow> (detected_boot_sector option, io_error) outcome \<times> 's" where
  "qnx6_detect_backup src offset len s =
     (case checked_sub len QNX6_SUPERBLOCK_AREA_SIZE of
        None \<Rightarrow> (Ok None, s)
      | Some relative \<Rightarrow>
          (case checked_add64 offset relative of
             None \<Rightarrow> (Ok None, s)
           | Some absolute \<Rightarrow>
               and_do (read_at src absolute QNX6_SUPERBLOCK_SIZE s) (\<lambda>superblock s.
                 (Ok (if superblock_volume_size superblock = Some len then Some DetQnx6 else None), s))))"

definition detect_backup_over_primary ::
  "'s source \<Rightarrow> nat \<Rightarrow> nat \<Rightarrow> detected_boot_sector \<Rightarrow> bytes \<Rightarrow> 's
    \<Rightarrow> (detected_boot_sector option, io_error) outcome \<times> 's" where
  "detect_backup_over_primary src offset len primary prefix s =
     (let may_override = primary = DetUnknown
        \<or> primary = DetMbrPartitioned
          \<and> (case mbr_from_bytes prefix of Some m \<Rightarrow> \<not> is_plausible_table m | None \<Rightarrow> False)
      in if \<not> may_override then (Ok None, s) else qnx6_detect_backup src offset len s)"


section \<open>Detection\<close>

definition detect_backup_boot_sector_at ::
  "'s source \<Rightarrow> nat \<Rightarrow> nat option \<Rightarrow> 's \<Rightarrow> (detected_boot_sector option, io_error) outcome \<times> 's" where
  "detect_backup_boot_sector_at src offset len s =
     and_do (case len of Some n \<Rightarrow> qnx6_detect_backup src offset n s | None \<Rightarrow> (Ok None, s)) (\<lambda>found s.
       case found of Some d \<Rightarrow> (Ok (Some d), s) | None \<Rightarrow> dos_detect_backup src offset len s)"

definition detect_boot_sector_at ::
  "'s source \<Rightarrow> nat \<Rightarrow> 's \<Rightarrow> (detected_boot_sector, io_error) outcome \<times> 's" where
  "detect_boot_sector_at src offset s =
     and_do (probe_at src offset s) (\<lambda>probe s.
     if dp_detected probe \<noteq> DetUnknown then (Ok (dp_detected probe), s)
     else and_do (detect_backup_boot_sector_at src offset None s) (\<lambda>found s.
       (Ok (unwrap_or found DetUnknown), s)))"

definition detect_boot_sector_within ::
  "'s source \<Rightarrow> nat \<Rightarrow> nat \<Rightarrow> 's \<Rightarrow> (detected_boot_sector, io_error) outcome \<times> 's" where
  "detect_boot_sector_within src offset len s =
     and_do (probe_at src offset s) (\<lambda>probe s.
     and_do (detect_backup_over_primary src offset len (dp_detected probe) (dp_prefix probe) s) (\<lambda>recovered s.
     case recovered of
       Some d \<Rightarrow> (Ok d, s)
     | None \<Rightarrow>
         if dp_detected probe \<noteq> DetUnknown then (Ok (dp_detected probe), s)
         else and_do (dos_detect_backup src offset (Some len) s) (\<lambda>found s.
           (Ok (unwrap_or found DetUnknown), s))))"

definition ext_backup_superblock_info_at ::
  "'s source \<Rightarrow> nat \<Rightarrow> 's \<Rightarrow> (ext_backup_superblock option, io_error) outcome \<times> 's" where
  "ext_backup_superblock_info_at src offset s =
     and_do (read_at src offset FS_DETECT_PROBE_SIZE s) (\<lambda>prefix s. (ext_backup_superblock_info prefix, s))"

definition ext_backup_superblock_at :: "'s source \<Rightarrow> nat \<Rightarrow> 's \<Rightarrow> (nat option, io_error) outcome \<times> 's" where
  "ext_backup_superblock_at src offset s =
     and_do (ext_backup_superblock_info_at src offset s) (\<lambda>info s. (Ok (map_option xb_group info), s))"


section \<open>The result is a function of the bytes\<close>

text \<open>From every state that satisfies \<open>I\<close> the operation succeeds with the same value.\<close>

definition gives :: "('s \<Rightarrow> bool) \<Rightarrow> ('s, 'a, 'e) op \<Rightarrow> bool" where
  "gives I f \<longleftrightarrow> (\<exists>a. yields I f (Ok a))"

named_theorems gives_intros \<open>introduction rules for gives\<close>

lemma gives_pure [gives_intros]: "succeeds r \<Longrightarrow> gives I (\<lambda>s. (r, s))"
  using yields_get [of I "\<lambda>_. r" r] by (auto simp: gives_def succeeds_def simp del: yields_Pair)

lemma gives_and_do [gives_intros]:
  assumes "gives I f" and "\<And>a. gives I (g a)"
  shows "gives I (\<lambda>s. and_do (f s) g)"
proof -
  obtain a where a: "yields I f (Ok a)" using assms(1) by (auto simp: gives_def)
  obtain b where "yields I (g a) (Ok b)" using assms(2) by (auto simp: gives_def)
  then show ?thesis using yields_and_do [OF a, of g "\<lambda>_. Ok b"] by (auto simp: gives_def)
qed

lemma gives_if [gives_intros]: "(b \<Longrightarrow> gives I f) \<Longrightarrow> (\<not> b \<Longrightarrow> gives I g) \<Longrightarrow> gives I (\<lambda>s. if b then f s else g s)"
  by (cases b) simp_all

lemma gives_option [gives_intros]:
  "(x = None \<Longrightarrow> gives I f) \<Longrightarrow> (\<And>a. x = Some a \<Longrightarrow> gives I (g a)) \<Longrightarrow>
    gives I (\<lambda>s. case x of None \<Rightarrow> f s | Some a \<Rightarrow> g a s)"
  by (cases x) simp_all

context byte_reader
begin

lemma read_at_loop_slice:
  assumes "lawful s"
  shows "\<exists>s'. read_at_loop src s n acc = Some (Ok (acc @ slice (content s) (pos s) n), s')
    \<and> lawful s' \<and> content s' = content s"
  using assms
proof (induction n arbitrary: s acc rule: less_induct)
  case (less n)
  from read_prefix [OF less.prems, of n] obtain k s' where
    r: "do_read src s n = (Ok (slice (content s) (pos s) k), s')" "lawful s'" "k \<le> n"
       "pos s' = pos s + k" "content s' = content s" "k \<le> length (content s) - pos s"
    and k0: "k = 0 \<longrightarrow> n = 0 \<or> length (content s) \<le> pos s" by blast
  have len: "length (slice (content s) (pos s) k) = k" using r(6) by simp
  consider "n = 0" | "0 < n" "k = 0" | "0 < n" "k = n" | "0 < k" "k < n" using r(3) by linarith
  then show ?case
  proof cases
    case 1
    with less.prems show ?thesis by (subst read_at_loop.simps) simp
  next
    case 2
    with k0 have "slice (content s) (pos s) n = []" by (simp add: slice_beyond)
    with 2 r show ?thesis by (subst read_at_loop.simps) simp
  next
    case 3
    then have "slice (content s) (pos s) k \<noteq> []" using len by (metis list.size(3) less_irrefl)
    with 3 r len show ?thesis by (subst read_at_loop.simps) simp
  next
    case 4
    have ne: "slice (content s) (pos s) k \<noteq> []" using len 4(1) by (metis list.size(3) less_irrefl)
    have "n - k < n" using 4 by simp
    from less.IH [OF this r(2), of "acc @ slice (content s) (pos s) k"] obtain s'' where
      "read_at_loop src s' (n - k) (acc @ slice (content s) (pos s) k)
        = Some (Ok ((acc @ slice (content s) (pos s) k) @ slice (content s) (pos s + k) (n - k)), s'')"
      "lawful s''" "content s'' = content s"
      using r(4,5) by auto
    moreover have "slice (content s) (pos s) k @ slice (content s) (pos s + k) (n - k) = slice (content s) (pos s) n"
      using slice_append_slice [of "content s" "pos s" k "n - k"] r(3) by simp
    ultimately show ?thesis using 4 r ne len by (subst read_at_loop.simps) simp
  qed
qed

lemma yields_read_at:
  assumes "p < 2 ^ 63"
  shows "yields (\<lambda>s. lawful s \<and> content s = c) (read_at src p n) (Ok (slice c p n))"
proof (rule yieldsI)
  fix s
  assume s: "lawful s \<and> content s = c"
  then obtain s1 where s1: "do_seek src s (Start p) = (Ok p, s1)" "lawful s1" "pos s1 = p" "content s1 = content s"
    using seek_start assms by blast
  from read_at_loop_slice [OF s1(2), of n "[]"] obtain s2 where
    "read_at_loop src s1 n [] = Some (Ok (slice (content s1) (pos s1) n), s2)" "lawful s2" "content s2 = content s1"
    by auto
  then show "\<exists>s'. read_at src p n s = (Ok (slice c p n), s') \<and> lawful s' \<and> content s' = c"
    using s s1 by (simp add: read_at_def)
qed

lemma gives_read_at: "p < 2 ^ 63 \<Longrightarrow> gives (\<lambda>s. lawful s \<and> content s = c) (read_at src p n)"
  using yields_read_at unfolding gives_def by blast

lemma gives_probe_at:
  assumes "offset + 2 ^ 17 < 2 ^ 63"
  shows "gives (\<lambda>s. lawful s \<and> content s = c) (probe_at src offset)"
proof -
  have "checked_add64 offset BTRFS_PRIMARY_SUPERBLOCK_OFFSET = Some (offset + 2 ^ 16)"
    using assms by (simp add: checked_add64_def BTRFS_PRIMARY_SUPERBLOCK_OFFSET_def)
  then show ?thesis
    unfolding probe_at_def using assms
    by (simp only: ok_or.simps and_do.simps)
      (intro gives_intros gives_read_at succeeds_detected succeeds_is_btrfs succeeds_simps; simp)
qed

lemma gives_dos_detect:
  assumes "offset + 2 ^ 17 < 2 ^ 63" and "\<And>n. len = Some n \<Longrightarrow> offset + n < 2 ^ 63"
    and "set sizes \<subseteq> {512, 4096}"
  shows "gives (\<lambda>s. lawful s \<and> content s = c) (dos_detect_loop src offset len sizes)"
  using assms(3)
proof (induction sizes)
  case Nil
  show ?case using gives_pure [of "Ok None"] by simp
next
  case (Cons ss sizes)
  then have ss: "ss \<le> 4096" by auto
  have "absolute_offset offset (6 * ss) = Ok (offset + 6 * ss)" "absolute_offset offset (12 * ss) = Ok (offset + 12 * ss)"
    using assms(1) ss by (simp_all add: absolute_offset_def checked_add64_def)
  moreover have "offset + 6 * ss < 2 ^ 63" "offset + 12 * ss < 2 ^ 63" using assms(1) ss by simp_all
  ultimately have fx: "gives (\<lambda>s. lawful s \<and> content s = c) (dos_detect_fat src offset ss)"
    "gives (\<lambda>s. lawful s \<and> content s = c) (dos_detect_exfat src offset ss)"
    unfolding dos_detect_fat_def dos_detect_exfat_def
    by (simp_all only: and_do.simps) (intro gives_intros gives_read_at succeeds_detected succeeds_simps; assumption)+
  have nt: "gives (\<lambda>s. lawful s \<and> content s = c) (dos_detect_ntfs src offset len ss)"
  proof (cases "Option.bind len (\<lambda>n. checked_sub n ss)")
    case None
    then show ?thesis unfolding dos_detect_ntfs_def by (simp add: gives_pure)
  next
    case (Some k)
    then have k: "offset + k < 2 ^ 63" using assms(2) by (cases len) (fastforce simp: checked_sub_def split: if_splits)+
    then have "absolute_offset offset k = Ok (offset + k)" by (simp add: absolute_offset_def checked_add64_def)
    with Some k show ?thesis
      unfolding dos_detect_ntfs_def
      by (simp only: option.case and_do.simps) (intro gives_intros gives_read_at succeeds_detected succeeds_simps)
  qed
  have "gives (\<lambda>s. lawful s \<and> content s = c) (dos_detect_loop src offset len sizes)" using Cons by simp
  then show ?case by (simp only: dos_detect_loop.simps) (intro gives_intros fx nt succeeds_simps)
qed

lemma gives_qnx6_detect_backup:
  assumes "offset + len < 2 ^ 63"
  shows "gives (\<lambda>s. lawful s \<and> content s = c) (qnx6_detect_backup src offset len)"
  unfolding qnx6_detect_backup_def
  by (intro gives_intros gives_read_at succeeds_simps) (use assms in \<open>auto simp: checked_sub_def split: if_splits\<close>)

lemma gives_detect_within:
  assumes "offset + 2 ^ 17 < 2 ^ 63" and "offset + len < 2 ^ 63"
  shows "gives (\<lambda>s. lawful s \<and> content s = c) (detect_boot_sector_within src offset len)"
  unfolding detect_boot_sector_within_def detect_backup_over_primary_def Let_def dos_detect_backup_def SECTOR_SIZES_def
  by (intro gives_intros gives_probe_at gives_qnx6_detect_backup gives_dos_detect succeeds_simps) (use assms in auto)

lemma gives_detect_at:
  assumes "offset + 2 ^ 17 < 2 ^ 63"
  shows "gives (\<lambda>s. lawful s \<and> content s = c) (detect_boot_sector_at src offset)"
  unfolding detect_boot_sector_at_def detect_backup_boot_sector_at_def dos_detect_backup_def SECTOR_SIZES_def option.case
  by (intro gives_intros gives_probe_at gives_dos_detect succeeds_simps) (use assms in auto)

text \<open>A prefix that identifies a format settles the matter.\<close>

lemma detect_within_known:
  assumes "offset < 2 ^ 63" and "detected_from_bytes (slice c offset FS_DETECT_PROBE_SIZE) = (Ok k :: (_, io_error) outcome)"
    and "k \<noteq> DetUnknown" and "k \<noteq> DetMbrPartitioned" and "lawful s" and "content s = c"
  shows "\<exists>s'. detect_boot_sector_within src offset len s = (Ok k, s') \<and> lawful s' \<and> content s' = c"
proof -
  obtain s' where "read_at src offset FS_DETECT_PROBE_SIZE s = (Ok (slice c offset FS_DETECT_PROBE_SIZE), s')"
    "lawful s'" "content s' = c"
    using yieldsD [OF yields_read_at [OF assms(1)]] assms(5,6) by blast
  with assms show ?thesis
    by (simp add: detect_boot_sector_within_def probe_at_def detect_backup_over_primary_def Let_def)
qed

end

end
