(* ===== verification/Detection_Properties.thy ===== *)
theory Detection_Properties
  imports Device_Detection Fat_Sample
begin

text \<open>
  The properties of detection: it returns on every prefix, and it agrees with the FAT driver on the
  type and the size of FAT12 and FAT16 volumes. The two disagree on small volumes with the FAT32
  layout.
\<close>

section \<open>Agreement with the FAT driver\<close>

fun parsed_bpb :: "parsed_boot_sector \<Rightarrow> dos_bpb option" where
  "parsed_bpb (ParsedFat12 h b e c) = Some b"
| "parsed_bpb (ParsedFat16 h b e c) = Some b"
| "parsed_bpb (ParsedFat32 h b e32 c) = Some b"
| "parsed_bpb p = None"

lemma try_parse_filesystem_fat:
  assumes "512 \<le> length data" and "try_parse_filesystem data = Ok p" and "parsed_bpb p = Some bpb"
  shows "bpb = sector_bpb data \<and> slice data 3 8 \<noteq> ascii ''-FVE-FS-''
    \<and> bytes_per_sector bpb \<in> {512, 1024, 2048, 4096}
    \<and> (if fat32_layout bpb then parsed_detection p = Detected DetFat32
       else fat_kind bpb = FsFat12 \<and> parsed_detection p = Detected DetFat12
         \<or> fat_kind bpb = FsFat16 \<and> parsed_detection p = Detected DetFat16)"
proof -
  from assms(1) obtain h e16 e32 en x where h: "oem_id h = slice data 3 8"
    and eq: "try_parse_filesystem data = filesystem_cascade data h (sector_bpb data) e16 e32 en x"
    by (rule try_parse_filesystem_cascade)
  show ?thesis
    using assms(2,3) unfolding eq filesystem_cascade_def
    by (split if_splits; clarsimp simp: h is_bitlocker_def split: if_splits)
qed

lemma detected_standard:
  fixes bs
  defines "m \<equiv> (diagnose_boot_sector_standard bs :: (boot_sector_diagnosis, 'e) outcome)"
  assumes "detected_from_bytes bs = (Ok d :: (_, 'e) outcome)" and "d \<in> {DetFat12, DetFat16, DetFat32}"
  shows "m = Ok (Detected d)"
proof -
  have "succeeds m" unfolding m_def by (rule succeeds_standard)
  then obtain st where st: "m = Ok st" by (auto simp: succeeds_def)
  from assms(2) obtain dg where "diagnose_boot_sector bs = (Ok dg :: (_, 'e) outcome)"
    and "d = (case dg of Detected d \<Rightarrow> d | Undetected _ \<Rightarrow> DetUnknown)"
    by (auto simp: detected_from_bytes_def and_then_eq_Ok_iff)
  with assms(3) have "diagnose_boot_sector bs = (Ok (Detected d) :: (_, 'e) outcome)" by (cases dg) auto
  then show ?thesis
    using assms(3) unfolding diagnose_boot_sector_def m_def [symmetric] st
    by (auto simp: and_then_eq_Ok_iff standard_is_authoritative_def split: boot_sector_diagnosis.splits if_splits)
qed

lemma detected_fat:
  assumes "detected_from_bytes bs = (Ok d :: (_, 'e) outcome)" and "d \<in> {DetFat12, DetFat16, DetFat32}"
  obtains p where "512 \<le> length bs" "le_field bs 510 2 = BOOT_SIGNATURE" "parse_boot_sector bs = Ok p"
    "try_parse_filesystem bs = Ok p" "parsed_bpb p = Some (sector_bpb bs)" "parsed_detection p = Detected d"
proof -
  have st: "diagnose_boot_sector_standard bs = (Ok (Detected d) :: (_, 'e) outcome)"
    using detected_standard [OF assms] .
  then have len: "512 \<le> length bs" and sig: "le_field bs 510 2 = BOOT_SIGNATURE"
    and dp: "diagnose_parsed bs (parse_boot_sector bs) = (Ok (Detected d) :: (_, 'e) outcome)"
    by (auto simp: diagnose_boot_sector_standard_def BOOT_SECTOR_SIZE_def split: if_splits)
  have "\<exists>p. parse_boot_sector bs = Ok p \<and> parsed_detection p = Detected d"
    using dp returns_parse_boot_sector [of bs]
    by (cases "(bs, parse_boot_sector bs)" rule: diagnose_parsed.cases)
      (auto simp: unknown_filesystem_def and_then_eq_Ok_iff Let_def)
  then obtain p where p: "parse_boot_sector bs = Ok p" "parsed_detection p = Detected d" by blast
  obtain bpb where bpb: "parsed_bpb p = Some bpb" using p(2) assms(2) by (cases p) auto
  then have "try_parse_partition_table bs \<noteq> Ok p"
    by (auto simp: try_parse_partition_table_def and_then_eq_Ok_iff split: if_splits)
  then have t: "try_parse_filesystem bs = Ok p"
    using p(1) len by (cases "try_parse_filesystem bs")
      (auto simp: parse_boot_sector_def sig BOOT_SECTOR_SIZE_def)
  with try_parse_filesystem_fat [OF len t bpb] bpb p len sig show ?thesis by (auto intro: that)
qed

lemma first_sector [simp]:
  "off + n \<le> 512 \<Longrightarrow> slice (take 512 bs) off n = slice bs off n"
  "off + n \<le> 512 \<Longrightarrow> le_field (take 512 bs) off n = le_field bs off n"
  by (simp_all add: slice_def le_field_def drop_take min_def)

text \<open>The driver on the first sector of a prefix that parses as FAT.\<close>

lemma driver_on_fat_sector:
  assumes "512 \<le> length bs" and "le_field bs 510 2 = BOOT_SIGNATURE" and "slice bs 3 8 \<noteq> ascii ''-FVE-FS-''"
    and "bytes_per_sector (sector_bpb bs) \<in> {512, 1024, 2048, 4096}"
  shows "fat_from_boot_sector (take 512 bs) =
    (if fat32_layout (sector_bpb bs) then new_fat32 (take 512 bs) (sector_bpb bs) (bytes_per_sector (sector_bpb bs))
     else new_fat12_16 (take 512 bs) (sector_bpb bs) (bytes_per_sector (sector_bpb bs)))"
  using assms by (auto simp: fat_from_boot_sector_def parse_sector_bpb fat32_layout_def Let_def)

lemma new_fat12_16_kind:
  assumes "512 \<le> length bs" and "fat_kind (sector_bpb bs) \<in> {FsFat12, FsFat16}"
    and bps: "bytes_per_sector (sector_bpb bs) \<in> {512, 1024, 2048, 4096}"
  shows "if is_power_of_two (sectors_per_cluster (sector_bpb bs))
    then \<exists>f. new_fat12_16 (take 512 bs) (sector_bpb bs) (bytes_per_sector (sector_bpb bs)) = Ok f
      \<and> f_type f = (if fat_kind (sector_bpb bs) = FsFat12 then Fat12 else Fat16)
      \<and> f_size f = bpb_total_sectors (sector_bpb bs) * bytes_per_sector (sector_bpb bs) \<and> 0 < f_size f
    else new_fat12_16 (take 512 bs) (sector_bpb bs) (bytes_per_sector (sector_bpb bs))
      = Err (InvalidSectorsPerCluster (sectors_per_cluster (sector_bpb bs)))"
proof -
  let ?b = "sector_bpb bs"
  note p = parse_sector_bpb [OF assms(1)]
  have pos: "0 < bytes_per_sector ?b" using bps by auto
  note bd = dos_bpb_bounds [OF p] and fd = first_data_sector_16_bound [OF p pos]
  obtain e where e: "fat16_boot_sector (take 512 bs) = Some e"
    using sector_structures(2) [OF assms(1)] assms(1) by (auto simp: fat16_boot_sector_def)
  have spc: "sectors_per_cluster ?b \<noteq> 0" using assms(2) by (auto simp: fat_kind_def split: if_splits)
  have "bytes_per_sector ?b * sectors_per_cluster ?b \<le> 4096 * 255" using bps bd(5) by (intro mult_le_mono) auto
  then have cs: "checked_mul32 (bytes_per_sector ?b) (sectors_per_cluster ?b) = Some (bytes_per_sector ?b * sectors_per_cluster ?b)"
    by (simp add: checked_mul32_def)
  have fs: "Option.bind (checked_add32 (reserved_sectors ?b) (num_fats ?b * sectors_per_fat_16 ?b))
      (\<lambda>v. checked_add32 v (div_ceil (root_entry_count ?b * 32) (bytes_per_sector ?b))) = Some (first_data_sector_16 ?b)"
    using fd(3) by (simp add: checked_add32_def first_data_sector_16_def)
  have fa: "checked_mul32 (num_fats ?b) (sectors_per_fat_16 ?b) = Some (num_fats ?b * sectors_per_fat_16 ?b)"
    "checked_mul32 (root_entry_count ?b) 32 = Some (root_entry_count ?b * 32)"
    using fd(1,2) by (simp_all add: checked_mul32_def)
  show ?thesis
    using spc assms(2) pos
    by (auto simp: new_fat12_16_def e cs fs fa validate_sectors_per_cluster_def Let_def fat_kind_def from_clusters_def
        FAT16_MIN_CLUSTERS_def FAT32_MIN_CLUSTERS_def split: if_splits)
qed

text \<open>
  C28: what the detector calls FAT12 or FAT16 is a volume of that type to the driver, and of the size
  the detector declares, unless the number of sectors per cluster is not a power of two, which the
  driver refuses with the error that names it.
\<close>

theorem fat_detection_agrees_with_driver:
  assumes "detected_from_bytes bs = (Ok d :: (_, 'e) outcome)" and "d \<in> {DetFat12, DetFat16}"
  shows "if is_power_of_two (sectors_per_cluster (sector_bpb bs))
    then \<exists>f. fat_from_boot_sector (take 512 bs) = Ok f \<and> f_type f = (if d = DetFat12 then Fat12 else Fat16)
      \<and> declared_volume_size d bs = (Ok (Some (f_size f)) :: (_, 'e) outcome)
    else fat_from_boot_sector (take 512 bs) = Err (InvalidSectorsPerCluster (sectors_per_cluster (sector_bpb bs)))"
proof -
  let ?b = "sector_bpb bs"
  have d3: "d \<in> {DetFat12, DetFat16, DetFat32}" using assms(2) by auto
  obtain p where p: "512 \<le> length bs" "le_field bs 510 2 = BOOT_SIGNATURE" "parse_boot_sector bs = Ok p"
    "try_parse_filesystem bs = Ok p" "parsed_bpb p = Some ?b" "parsed_detection p = Detected d"
    using detected_fat [OF assms(1) d3] .
  note t = try_parse_filesystem_fat [OF p(1,4,5)]
  then have lay: "\<not> fat32_layout ?b" "fat_kind ?b = (if d = DetFat12 then FsFat12 else FsFat16)"
    using p(6) assms(2) by (auto split: if_splits)
  have bps: "bytes_per_sector ?b \<in> {512, 1024, 2048, 4096}" using t by blast
  have "bpb_total_sectors ?b * bytes_per_sector ?b < 2 ^ 32 * 2 ^ 16"
    using dos_bpb_bounds(6,7) [OF parse_sector_bpb [OF p(1)]] by (intro mult_strict_mono) auto
  then have size: "declared_volume_size d bs = (Ok (Some (bpb_total_sectors ?b * bytes_per_sector ?b)) :: (_, 'e) outcome)"
    if "0 < bpb_total_sectors ?b * bytes_per_sector ?b"
    using that p(3,5,6) assms(2)
    by (cases p) (auto simp: declared_volume_size_def boot_sector_volume_size_def checked_mul64_def Let_def)
  show ?thesis
    using new_fat12_16_kind [OF p(1) _ bps] lay driver_on_fat_sector [OF p(1,2) _ bps] t size
    by (auto split: if_splits)
qed

lemma detected_parsed:
  assumes "512 \<le> length bs" and "le_field bs 510 2 = BOOT_SIGNATURE" and "\<not> list_all (\<lambda>b. b = 0) bs"
    and "try_parse_filesystem bs = Ok p" and "parsed_detection p = Detected d" and "d \<noteq> DetMbrPartitioned"
  shows "detected_from_bytes bs = Ok d"
  using assms by (simp add: detected_from_bytes_def diagnose_boot_sector_def diagnose_boot_sector_standard_def
      BOOT_SECTOR_SIZE_def standard_is_authoritative_def parse_boot_sector_def)

lemma floppy_detected: "detected_from_bytes floppy_boot = Ok DetFat12"
proof -
  have len: "512 \<le> length floppy_boot" by (simp add: length_floppy_boot)
  then obtain h e16 e32 en x where h: "oem_id h = slice floppy_boot 3 8"
    and eq: "try_parse_filesystem floppy_boot = filesystem_cascade floppy_boot h (sector_bpb floppy_boot) e16 e32 en x"
    by (rule try_parse_filesystem_cascade)
  have bpb: "sector_bpb floppy_boot = floppy_bpb" by (simp add: sector_bpb_def floppy_bpb_parsed)
  have "\<not> list_all (\<lambda>b. b = 0) (slice floppy_boot 11 53)" by (simp add: floppy_boot_def slice_def ascii_def)
  moreover have "fat_kind floppy_bpb = FsFat12"
    by (simp add: fat_kind_def floppy_bpb_def bpb_total_sectors_def first_data_sector_16_def div_ceil_def)
  ultimately have t: "try_parse_filesystem floppy_boot = Ok (ParsedFat12 h floppy_bpb e16 (slice floppy_boot 62 448))"
    unfolding eq bpb filesystem_cascade_def
    by (simp add: h is_bitlocker_def is_ntfs_def floppy_boot_fields fat32_layout_def looks_like_ntfs_def)
      (simp add: floppy_bpb_def ascii_def)
  show ?thesis
    by (rule detected_parsed [OF len _ _ t])
      (simp_all add: le_field_def floppy_boot_fields BOOT_SIGNATURE_def, simp add: floppy_boot_def)
qed

theorem fat_detection_agrees_with_driver_witness:
  "detected_from_bytes floppy_boot = (Ok DetFat12 :: (_, parse_error) outcome)
   \<and> fat_from_boot_sector floppy_boot = Ok floppy_fat
   \<and> declared_volume_size DetFat12 floppy_boot = (Ok (Some 3584) :: (_, parse_error) outcome)"
proof -
  have d: "DetFat12 \<in> {DetFat12, DetFat16}" by simp
  have "is_power_of_two (sectors_per_cluster (sector_bpb floppy_boot))"
    using is_power_of_two_1 by (simp add: sector_bpb_def floppy_bpb_parsed) (simp add: floppy_bpb_def)
  then show ?thesis
    using fat_detection_agrees_with_driver [OF floppy_detected d, where 'e = parse_error]
    by (simp add: floppy_detected length_floppy_boot floppy_accepted) (simp add: floppy_fat_def)
qed


section \<open>Small volumes with the FAT32 layout\<close>

text \<open>
  C40: a volume with the FAT32 layout, which has no root area, but with fewer than 65525 clusters is
  FAT32 to the detector and FAT12 or FAT16 to the driver, which then looks for the root directory in
  the root area: it has no entries, whatever the volume holds in its root cluster.
\<close>

theorem small_fat32_root_is_empty:
  assumes "detected_from_bytes bs = (Ok DetFat32 :: (_, 'e) outcome)" and "fat_from_boot_sector (take 512 bs) = Ok f"
    and "f_total_clusters f < 65525" and "byte_reader src lawful pos content" and "lawful s"
  shows "f_type f \<noteq> Fat32
    \<and> (\<exists>it st. dir_entries (root_directory f) = Ok it \<and> list_entries src (it, s) = (Ok [], st))"
proof -
  obtain p where p: "512 \<le> length bs" "le_field bs 510 2 = BOOT_SIGNATURE" "parse_boot_sector bs = Ok p"
    "try_parse_filesystem bs = Ok p" "parsed_bpb p = Some (sector_bpb bs)" "parsed_detection p = Detected DetFat32"
    by (rule detected_fat [OF assms(1)]) auto
  note t = try_parse_filesystem_fat [OF p(1,4,5)]
  then have "fat32_layout (sector_bpb bs)" using p(6) by (auto split: if_splits)
  then have "new_fat32 (take 512 bs) (sector_bpb bs) (bytes_per_sector (sector_bpb bs)) = Ok f"
    using driver_on_fat_sector [OF p(1,2)] t assms(2) by simp
  then have root: "f_root_dir_sectors f = 0" "f_type f = from_clusters (f_total_clusters f)"
    by (auto simp: new_fat32_def Let_def and_then_eq_Ok_iff)
  have ty: "f_type f \<noteq> Fat32" using root(2) assms(3)
    by (simp add: from_clusters_def FAT32_MIN_CLUSTERS_def)
  then have rd: "ff_first_cluster (root_directory f) = None" "ff_fat (root_directory f) = f" "ff_is_directory (root_directory f)"
    by (cases "f_type f"; simp add: root_directory_def file_new_def)+
  have "fixed_blocks (content s) (f_cluster_size f) (root_dir_offset f) 0 = ([], None)"
    by (subst fixed_blocks.simps) simp
  then have empty: "file_entries (content s) (root_directory f) = ([], None)"
    using rd(1,2) root(1) by (simp add: file_entries_def block_entries_def)
  have wf: "fat_wf (ff_fat (root_directory f))"
    using fat_from_boot_sector_answers [of "take 512 bs"] assms(2) rd(2) by simp
  from byte_reader.dir_entries_sound [OF assms(4) wf assms(5) rd(3)] byte_reader.list_entries_items [OF assms(4)]
  show ?thesis using ty by (fastforce simp: empty all_items_def)
qed

text \<open>A volume of seven sectors with the FAT32 layout, whose root cluster holds a file and a directory.\<close>

definition small_boot :: bytes where
  "small_boot = [0xEB, 0x58, 0x90] @ ascii ''MSDOS5.0'' @ [0, 2, 1, 1, 0, 1, 0, 0, 7, 0, 0xF8, 0, 0] @ replicate 12 0
     @ [1, 0, 0, 0, 0, 0, 0, 0, 2, 0, 0, 0] @ replicate 462 0 @ [0x55, 0xAA]"

definition small_bytes :: bytes where
  "small_bytes = small_boot @ floppy_table @ floppy_root @ replicate 2048 0"

lemma length_small: "length small_boot = 512" "length small_bytes = 3584"
  by (simp_all add: small_boot_def small_bytes_def ascii_def length_floppy)

lemma small_boot_fields:
  "slice small_boot 510 2 = [0x55, 0xAA]" "slice small_boot 3 8 = ascii ''MSDOS5.0''"
  "slice small_boot 0x0B 25 = [0, 2, 1, 1, 0, 1, 0, 0, 7, 0, 0xF8, 0, 0] @ replicate 12 0"
  "slice small_boot 0x24 54 = [1, 0, 0, 0, 0, 0, 0, 0, 2, 0, 0, 0] @ replicate 42 0"
  by (simp_all add: small_boot_def ascii_def slice_def)

definition small_bpb :: dos_bpb where
  "small_bpb = \<lparr>bytes_per_sector = 512, sectors_per_cluster = 1, reserved_sectors = 1, num_fats = 1,
     root_entry_count = 0, total_sectors_16 = 7, media_descriptor = 0xF8, sectors_per_fat_16 = 0,
     sectors_per_track = 0, num_heads = 0, hidden_sectors = 0, total_sectors_32 = 0\<rparr>"

lemma small_bpb_parsed: "parse_dos_bpb (slice small_boot 0x0B 25) = Some small_bpb" "sector_bpb small_boot = small_bpb"
proof -
  show "parse_dos_bpb (slice small_boot 0x0B 25) = Some small_bpb"
    unfolding small_boot_fields by (simp add: parse_dos_bpb_def small_bpb_def le_field_def slice_def)
  then show "sector_bpb small_boot = small_bpb" by (simp add: sector_bpb_def)
qed

lemma small_sector:
  "512 \<le> length small_boot" "le_field small_boot 510 2 = BOOT_SIGNATURE" "\<not> list_all (\<lambda>b. b = 0) small_boot"
  "slice small_boot 3 8 \<noteq> ascii ''-FVE-FS-''" "bytes_per_sector (sector_bpb small_boot) = 512"
  "fat32_layout (sector_bpb small_boot)"
  by (simp_all add: length_small le_field_def small_boot_fields BOOT_SIGNATURE_def small_bpb_parsed)
    (simp_all add: small_boot_def ascii_def small_bpb_def fat32_layout_def)

lemma small_detected: "detected_from_bytes small_boot = Ok DetFat32"
proof -
  from small_sector(1) obtain h e16 e32 en x where h: "oem_id h = slice small_boot 3 8"
    and eq: "try_parse_filesystem small_boot = filesystem_cascade small_boot h (sector_bpb small_boot) e16 e32 en x"
    by (rule try_parse_filesystem_cascade)
  have "\<not> list_all (\<lambda>b. b = 0) (slice small_boot 11 53)" by (simp add: small_boot_def slice_def ascii_def)
  moreover have "\<not> is_bitlocker h" "\<not> is_ntfs h" "\<not> looks_like_ntfs (sector_bpb small_boot)"
    by (simp_all add: h is_bitlocker_def is_ntfs_def small_boot_fields looks_like_ntfs_def small_bpb_parsed)
      (simp_all add: ascii_def small_bpb_def)
  ultimately have t: "try_parse_filesystem small_boot = Ok (ParsedFat32 h (sector_bpb small_boot) e32 (slice small_boot 90 420))"
    unfolding eq filesystem_cascade_def using small_sector by simp
  show ?thesis by (rule detected_parsed [OF small_sector(1,2,3) t]) simp_all
qed

lemma small_accepted:
  "\<exists>f. fat_from_boot_sector small_boot = Ok f \<and> f_total_clusters f = 5 \<and> f_root_cluster f = 2
     \<and> cluster_offset f 2 = Ok 1024"
proof -
  obtain e where e: "fat32_boot_sector small_boot = Some e" "sectors_per_fat_32 e = 1" "root_cluster_32 e = 2"
    by (simp add: fat32_boot_sector_def length_small small_boot_fields)
      (simp add: parse_fat32_ebpb_def le_field_def slice_def)
  have "take 512 small_boot = small_boot" by (simp add: length_small)
  then have "fat_from_boot_sector small_boot = new_fat32 small_boot small_bpb 512"
    using driver_on_fat_sector [OF small_sector(1,2,4)] small_sector(5,6) by (simp add: small_bpb_parsed)
  then show ?thesis
    using e is_power_of_two_1
    by (simp add: new_fat32_def small_bpb_def validate_sectors_per_cluster_def checked_mul32_def checked_add32_def
        bpb_total_sectors_def Let_def cluster_offset_def geometry_cluster_offset_def file_geometry_def
        saturating_add32_def mul64_def add64_def)
qed

theorem small_fat32_root_is_empty_witness:
  "\<exists>f it st. fat_from_boot_sector small_boot = Ok f \<and> cluster_offset f (f_root_cluster f) = Ok 1024
     \<and> slice small_bytes 1024 32 = floppy_record ''A       TXT'' 0x20 2 [0x58, 2, 0, 0]
     \<and> dir_entries (root_directory f) = Ok it
     \<and> list_entries cursor_source (it, \<lparr>cur_bytes = small_bytes, cur_pos = 0\<rparr>) = (Ok [], st)"
proof -
  obtain f where f: "fat_from_boot_sector small_boot = Ok f" "f_total_clusters f = 5" "f_root_cluster f = 2"
    "cluster_offset f 2 = Ok 1024"
    using small_accepted by blast
  have inv: "cursor_inv \<lparr>cur_bytes = small_bytes, cur_pos = 0\<rparr>" by (simp add: cursor_inv_def length_small)
  have "\<exists>it st. dir_entries (root_directory f) = Ok it
      \<and> list_entries cursor_source (it, \<lparr>cur_bytes = small_bytes, cur_pos = 0\<rparr>) = (Ok [], st)"
    using small_fat32_root_is_empty [OF small_detected [where 'a = parse_error] _ _ cursor.byte_reader_axioms inv, of f] f
    by (simp add: length_small)
  moreover have "slice small_bytes 1024 32 = floppy_record ''A       TXT'' 0x20 2 [0x58, 2, 0, 0]"
    by (simp add: small_bytes_def slice_def length_small length_floppy)
      (simp add: floppy_root_def floppy_record_def ascii_def)
  ultimately show ?thesis using f by auto
qed



section \<open>Totality\<close>

lemma parsed_exfat_sector:
  assumes "parse_boot_sector bs = Ok (ParsedExFat x)"
  shows "exfat_bytes_per_sector x = Ok (2 ^ bytes_per_sector_shift x)"
proof -
  have "try_parse_partition_table bs \<noteq> Ok (ParsedExFat x)" and len: "512 \<le> length bs"
    using assms by (auto simp: try_parse_partition_table_def and_then_eq_Ok_iff parse_boot_sector_def
        BOOT_SECTOR_SIZE_def split: if_splits)
  then have "try_parse_filesystem bs = Ok (ParsedExFat x)"
    using assms by (cases "try_parse_filesystem bs") (auto simp: parse_boot_sector_def BOOT_SECTOR_SIZE_def split: if_splits)
  then have "exfat_is_valid x"
    by (rule_tac try_parse_filesystem_cascade [OF len]) (auto simp: filesystem_cascade_def split: if_splits)
  then show ?thesis by (simp add: exfat_is_valid_def exfat_bytes_per_sector_def)
qed

lemma succeeds_boot_sector_volume_size: "succeeds (boot_sector_volume_size d bs)"
proof (cases "parse_boot_sector bs")
  case (Ok p)
  then show ?thesis
    by (cases d; cases p) (simp_all add: boot_sector_volume_size_def Let_def parsed_exfat_sector)
qed (use returns_parse_boot_sector [of bs] in \<open>auto simp: boot_sector_volume_size_def\<close>)

lemma succeeds_declared_volume_size:
  "(d = DetExt \<Longrightarrow> 0x464 \<le> length bs) \<Longrightarrow> succeeds (declared_volume_size d bs)"
  by (cases "d = DetExt")
    (simp_all add: declared_volume_size_def succeeds_boot_sector_volume_size ext_superblock_info_def
      ext_superblock_plausible_eq EXT_SUPERBLOCK_OFFSET_def SB_S_BLOCK_GROUP_NR_def Let_def)

text \<open>Prefixes of an ext volume, cut \<open>n\<close> bytes after the magic.\<close>

definition ext_prefix :: "nat \<Rightarrow> bytes" where
  "ext_prefix n = replicate 1024 0 @ replicate 32 0 @ [1, 0, 0, 0] @ replicate 4 0 @ [1, 0, 0, 0] @ replicate 12 0
     @ [0x53, 0xEF] @ replicate n 0"

abbreviation short_ext :: bytes where
  "short_ext \<equiv> ext_prefix 34"

lemma length_ext_prefix [simp]: "length (ext_prefix n) = 1082 + n"
  by (simp add: ext_prefix_def)

lemma ext_prefix_fields:
  assumes "34 \<le> n"
  shows "slice (ext_prefix n) 1080 2 = [0x53, 0xEF]" "slice (ext_prefix n) 1048 4 = replicate 4 0"
    "slice (ext_prefix n) 1056 4 = [1, 0, 0, 0]" "slice (ext_prefix n) 1064 4 = [1, 0, 0, 0]"
    "slice (ext_prefix n) 1114 2 = replicate 2 0" "slice (ext_prefix n) 510 2 = replicate 2 0"
    "slice (ext_prefix n) 32 4 = replicate 4 0"
  using assms by (simp_all add: ext_prefix_def slice_def)

lemma ext_prefix_plausible: "34 \<le> n \<Longrightarrow> ext_superblock_plausible (ext_prefix n) = Ok True"
  by (simp add: ext_superblock_plausible_eq EXT_PROBE_MIN_LEN_def EXT_SUPERBLOCK_OFFSET_def SB_S_BLOCK_GROUP_NR_def
      le_field_def ext_prefix_fields)

lemma ext_prefix_detected:
  assumes "34 \<le> n" "n \<le> 100"
  shows "detected_from_bytes (ext_prefix n) = Ok DetExt"
proof -
  have st: "diagnose_boot_sector_standard (ext_prefix n) = Ok (Undetected InvalidSignature)"
    using assms by (simp add: diagnose_boot_sector_standard_def BOOT_SECTOR_SIZE_def le_field_def ext_prefix_fields
        BOOT_SIGNATURE_def) (simp add: ext_prefix_def)
  have probes: "\<not> probe_volume (ext_prefix n)" "probe_apfs (ext_prefix n) = Ok False"
    "probe_btrfs_volume (ext_prefix n) = Ok False" "probe_ext (ext_prefix n) = Ok True"
    using assms
    by (simp_all add: probe_volume_def QNX6_BOOT_AREA_SIZE_def probe_apfs_def APFS_PROBE_MIN_LEN_def
        APFS_NX_BLOCK_SIZE_OFFSET_def APFS_NX_MAGIC_OFFSET_def le_field_def ext_prefix_fields probe_btrfs_volume_def
        BTRFS_PRIMARY_SUPERBLOCK_OFFSET_def probe_ext_def ext_prefix_plausible EXT_SUPERBLOCK_OFFSET_def
        SB_S_BLOCK_GROUP_NR_def APFS_NX_MAGIC_def ascii_def)
  show ?thesis
    by (simp add: detected_from_bytes_def diagnose_boot_sector_def st standard_is_authoritative_def probes)
qed

text \<open>
  C29: detection returns a result, without a panic, on every prefix of a medium, of any length and
  with any bytes; and the size that a detected format declares is computed without a panic or an
  overflow, for an ext superblock if the prefix reaches its feature words.
\<close>

theorem detection_is_total:
  assumes "d = DetExt \<longrightarrow> 0x464 \<le> length bs"
  shows "(\<exists>k. detected_from_bytes bs = Ok k) \<and> (\<exists>n. declared_volume_size d bs = Ok n)"
  using succeeds_detected [of bs] succeeds_declared_volume_size [of d bs] assms by (simp add: succeeds_def)

theorem detection_is_total_witness:
  "detected_from_bytes (ext_prefix 42) = Ok DetExt \<and> (\<exists>n. declared_volume_size DetExt (ext_prefix 42) = Ok n)"
  by (intro conjI ext_prefix_detected conjunct2 [OF detection_is_total]) simp_all

text \<open>
  The bound is sharp: \<open>ext_superblock_info\<close> reads \<open>s_feature_incompat\<close> by indexing, although the
  plausibility test stops eight bytes before its end, so a prefix that is cut between the two panics.
\<close>

theorem ext_prefix_cut_before_features_panics:
  "detected_from_bytes short_ext = Ok DetExt \<and> declared_volume_size DetExt short_ext = Panic"
  by (simp add: ext_prefix_detected declared_volume_size_def ext_superblock_info_def ext_prefix_plausible le_at_def
      length_ext_prefix EXT_SUPERBLOCK_OFFSET_def)


section \<open>Detection on a device\<close>

text \<open>
  C30: detection over a reader returns a result that is determined by the bytes of the medium,
  whatever the position and the buffering of the reader and however it splits its reads; it leaves
  the reader lawful; and a prefix that identifies a format other than a bare partition table is not
  overridden by what the redundant boot regions hold.
\<close>

theorem device_detection_depends_on_the_bytes:
  assumes "byte_reader src lawful pos content" and "offset + 2 ^ 17 < 2 ^ 63" and "offset + len < 2 ^ 63"
  shows "\<exists>d. (\<forall>s. lawful s \<and> content s = c \<longrightarrow>
        (\<exists>s'. detect_boot_sector_within src offset len s = (Ok d, s') \<and> lawful s' \<and> content s' = c))
    \<and> (\<forall>k. detected_from_bytes (slice c offset FS_DETECT_PROBE_SIZE) = (Ok k :: (_, io_error) outcome)
          \<and> k \<notin> {DetUnknown, DetMbrPartitioned} \<longrightarrow> d = k)"
proof (cases "\<exists>k. detected_from_bytes (slice c offset FS_DETECT_PROBE_SIZE) = (Ok k :: (_, io_error) outcome)
    \<and> k \<notin> {DetUnknown, DetMbrPartitioned}")
  case True
  then obtain k where k: "detected_from_bytes (slice c offset FS_DETECT_PROBE_SIZE) = (Ok k :: (_, io_error) outcome)"
    "k \<noteq> DetUnknown" "k \<noteq> DetMbrPartitioned" by auto
  have "offset < 2 ^ 63" using assms(2) by simp
  from byte_reader.detect_within_known [OF assms(1) this k] k show ?thesis by auto
next
  case False
  with byte_reader.gives_detect_within [OF assms, of c] show ?thesis
    unfolding gives_def yields_def by blast
qed

lemma short_ext_prefix: "slice short_ext 0 FS_DETECT_PROBE_SIZE = short_ext"
  by (simp add: slice_def length_ext_prefix FS_DETECT_PROBE_SIZE_def QNX6_SUPERBLOCK_SIZE_def)

theorem device_detection_depends_on_the_bytes_witness:
  "\<exists>s'. detect_boot_sector_within cursor_source 0 1116 \<lparr>cur_bytes = short_ext, cur_pos = 700\<rparr> = (Ok DetExt, s')"
proof -
  have "0 + 2 ^ 17 < (2 ^ 63 :: nat)" "0 + 1116 < (2 ^ 63 :: nat)" by simp_all
  from device_detection_depends_on_the_bytes [OF cursor.byte_reader_axioms this, of short_ext] obtain d where
    d: "\<forall>s. cursor_inv s \<and> cur_bytes s = short_ext \<longrightarrow>
        (\<exists>s'. detect_boot_sector_within cursor_source 0 1116 s = (Ok d, s') \<and> cursor_inv s' \<and> cur_bytes s' = short_ext)"
    and "d = DetExt"
    by (auto simp: short_ext_prefix ext_prefix_detected)
  moreover have "cursor_inv \<lparr>cur_bytes = short_ext, cur_pos = 700\<rparr>" by (simp add: cursor_inv_def length_ext_prefix)
  ultimately show ?thesis by fastforce
qed

text \<open>
  The volume that \<open>detect_boot_sector_within\<close> is given the length of is not the only one it looks at:
  a window of 512 zero bytes is an ext volume when the superblock of another one lies behind it.
\<close>

theorem detection_reads_behind_the_window:
  "take 512 short_ext = replicate 512 0
   \<and> (\<exists>s'. detect_boot_sector_within cursor_source 0 512 \<lparr>cur_bytes = short_ext, cur_pos = 0\<rparr> = (Ok DetExt, s'))"
proof
  show "take 512 short_ext = replicate 512 0" by (simp add: ext_prefix_def)
  have d: "detected_from_bytes (slice short_ext 0 FS_DETECT_PROBE_SIZE) = (Ok DetExt :: (_, io_error) outcome)"
    by (simp add: short_ext_prefix ext_prefix_detected)
  have inv: "cursor_inv \<lparr>cur_bytes = short_ext, cur_pos = 0\<rparr>" by (simp add: cursor_inv_def length_ext_prefix)
  show "\<exists>s'. detect_boot_sector_within cursor_source 0 512 \<lparr>cur_bytes = short_ext, cur_pos = 0\<rparr> = (Ok DetExt, s')"
    using cursor.detect_within_known [OF _ d _ _ inv] by auto
qed

end
