(* ===== verification/Disk.thy ===== *)
theory Disk
  imports Device_Detection Partition_Reader
begin

text \<open>
  \<open>fsmnt-device/src/disk.rs\<close> and \<open>disk/mbr.rs\<close>: opening a disk, which classifies its layout, resolves
  the logical partitions of an MBR through the chains of extended boot records, and recovers a GPT
  from the backup header; and the readers for its partitions. The CRC-32 of the backup header is
  computed by a library function, which is a parameter.
\<close>

section \<open>Data\<close>

record resolved_partition =
  rp_entry :: mbr_partition_entry
  rp_start_lba :: nat
  rp_logical :: bool

definition rp_start_offset :: "resolved_partition \<Rightarrow> nat \<Rightarrow> nat" where
  "rp_start_offset p sector_bytes = saturating_mul64 (rp_start_lba p) sector_bytes"

definition rp_size_bytes :: "resolved_partition \<Rightarrow> nat \<Rightarrow> (nat, 'e) outcome" where
  "rp_size_bytes p sector_bytes = me_size_bytes (rp_entry p) sector_bytes"

datatype disk_layout = Bare detected_boot_sector | GptLayout gpt_header bool | MbrLayout mbr | UnknownLayout

record 's disk =
  dk_reader :: 's
  dk_layout :: disk_layout
  dk_mbr_volumes :: "resolved_partition list"
  dk_sector_size :: nat

definition DEFAULT_SECTOR_SIZE :: nat where "DEFAULT_SECTOR_SIZE = 512"


section \<open>Extended boot records\<close>

definition is_data_entry :: "mbr_partition_entry \<Rightarrow> bool" where
  "is_data_entry e \<longleftrightarrow> \<not> me_is_empty e \<and> \<not> me_is_gpt_protective e \<and> \<not> is_extended e \<and> sector_count e \<noteq> 0"

definition is_link_entry :: "mbr_partition_entry \<Rightarrow> bool" where
  "is_link_entry e \<longleftrightarrow> is_extended e \<and> sector_count e \<noteq> 0"

text \<open>The logical partition that a record describes is appended if it lies inside the extended partition.\<close>

definition push_logical ::
  "nat \<Rightarrow> nat \<Rightarrow> nat \<Rightarrow> mbr \<Rightarrow> resolved_partition list \<times> 's \<Rightarrow> (unit, io_error) outcome \<times> resolved_partition list \<times> 's" where
  "push_logical base_lba end_lba ebr_lba ebr st =
     (case find is_data_entry (mbr_entries ebr) of
        None \<Rightarrow> (Ok (), st)
      | Some entry \<Rightarrow>
          and_do (ok_or InvalidData (checked_add64 ebr_lba (me_start_lba entry)), st) (\<lambda>start_lba st.
          and_do (ok_or InvalidData (checked_add64 start_lba (sector_count entry)), st) (\<lambda>partition_end st.
            if start_lba < base_lba \<or> end_lba < partition_end then (Err InvalidData, st)
            else (Ok (), fst st @ [\<lparr>rp_entry = entry, rp_start_lba = start_lba, rp_logical = True\<rparr>], snd st))))"

text \<open>
  One turn of the loop of \<open>read_ebr_chain\<close>, after its checks of the record's address: read the record,
  append the logical partition it describes, and find the address of the next record.
\<close>

definition ebr_step ::
  "'s source \<Rightarrow> nat \<Rightarrow> nat \<Rightarrow> nat \<Rightarrow> nat \<Rightarrow> resolved_partition list \<times> 's
    \<Rightarrow> (nat option, io_error) outcome \<times> resolved_partition list \<times> 's" where
  "ebr_step src base_lba end_lba sector_size ebr_lba st =
     and_do (ok_or InvalidData (checked_mul64 ebr_lba sector_size), st) (\<lambda>byte_offset st.
     and_do (apsnd (Pair (fst st)) (read_exact_from src (snd st) byte_offset sector_size)) (\<lambda>sector st.
     and_do (ok_or InvalidData (Option.bind (mbr_from_bytes sector) (\<lambda>m. if mbr_is_valid m then Some m else None)), st)
       (\<lambda>ebr st.
     and_do (push_logical base_lba end_lba ebr_lba ebr st) (\<lambda>_ st.
     case find is_link_entry (mbr_entries ebr) of
       None \<Rightarrow> (Ok None, st)
     | Some link \<Rightarrow>
         and_do (ok_or InvalidData (checked_add64 base_lba (me_start_lba link)), st) (\<lambda>lba st. (Ok (Some lba), st))))))"

function ebr_loop ::
  "'s source \<Rightarrow> nat \<Rightarrow> nat \<Rightarrow> nat \<Rightarrow> nat list \<Rightarrow> nat \<Rightarrow> resolved_partition list \<times> 's
    \<Rightarrow> (unit, io_error) outcome \<times> resolved_partition list \<times> 's" where
  "ebr_loop src base_lba end_lba sector_size visited ebr_lba st =
     (if ebr_lba < base_lba \<or> end_lba \<le> ebr_lba then (Err InvalidData, st)
      else if ebr_lba \<in> set visited then (Err InvalidData, st)
      else if 4096 < length (ebr_lba # visited) then (Err InvalidData, st)
      else and_do (ebr_step src base_lba end_lba sector_size ebr_lba st) (\<lambda>link st.
        case link of
          None \<Rightarrow> (Ok (), st)
        | Some lba \<Rightarrow> ebr_loop src base_lba end_lba sector_size (ebr_lba # visited) lba st))"
  by pat_completeness auto
termination by (relation "measure (\<lambda>(src, b, e, ss, visited, lba, st). 4097 - length visited)") auto

declare ebr_loop.simps [simp del]

definition read_ebr_chain ::
  "'s source \<Rightarrow> mbr_partition_entry \<Rightarrow> nat \<Rightarrow> resolved_partition list \<times> 's
    \<Rightarrow> (unit, io_error) outcome \<times> resolved_partition list \<times> 's" where
  "read_ebr_chain src extended sector_size st =
     (let base_lba = me_start_lba extended in
      and_do (ok_or InvalidData (checked_add64 base_lba (sector_count extended)), st) (\<lambda>end_lba st.
      if sector_size < BOOT_SECTOR_SIZE then (Err InvalidData, st)
      else ebr_loop src base_lba end_lba sector_size [] base_lba st))"

text \<open>A chain that ends in an error keeps the partitions found before it.\<close>

primrec resolve_chains ::
  "'s source \<Rightarrow> nat \<Rightarrow> mbr_partition_entry list \<Rightarrow> resolved_partition list \<times> 's
    \<Rightarrow> (resolved_partition list, io_error) outcome \<times> 's" where
  "resolve_chains src sector_size [] st = (Ok (fst st), snd st)"
| "resolve_chains src sector_size (extended # rest) st =
     (case read_ebr_chain src extended sector_size st of
        (Panic, st) \<Rightarrow> (Panic, snd st)
      | (Diverge, st) \<Rightarrow> (Diverge, snd st)
      | (_, st) \<Rightarrow> resolve_chains src sector_size rest st)"

definition resolve_volumes ::
  "'s source \<Rightarrow> mbr \<Rightarrow> nat \<Rightarrow> 's \<Rightarrow> (resolved_partition list, io_error) outcome \<times> 's" where
  "resolve_volumes src m sector_size s =
     resolve_chains src sector_size (filter is_link_entry (mbr_entries m))
       (map (\<lambda>e. \<lparr>rp_entry = e, rp_start_lba = me_start_lba e, rp_logical = False\<rparr>)
          (filter is_data_entry (mbr_entries m)), s)"


section \<open>Layout\<close>

definition backup_gpt_layout ::
  "(bytes \<Rightarrow> nat) \<Rightarrow> 's source \<Rightarrow> nat \<Rightarrow> 's \<Rightarrow> (disk_layout option, io_error) outcome \<times> 's" where
  "backup_gpt_layout crc32 src sector_size s =
     and_do (do_seek src s (End 0)) (\<lambda>len s.
     and_do (mul64 sector_size 2, s) (\<lambda>twice s.
     if len < twice then (Ok None, s)
     else if sector_size = 0 then (Panic, s)
     else let last_lba = len div sector_size - 1 in
     and_do (read_exact_from src s (last_lba * sector_size) 92) (\<lambda>buffer s.
     case gpt_header_from_bytes buffer of
       None \<Rightarrow> (Ok None, s)
     | Some header \<Rightarrow>
         if \<not> gh_is_valid header \<or> gh_current_lba header \<noteq> last_lba then (Ok None, s)
         else if \<not> (92 \<le> gh_header_size header \<and> gh_header_size header \<le> 512) then (Ok None, s)
         else and_do (read_exact_from src s (last_lba * sector_size) (gh_header_size header)) (\<lambda>covered s.
           let covered = take 16 covered @ replicate 4 0 @ drop 20 covered in
           if crc32 covered \<noteq> gh_header_crc32 header then (Ok None, s)
           else if last_lba \<le> gh_partition_entry_lba header then (Ok None, s)
           else (Ok (Some (GptLayout header True)), s)))))"

definition detect_layout ::
  "(bytes \<Rightarrow> nat) \<Rightarrow> 's source \<Rightarrow> nat \<Rightarrow> 's \<Rightarrow> (disk_layout, io_error) outcome \<times> 's" where
  "detect_layout crc32 src sector_size s =
     and_do (probe_at src 0 s) (\<lambda>probe s.
     if length (dp_prefix probe) < BOOT_SECTOR_SIZE then (Err UnexpectedEof, s)
     else if dp_detected probe = DetGptPartitioned then
       (case read_gpt_header src sector_size s of
          (Ok header, s) \<Rightarrow> (Ok (GptLayout header False), s)
        | (Err e, s) \<Rightarrow>
            and_do (backup_gpt_layout crc32 src sector_size s) (\<lambda>found s. (ok_or e found, s))
        | (Panic, s) \<Rightarrow> (Panic, s)
        | (Diverge, s) \<Rightarrow> (Diverge, s))
     else if dp_detected probe = DetMbrPartitioned then
       and_do (ok_or InvalidData (mbr_from_bytes (take BOOT_SECTOR_SIZE (dp_prefix probe))), s) (\<lambda>m s.
       and_do (if mbr_is_gpt_protective m then backup_gpt_layout crc32 src sector_size s else (Ok None, s)) (\<lambda>found s.
         (Ok (unwrap_or found (MbrLayout m)), s)))
     else if dp_detected probe = DetUnknown then
       and_do (backup_gpt_layout crc32 src sector_size s) (\<lambda>found s. (Ok (unwrap_or found UnknownLayout), s))
     else (Ok (Bare (dp_detected probe)), s))"

definition with_sector_size ::
  "(bytes \<Rightarrow> nat) \<Rightarrow> 's source \<Rightarrow> 's \<Rightarrow> nat \<Rightarrow> ('s disk, io_error) outcome \<times> 's" where
  "with_sector_size crc32 src reader sector_size =
     and_do (detect_layout crc32 src sector_size reader) (\<lambda>layout s.
     and_do (case layout of MbrLayout m \<Rightarrow> resolve_volumes src m sector_size s | _ \<Rightarrow> (Ok [], s)) (\<lambda>volumes s.
       (Ok \<lparr>dk_reader = s, dk_layout = layout, dk_mbr_volumes = volumes, dk_sector_size = sector_size\<rparr>, s)))"

definition disk_new :: "(bytes \<Rightarrow> nat) \<Rightarrow> 's source \<Rightarrow> 's \<Rightarrow> ('s disk, io_error) outcome \<times> 's" where
  "disk_new crc32 src reader = with_sector_size crc32 src reader DEFAULT_SECTOR_SIZE"

definition is_partitioned :: "'s disk \<Rightarrow> bool" where
  "is_partitioned d = (case dk_layout d of GptLayout h b \<Rightarrow> True | MbrLayout m \<Rightarrow> True | _ \<Rightarrow> False)"

definition partition_count :: "'s disk \<Rightarrow> nat" where
  "partition_count d =
     (case dk_layout d of
        GptLayout h b \<Rightarrow> gh_num_partition_entries h
      | MbrLayout m \<Rightarrow> length (valid_partitions m)
      | _ \<Rightarrow> 0)"


section \<open>Partitions\<close>

text \<open>The bytes of the entry, from one sector or from two.\<close>

definition entry_bytes ::
  "'s source \<Rightarrow> nat \<Rightarrow> nat \<Rightarrow> 's \<Rightarrow> (bytes, io_error) outcome \<times> 's" where
  "entry_bytes src sector_size entry_offset s =
     (let sector_offset = entry_offset div sector_size * sector_size;
          offset_within_sector = entry_offset mod sector_size;
          entry_end = offset_within_sector + 128 in
      and_do (read_exact_from src s sector_offset sector_size) (\<lambda>sector_buf s.
      if sector_size < entry_end then
        let first_part = sector_size - offset_within_sector in
        and_do (read_exact src s sector_size) (\<lambda>sector_buf2 s.
        and_do (subslice sector_buf2 0 (128 - first_part), s) (\<lambda>rest s.
          (Ok (drop offset_within_sector sector_buf @ rest), s)))
      else (subslice sector_buf offset_within_sector entry_end, s)))"

definition gpt_partition ::
  "'s source \<Rightarrow> nat \<Rightarrow> 's disk \<Rightarrow> (gpt_partition_entry, io_error) outcome \<times> 's disk" where
  "gpt_partition src index d =
     (case dk_layout d of
        GptLayout header b \<Rightarrow>
          (if gh_num_partition_entries header \<le> index then (Err InvalidInput, d)
           else let sector_size = dk_sector_size d; entry_size = gh_partition_entry_size header in
             if entry_size < 128 then (Err InvalidData, d)
             else and_do (ok_or InvalidData (Option.bind (checked_mul64 (gh_partition_entry_lba header) sector_size)
                 (\<lambda>array_offset. Option.bind (checked_mul64 index entry_size) (\<lambda>offset. checked_add64 array_offset offset))), d)
               (\<lambda>entry_offset d.
             if sector_size = 0 then (Panic, d)
             else and_do (apsnd (\<lambda>s. d\<lparr>dk_reader := s\<rparr>) (entry_bytes src sector_size entry_offset (dk_reader d)))
               (\<lambda>buf d. (ok_or InvalidData (gpt_entry_from_bytes buf), d))))
      | _ \<Rightarrow> (Err InvalidInput, d))"

definition mbr_partition :: "'s disk \<Rightarrow> nat \<Rightarrow> mbr_partition_entry option" where
  "mbr_partition d index =
     (case dk_layout d of
        MbrLayout m \<Rightarrow> (if index < length (mbr_entries m) then Some (mbr_entries m ! index) else None)
      | _ \<Rightarrow> None)"

definition mbr_partitions :: "'s disk \<Rightarrow> mbr_partition_entry list" where
  "mbr_partitions d =
     (case dk_layout d of
        MbrLayout m \<Rightarrow> filter (\<lambda>e. \<not> me_is_empty e \<and> \<not> me_is_gpt_protective e) (mbr_entries m)
      | _ \<Rightarrow> [])"

definition resolved_mbr_partition :: "'s disk \<Rightarrow> nat \<Rightarrow> resolved_partition option" where
  "resolved_mbr_partition d index =
     (if index < length (dk_mbr_volumes d) then Some (dk_mbr_volumes d ! index) else None)"

definition gpt_partition_reader ::
  "'s source \<Rightarrow> nat \<Rightarrow> 's disk \<Rightarrow> ('s partition_reader, io_error) outcome \<times> 's disk" where
  "gpt_partition_reader src index d =
     and_do (gpt_partition src index d) (\<lambda>entry d.
     if ge_is_empty entry then (Err InvalidInput, d)
     else and_do (ge_start_offset entry (dk_sector_size d), d) (\<lambda>offset d.
       and_do (ge_size_bytes entry (dk_sector_size d), d) (\<lambda>n d.
         (Ok (partition_new (dk_reader d) offset n), d))))"

definition mbr_partition_reader :: "nat \<Rightarrow> 's disk \<Rightarrow> ('s partition_reader, io_error) outcome \<times> 's disk" where
  "mbr_partition_reader index d =
     and_do (ok_or InvalidInput (mbr_partition d index), d) (\<lambda>entry d.
     and_do (me_start_offset entry (dk_sector_size d), d) (\<lambda>offset d.
     and_do (me_size_bytes entry (dk_sector_size d), d) (\<lambda>n d.
       (Ok (partition_new (dk_reader d) offset n), d))))"

definition resolved_mbr_partition_reader ::
  "nat \<Rightarrow> 's disk \<Rightarrow> ('s partition_reader, io_error) outcome \<times> 's disk" where
  "resolved_mbr_partition_reader index d =
     and_do (ok_or InvalidInput (resolved_mbr_partition d index), d) (\<lambda>p d.
     and_do (rp_size_bytes p (dk_sector_size d), d) (\<lambda>n d.
       (Ok (partition_new (dk_reader d) (rp_start_offset p (dk_sector_size d)) n), d)))"

definition disk_reader :: "'s disk \<Rightarrow> 's partition_reader" where
  "disk_reader d = partition_new (dk_reader d) 0 (2 ^ 64 - 1)"

end
