(* ===== verification/Disk_Correct.thy ===== *)
theory Disk_Correct
  imports Disk
begin

text \<open>
  The invariants of opening a disk: every layout is backed by the bytes it was read from, every
  resolved partition is a data entry or lies inside an extended partition, and the entries of a GPT
  are those of the array on the disk. All of it returns on every disk.
\<close>

section \<open>Opening a disk\<close>

definition mbr_wf :: "mbr \<Rightarrow> bool" where
  "mbr_wf m \<longleftrightarrow> (\<forall>e \<in> set (mbr_entries m). me_start_lba e < 2 ^ 32 \<and> sector_count e < 2 ^ 32)"

lemma mbr_from_bytes_wf: "mbr_from_bytes bs = Some m \<Longrightarrow> mbr_wf m"
  using le_field_bound [of _ 8 4] le_field_bound [of _ 12 4]
  by (auto simp: mbr_from_bytes_def mbr_wf_def parse_mbr_entry_def split: if_splits)

text \<open>
  A resolved partition is a data entry of the table, or a logical one that lies inside one of its
  extended partitions.
\<close>

definition inside :: "nat \<Rightarrow> nat \<Rightarrow> resolved_partition \<Rightarrow> bool" where
  "inside base_lba end_lba p \<longleftrightarrow> rp_logical p \<and> is_data_entry (rp_entry p) \<and> base_lba \<le> rp_start_lba p
     \<and> rp_start_lba p + sector_count (rp_entry p) \<le> end_lba"

definition volume_ok :: "mbr \<Rightarrow> resolved_partition \<Rightarrow> bool" where
  "volume_ok m p \<longleftrightarrow>
     (if rp_logical p
      then \<exists>e \<in> set (mbr_entries m). is_link_entry e \<and> inside (me_start_lba e) (me_start_lba e + sector_count e) p
      else rp_entry p \<in> set (mbr_entries m) \<and> is_data_entry (rp_entry p) \<and> rp_start_lba p = me_start_lba (rp_entry p))"

definition chain_inv ::
  "('s \<Rightarrow> bool) \<Rightarrow> ('s \<Rightarrow> bytes) \<Rightarrow> bytes \<Rightarrow> nat \<Rightarrow> nat \<Rightarrow> (resolved_partition \<Rightarrow> bool) \<Rightarrow> resolved_partition list \<times> 's \<Rightarrow> bool" where
  "chain_inv lawful content c b e P st \<longleftrightarrow>
     lawful (snd st) \<and> content (snd st) = c \<and> (\<forall>p \<in> set (fst st). P p \<or> inside b e p)"

text \<open>What a probe finds: the format of the prefix or, if that is unknown, a Btrfs superblock further in.\<close>

definition probe_finds :: "bytes \<Rightarrow> nat \<Rightarrow> detected_boot_sector \<Rightarrow> bool" where
  "probe_finds c offset d \<longleftrightarrow>
     detected_from_bytes (slice c offset FS_DETECT_PROBE_SIZE) = (Ok d :: (_, io_error) outcome)
     \<or> detected_from_bytes (slice c offset FS_DETECT_PROBE_SIZE) = (Ok DetUnknown :: (_, io_error) outcome)
       \<and> is_btrfs_primary_superblock (slice c (offset + BTRFS_PRIMARY_SUPERBLOCK_OFFSET) BTRFS_SUPERBLOCK_PROBE_SIZE)
           = (Ok True :: (_, io_error) outcome)
       \<and> d = DetBtrfs"

lemma ensures_ok_or: "I st \<Longrightarrow> (\<And>a. m = Some a \<Longrightarrow> ensures I P (f a st)) \<Longrightarrow> ensures I P (and_do (ok_or e m, st) f)"
  by (cases m) simp_all

lemma ensures_match:
  assumes "ensures I Q m" and "\<And>a s. Q a \<Longrightarrow> I s \<Longrightarrow> ensures I P (f a s)" and "\<And>e s. I s \<Longrightarrow> ensures I P (g e s)"
  shows "ensures I P (case m of (Ok a, s) \<Rightarrow> f a s | (Err e, s) \<Rightarrow> g e s | (Panic, s) \<Rightarrow> (Panic, s) | (Diverge, s) \<Rightarrow> (Diverge, s))"
  using assms by (cases m; cases "fst m") auto

lemma ensures_split_if: "(b \<Longrightarrow> ensures I P m) \<Longrightarrow> (\<not> b \<Longrightarrow> ensures I P n) \<Longrightarrow> ensures I P (if b then m else n)"
  by simp

lemma push_logical_inv:
  assumes "chain_inv lawful content c b e P st"
  shows "ensures (chain_inv lawful content c b e P) (\<lambda>_. True) (push_logical b e lba ebr st)"
proof (cases "find is_data_entry (mbr_entries ebr)")
  case (Some entry)
  then have "is_data_entry entry" by (auto simp: find_Some_iff)
  then show ?thesis
    using assms Some unfolding push_logical_def
    by (auto intro!: ensures_ok_or simp: chain_inv_def inside_def)
qed (use assms in \<open>simp add: push_logical_def\<close>)

context byte_reader
begin

lemma ensures_read_exact_from:
  assumes "lawful s" and "p < 2 ^ 63"
  shows "ensures (\<lambda>s'. lawful s' \<and> content s' = content s) (\<lambda>bs. bs = slice (content s) p n \<and> length bs = n)
    (read_exact_from src s p n)"
proof (cases "n = 0 \<or> p + n \<le> length (content s)")
  case True
  then have "length (slice (content s) p n) = n" by auto
  then show ?thesis using read_exact_from_ok [OF assms True] by auto
next
  case False
  then show ?thesis using read_exact_from_eof [OF assms, of n] by auto
qed

lemma ebr_step_inv:
  assumes st: "chain_inv lawful content c b e P st" and lba: "lba < 2 ^ 33" and ss: "ss \<le> 2 ^ 16"
  shows "ensures (chain_inv lawful content c b e P) (\<lambda>_. True) (ebr_step src b e ss lba st)"
proof -
  have "lba * ss < 2 ^ 33 * 2 ^ 17" using lba ss by (intro mult_strict_mono) auto
  then have off: "lba * ss < 2 ^ 63" by simp
  have read: "ensures (chain_inv lawful content c b e P) (\<lambda>_. True) (apsnd (Pair (fst st)) (read_exact_from src (snd st) (lba * ss) ss))"
    using ensures_read_exact_from [OF _ off, of "snd st" ss] st
    by (cases "read_exact_from src (snd st) (lba * ss) ss"; cases "fst (read_exact_from src (snd st) (lba * ss) ss)")
      (auto simp: chain_inv_def)
  show ?thesis
    unfolding ebr_step_def
    by (rule ensures_ok_or, rule st, clarsimp, rule ensures_and_do [OF read], rule ensures_ok_or, assumption,
        rule ensures_and_do [OF push_logical_inv], assumption)
      (auto split: option.split intro!: ensures_ok_or)
qed

lemma ebr_loop_inv:
  assumes "chain_inv lawful content c b e P st" and "e \<le> 2 ^ 33" and "ss \<le> 2 ^ 16"
  shows "ensures (chain_inv lawful content c b e P) (\<lambda>_. True) (ebr_loop src b e ss visited lba st)"
  using assms(1)
proof (induction "4097 - length visited" arbitrary: visited lba st rule: less_induct)
  case less
  show ?case
  proof (cases "lba < b \<or> e \<le> lba \<or> lba \<in> set visited \<or> 4096 < length (lba # visited)")
    case True
    with less.prems show ?thesis by (subst ebr_loop.simps) auto
  next
    case False
    then have lba: "lba < 2 ^ 33" using assms(2) by simp
    show ?thesis
      using False less.hyps
      by (subst ebr_loop.simps)
        (auto intro!: ensures_and_do [OF ebr_step_inv [OF less.prems lba assms(3)]] split: option.split)
  qed
qed

lemma read_ebr_chain_inv:
  assumes "lawful s" and "\<forall>p \<in> set vols. P p" and "me_start_lba x < 2 ^ 32" and "sector_count x < 2 ^ 32" and "ss \<le> 2 ^ 16"
  shows "ensures (chain_inv lawful content (content s) (me_start_lba x) (me_start_lba x + sector_count x) P) (\<lambda>_. True)
    (read_ebr_chain src x ss (vols, s))"
proof -
  have "chain_inv lawful content (content s) (me_start_lba x) (me_start_lba x + sector_count x) P (vols, s)"
    using assms(1,2) by (simp add: chain_inv_def)
  then show ?thesis
    using assms(3-5) unfolding read_ebr_chain_def Let_def
    by (auto intro!: ensures_ok_or ebr_loop_inv)
qed

lemma probe_at_prefix:
  assumes "lawful s" and "offset + 2 ^ 17 < 2 ^ 63"
  shows "ensures (\<lambda>s'. lawful s' \<and> content s' = content s)
    (\<lambda>pr. dp_prefix pr = slice (content s) offset FS_DETECT_PROBE_SIZE \<and> probe_finds (content s) offset (dp_detected pr))
    (probe_at src offset s)"
proof -
  let ?I = "\<lambda>s'. lawful s' \<and> content s' = content s"
  have read: "ensures ?I (\<lambda>bs. bs = slice (content s) p n) (read_at src p n s')" if "?I s'" "p < 2 ^ 63" for s' p n
    using yieldsD [OF yields_read_at [OF that(2), of "content s" n], of s'] that(1) by auto
  have pure: "ensures ?I (\<lambda>a. r = Ok a) (r, s')" if "succeeds r" "?I s'" for r :: "('a, io_error) outcome" and s'
    using that by (auto simp: succeeds_def)
  have p: "offset < 2 ^ 63" "offset + BTRFS_PRIMARY_SUPERBLOCK_OFFSET < 2 ^ 63"
    using assms(2) by (simp_all add: BTRFS_PRIMARY_SUPERBLOCK_OFFSET_def)
  show ?thesis
    unfolding probe_at_def
    by (rule ensures_and_do [OF read], use assms p in simp, use p in simp)
      (auto intro!: ensures_and_do [OF pure] ensures_and_do [OF read] ensures_ok_or simp: p [simplified] succeeds_detected succeeds_is_btrfs
        probe_finds_def)
qed

lemma resolve_chains_ok:
  assumes "mbr_wf m" and "set xs \<subseteq> {e \<in> set (mbr_entries m). is_link_entry e}" and "ss \<le> 2 ^ 16"
    and "lawful s" and "\<forall>p \<in> set vols. volume_ok m p"
  shows "ensures (\<lambda>s'. lawful s' \<and> content s' = content s) (\<lambda>vs. \<forall>p \<in> set vs. volume_ok m p)
    (resolve_chains src ss xs (vols, s))"
  using assms(2,4,5)
proof (induction xs arbitrary: vols s)
  case (Cons x xs)
  then have x: "x \<in> set (mbr_entries m)" "is_link_entry x" by auto
  then have "me_start_lba x < 2 ^ 32" "sector_count x < 2 ^ 32" using assms(1) by (auto simp: mbr_wf_def)
  from read_ebr_chain_inv [OF Cons.prems(2,3) this assms(3)] obtain r vs s' where
    r: "read_ebr_chain src x ss (vols, s) = (r, vs, s')" "answers r (\<lambda>_. True)"
    and inv: "chain_inv lawful content (content s) (me_start_lba x) (me_start_lba x + sector_count x) (volume_ok m) (vs, s')"
    by (elim ensuresE) auto
  have "volume_ok m p" if "p \<in> set vs" for p
    using inv that x by (auto simp: chain_inv_def volume_ok_def inside_def)
  moreover have "lawful s'" "content s' = content s" using inv by (simp_all add: chain_inv_def)
  ultimately show ?case using Cons.IH [of s' vs] Cons.prems(1) r by (cases r) simp_all
qed simp

lemma resolve_volumes_ok:
  assumes "mbr_wf m" and "ss \<le> 2 ^ 16" and "lawful s"
  shows "ensures (\<lambda>s'. lawful s' \<and> content s' = content s) (\<lambda>vs. \<forall>p \<in> set vs. volume_ok m p) (resolve_volumes src m ss s)"
  unfolding resolve_volumes_def
  by (rule resolve_chains_ok [OF assms(1) _ assms(2,3)]) (auto simp: volume_ok_def)

end

text \<open>The header that a backup layout is made of, at the last sector of the disk.\<close>

definition backup_header :: "(bytes \<Rightarrow> nat) \<Rightarrow> bytes \<Rightarrow> nat \<Rightarrow> gpt_header \<Rightarrow> bool" where
  "backup_header crc32 c ss h \<longleftrightarrow>
     (let last_lba = length c div ss - 1; covered = slice c (last_lba * ss) (gh_header_size h) in
      gpt_header_from_bytes (slice c (last_lba * ss) 92) = Some h \<and> gh_is_valid h \<and> gh_current_lba h = last_lba
      \<and> gh_partition_entry_lba h < last_lba \<and> crc32 (take 16 covered @ replicate 4 0 @ drop 20 covered) = gh_header_crc32 h)"

definition layout_ok :: "(bytes \<Rightarrow> nat) \<Rightarrow> bytes \<Rightarrow> nat \<Rightarrow> disk_layout \<Rightarrow> bool" where
  "layout_ok crc32 c ss l =
     (case l of
        Bare d \<Rightarrow> probe_finds c 0 d \<and> d \<notin> {DetUnknown, DetGptPartitioned, DetMbrPartitioned}
      | GptLayout h from_backup \<Rightarrow>
          (if from_backup then backup_header crc32 c ss h else gpt_header_from_bytes (slice c ss 92) = Some h \<and> gh_is_valid h)
      | MbrLayout m \<Rightarrow> mbr_from_bytes (slice c 0 512) = Some m
      | UnknownLayout \<Rightarrow> True)"

lemma layout_ok_simps [simp]:
  "layout_ok crc32 c ss (Bare d) \<longleftrightarrow> probe_finds c 0 d \<and> d \<notin> {DetUnknown, DetGptPartitioned, DetMbrPartitioned}"
  "layout_ok crc32 c ss (GptLayout h False) \<longleftrightarrow> gpt_header_from_bytes (slice c ss 92) = Some h \<and> gh_is_valid h"
  "layout_ok crc32 c ss (GptLayout h True) \<longleftrightarrow> backup_header crc32 c ss h"
  "layout_ok crc32 c ss (MbrLayout m) \<longleftrightarrow> mbr_from_bytes (slice c 0 512) = Some m"
  "layout_ok crc32 c ss UnknownLayout"
  by (simp_all add: layout_ok_def)

definition disk_ok ::
  "('s \<Rightarrow> bool) \<Rightarrow> ('s \<Rightarrow> bytes) \<Rightarrow> (bytes \<Rightarrow> nat) \<Rightarrow> bytes \<Rightarrow> nat \<Rightarrow> 's disk \<Rightarrow> bool" where
  "disk_ok lawful content crc32 c ss d \<longleftrightarrow>
     dk_sector_size d = ss \<and> lawful (dk_reader d) \<and> content (dk_reader d) = c \<and> layout_ok crc32 c ss (dk_layout d)
     \<and> (case dk_layout d of
          MbrLayout m \<Rightarrow> \<forall>p \<in> set (dk_mbr_volumes d). volume_ok m p
        | _ \<Rightarrow> dk_mbr_volumes d = [])"

context byte_source
begin

lemma backup_gpt_layout_ok:
  assumes "lawful s" and "0 < ss" and "ss \<le> 2 ^ 16"
  shows "ensures (\<lambda>s'. lawful s' \<and> content s' = content s)
    (\<lambda>l. \<forall>x. l = Some x \<longrightarrow> layout_ok crc32 (content s) ss x) (backup_gpt_layout crc32 src ss s)"
proof -
  let ?c = "content s" let ?last = "length ?c div ss - 1"
  obtain s1 where s1: "do_seek src s (End 0) = (Ok (length ?c), s1)" "lawful s1" "content s1 = ?c"
    using seek_end [OF assms(1)] by blast
  have two: "mul64 ss 2 = Ok (2 * ss)" using assms(3) by (simp add: mul64_def mult.commute)
  have "?last * ss \<le> length ?c div ss * ss" by (simp add: diff_mult_distrib)
  then have off: "?last * ss < 2 ^ 63" using content_bound [OF assms(1)] div_times_less_eq_dividend [of "length ?c" ss] by linarith
  have read: "ensures (\<lambda>s'. lawful s' \<and> content s' = ?c) (\<lambda>bs. bs = slice ?c (?last * ss) n) (read_exact_from src s' (?last * ss) n)"
    if "lawful s'" "content s' = ?c" for s' n
    by (rule ensures_mono [OF ensures_read_exact_from [OF that(1) off]]) (simp_all add: that(2))
  show ?thesis
    unfolding backup_gpt_layout_def s1(1) two
    by (auto simp: Let_def s1 assms(2) intro!: ensures_and_do [OF read [unfolded One_nat_def]] split: option.split)
      (auto simp: layout_ok_def backup_header_def Let_def)
qed

lemma detect_layout_ok:
  assumes "lawful s" and "0 < ss" and "ss \<le> 2 ^ 16"
  shows "ensures (\<lambda>s'. lawful s' \<and> content s' = content s) (layout_ok crc32 (content s) ss) (detect_layout crc32 src ss s)"
proof -
  let ?I = "\<lambda>s'. lawful s' \<and> content s' = content s"
  have backup: "ensures ?I (\<lambda>l. \<forall>x. l = Some x \<longrightarrow> layout_ok crc32 (content s) ss x) (backup_gpt_layout crc32 src ss s')"
    if "?I s'" for s'
    using backup_gpt_layout_ok [of s' ss crc32] that assms(2,3) by simp
  have read: "ensures ?I (\<lambda>bs. bs = slice (content s) p n) (read_exact_from src s' p n)" if "?I s'" "p < 2 ^ 63" for s' p n
    by (rule ensures_mono [OF ensures_read_exact_from [OF conjunct1 [OF that(1)] that(2)]]) (simp_all add: that(1))
  have ss: "ss < 2 ^ 63" using assms(3) by simp
  have header: "ensures ?I (\<lambda>h. gpt_header_from_bytes (slice (content s) ss 92) = Some h \<and> gh_is_valid h) (read_gpt_header src ss s')"
    if "?I s'" for s'
    unfolding read_gpt_header_def
    by (rule ensures_and_do [OF read [OF that ss]], rule ensures_ok_or) auto
  show ?thesis
    unfolding detect_layout_def
  proof (rule ensures_and_do [OF probe_at_prefix [OF assms(1), of 0]])
    show "0 + 2 ^ 17 < (2 ^ 63 :: nat)" by simp
  next
    fix pr s'
    assume "dp_prefix pr = slice (content s) 0 FS_DETECT_PROBE_SIZE \<and> probe_finds (content s) 0 (dp_detected pr)" and s': "?I s'"
    then have pr: "dp_prefix pr = slice (content s) 0 FS_DETECT_PROBE_SIZE" and found: "probe_finds (content s) 0 (dp_detected pr)" by auto
    have m: "take BOOT_SECTOR_SIZE (dp_prefix pr) = slice (content s) 0 512"
      by (simp add: pr slice_def BOOT_SECTOR_SIZE_def FS_DETECT_PROBE_SIZE_def QNX6_SUPERBLOCK_SIZE_def min_def)
    have none: "ensures ?I (\<lambda>l. \<forall>x. l = Some x \<longrightarrow> layout_ok crc32 (content s) ss x)
        (if b then backup_gpt_layout crc32 src ss s' else (Ok None, s'))" if "?I s'" for b s'
      using backup [OF that] that by simp
    show "ensures ?I (layout_ok crc32 (content s) ss)
       (if length (dp_prefix pr) < BOOT_SECTOR_SIZE then (Err UnexpectedEof, s')
        else if dp_detected pr = DetGptPartitioned then
          (case read_gpt_header src ss s' of
             (Ok header, s) \<Rightarrow> (Ok (GptLayout header False), s)
           | (Err e, s) \<Rightarrow> and_do (backup_gpt_layout crc32 src ss s) (\<lambda>found s. (ok_or e found, s))
           | (Panic, s) \<Rightarrow> (Panic, s)
           | (Diverge, s) \<Rightarrow> (Diverge, s))
        else if dp_detected pr = DetMbrPartitioned then
          and_do (ok_or InvalidData (mbr_from_bytes (take BOOT_SECTOR_SIZE (dp_prefix pr))), s') (\<lambda>m s.
          and_do (if mbr_is_gpt_protective m then backup_gpt_layout crc32 src ss s else (Ok None, s)) (\<lambda>found s.
            (Ok (unwrap_or found (MbrLayout m)), s)))
        else if dp_detected pr = DetUnknown then
          and_do (backup_gpt_layout crc32 src ss s') (\<lambda>found s. (Ok (unwrap_or found UnknownLayout), s))
        else (Ok (Bare (dp_detected pr)), s'))"
      unfolding m using s' found
      by (intro ensures_split_if ensures_match [OF header] ensures_and_do [OF none] ensures_and_do [OF backup] ensures_ok_or)
       (auto simp: unwrap_or_def answers_ok_or split: option.split)
  qed
qed

lemma with_sector_size_ok:
  assumes "lawful s" and "0 < ss" and "ss \<le> 2 ^ 16"
  shows "answers (fst (with_sector_size crc32 src s ss)) (disk_ok lawful content crc32 (content s) ss)"
proof -
  have "ensures (\<lambda>s'. lawful s' \<and> content s' = content s) (disk_ok lawful content crc32 (content s) ss)
      (with_sector_size crc32 src s ss)"
    unfolding with_sector_size_def
  proof (rule ensures_and_do [OF detect_layout_ok [OF assms]])
    fix l s'
    assume l: "layout_ok crc32 (content s) ss l" and s': "lawful s' \<and> content s' = content s"
    have "ensures (\<lambda>s'. lawful s' \<and> content s' = content s) (\<lambda>vs. case l of MbrLayout m \<Rightarrow> \<forall>p \<in> set vs. volume_ok m p | _ \<Rightarrow> vs = [])
        (case l of MbrLayout m \<Rightarrow> resolve_volumes src m ss s' | _ \<Rightarrow> (Ok [], s'))"
      using l s' resolve_volumes_ok [OF mbr_from_bytes_wf assms(3), of _ _ s'] by (cases l) auto
    then show "ensures (\<lambda>s'. lawful s' \<and> content s' = content s) (disk_ok lawful content crc32 (content s) ss)
        (and_do (case l of MbrLayout m \<Rightarrow> resolve_volumes src m ss s' | _ \<Rightarrow> (Ok [], s')) (\<lambda>volumes s.
          (Ok \<lparr>dk_reader = s, dk_layout = l, dk_mbr_volumes = volumes, dk_sector_size = ss\<rparr>, s)))"
      by (rule ensures_and_do) (use l in \<open>auto simp: disk_ok_def split: disk_layout.split\<close>)
  qed
  then show ?thesis by (simp add: ensures_def)
qed

end


section \<open>The entries of a GPT\<close>

context byte_reader
begin

lemma read_exact_at:
  assumes "lawful s"
  shows "\<exists>s'. read_exact src s n = (if n = 0 \<or> pos s + n \<le> length (content s) then Ok (slice (content s) (pos s) n)
      else Err UnexpectedEof, s') \<and> lawful s' \<and> content s' = content s"
proof (cases "n = 0 \<or> pos s + n \<le> length (content s)")
  case True
  with read_exact_loop_ok [OF assms one_dvd one_dvd, of n "[]"] show ?thesis by (auto simp: read_exact_def)
next
  case False
  with read_exact_loop_eof [OF assms one_dvd one_dvd, of n "[]"] show ?thesis by (auto simp: read_exact_def)
qed

text \<open>The entry is read sector by sector, and what is read is the entry.\<close>

lemma entry_bytes_eq:
  assumes "lawful s" and "128 \<le> ss" and "ss dvd length (content s)" and "off < 2 ^ 63"
  shows "\<exists>s'. entry_bytes src ss off s
      = (if off + 128 \<le> length (content s) then Ok (slice (content s) off 128) else Err UnexpectedEof, s')
    \<and> lawful s' \<and> content s' = content s"
proof -
  let ?c = "content s" and ?q = "off div ss" and ?r = "off mod ss"
  have off: "off = ?q * ss + ?r" and r: "?r < ss" using assms(2) by simp_all
  obtain k where k: "length ?c = k * ss" using assms(3) by (auto simp: dvd_def mult.commute)
  have p: "?q * ss < 2 ^ 63" using off assms(4) by linarith
  show ?thesis
  proof (cases "?q * ss + ss \<le> length ?c")
    case True
    then obtain s1 where s1: "read_exact_from src s (?q * ss) ss = (Ok (slice ?c (?q * ss) ss), s1)" "lawful s1"
      "pos s1 = ?q * ss + ss" "content s1 = ?c"
      using read_exact_from_ok [OF assms(1) p, of ss] by auto
    show ?thesis
    proof (cases "ss < ?r + 128")
      case False
      then have "off + 128 \<le> length ?c" using True off by linarith
      moreover have "slice (slice ?c (?q * ss) ss) ?r 128 = slice ?c off 128"
        using False by (subst slice_slice) simp_all
      ultimately show ?thesis using False s1 True
        by (simp add: entry_bytes_def Let_def subslice_def)
    next
      case two: True
      define n where "n = 128 - (ss - ?r)"
      have n: "n \<le> ss" "ss - ?r + n = 128" unfolding n_def using assms(2) r two by linarith+
      have idx: "?q * ss + ss = off + (ss - ?r)" using off r by linarith
      have join: "drop ?r (slice ?c (?q * ss) ss) @ slice (slice ?c (?q * ss + ss) ss) 0 n = slice ?c off 128"
      proof -
        have "drop ?r (slice ?c (?q * ss) ss) = slice ?c off (ss - ?r)" using off by (simp add: drop_slice)
        moreover have "slice (slice ?c (?q * ss + ss) ss) 0 n = slice ?c (off + (ss - ?r)) n"
          using n(1) by (simp only: slice_slice idx add_0 add_0_right)
        ultimately show ?thesis using slice_append_slice [of ?c off "ss - ?r" n] n(2) by simp
      qed
      from read_exact_at [OF s1(2), of ss] obtain s2 where
        s2: "read_exact src s1 ss = (if ?q * ss + ss + ss \<le> length ?c then Ok (slice ?c (?q * ss + ss) ss)
            else Err UnexpectedEof, s2)" "lawful s2" "content s2 = ?c"
        using s1(3,4) assms(2) by auto
      have "off + 128 \<le> length ?c \<longleftrightarrow> ?q * ss + ss + ss \<le> length ?c"
      proof
        assume "off + 128 \<le> length ?c"
        then have "?q * ss + ss < k * ss" using two off k by linarith
        then have "(?q + 1) * ss < k * ss" by (simp add: algebra_simps)
        then have "?q + 1 < k" by (simp only: mult_less_cancel2)
        then have "?q + 2 \<le> k" by simp
        from mult_le_mono1 [OF this, of ss] show "?q * ss + ss + ss \<le> length ?c" by (simp add: k)
      qed (use off r assms(2) in linarith)
      then show ?thesis using s1 s2 two join n(1) True r
        by (auto simp: entry_bytes_def Let_def subslice_def n_def [symmetric])
    qed
  next
    case False
    then have "k * ss < (?q + 1) * ss" by (simp add: k)
    then have "k < ?q + 1" by (simp only: mult_less_cancel2)
    then have "k \<le> ?q" by simp
    from mult_le_mono1 [OF this, of ss] have "\<not> off + 128 \<le> length ?c" using off k by linarith
    then show ?thesis
      using read_exact_from_eof [OF assms(1) p, of ss] False assms(2) by (auto simp: entry_bytes_def Let_def)
  qed
qed

lemma gpt_partition_eq:
  assumes "lawful (dk_reader d)" and "128 \<le> dk_sector_size d" and "dk_sector_size d dvd length (content (dk_reader d))"
    and "dk_layout d = GptLayout h b" and "i < gh_num_partition_entries h" and "128 \<le> gh_partition_entry_size h"
    and "gh_partition_entry_lba h * dk_sector_size d + i * gh_partition_entry_size h < 2 ^ 63"
  shows "\<exists>s. gpt_partition src i d =
      (let off = gh_partition_entry_lba h * dk_sector_size d + i * gh_partition_entry_size h; c = content (dk_reader d)
       in if off + 128 \<le> length c then Ok (the (gpt_entry_from_bytes (slice c off 128))) else Err UnexpectedEof,
       d\<lparr>dk_reader := s\<rparr>) \<and> lawful s \<and> content s = content (dk_reader d)"
proof -
  let ?off = "gh_partition_entry_lba h * dk_sector_size d + i * gh_partition_entry_size h"
  have e: "\<exists>e. gpt_entry_from_bytes (slice (content (dk_reader d)) ?off 128) = Some e" if "?off + 128 \<le> length (content (dk_reader d))"
    using that by (simp add: gpt_entry_from_bytes_def)
  have cm: "checked_mul64 (gh_partition_entry_lba h) (dk_sector_size d) = Some (gh_partition_entry_lba h * dk_sector_size d)"
    "checked_mul64 i (gh_partition_entry_size h) = Some (i * gh_partition_entry_size h)"
    "checked_add64 (gh_partition_entry_lba h * dk_sector_size d) (i * gh_partition_entry_size h) = Some ?off"
    using assms(7) by (simp_all add: checked_mul64_def checked_add64_def)
  from entry_bytes_eq [OF assms(1-3,7)] obtain s where
    "entry_bytes src (dk_sector_size d) ?off (dk_reader d)
      = (if ?off + 128 \<le> length (content (dk_reader d)) then Ok (slice (content (dk_reader d)) ?off 128) else Err UnexpectedEof, s)"
    "lawful s" "content s = content (dk_reader d)" by blast
  then show ?thesis
    using assms(2,4-6) e by (intro exI [of _ s]) (auto simp: gpt_partition_def cm Let_def)
qed

end

end
