(* ===== verification/Disk_Properties.thy ===== *)
theory Disk_Properties
  imports Disk_Correct Fat_Sample
begin

text \<open>
  The properties of a disk and of its partitions, and the composition of a disk, a partition reader
  and the FAT driver; with a disk of ten sectors on which they are applied.
\<close>

section \<open>A disk with a logical partition\<close>

text \<open>An MBR with an extended partition, its record with one logical partition, and the FAT12 volume there.\<close>

definition table_sector :: "bytes \<Rightarrow> u8 \<Rightarrow> u8 \<Rightarrow> u8 \<Rightarrow> bytes" where
  "table_sector code t start n = code @ [0, 0, 0, 0, t, 0, 0, 0, start, 0, 0, 0, n, 0, 0, 0] @ replicate 48 0 @ [0x55, 0xAA]"

definition logical_code :: bytes where "logical_code = replicate 11 0 @ [1] @ replicate 434 0"

definition logical_disk :: bytes where
  "logical_disk = table_sector logical_code 5 1 9 @ table_sector (replicate 446 0) 1 1 7 @ floppy_bytes @ replicate 512 0"

definition table_entry :: "nat \<Rightarrow> nat \<Rightarrow> nat \<Rightarrow> mbr_partition_entry" where
  "table_entry t start n = \<lparr>boot_indicator = 0, start_head = 0, start_sector_cylinder = [0, 0], partition_type = t,
     end_head = 0, end_sector_cylinder = [0, 0], me_start_lba = start, sector_count = n\<rparr>"

definition table_mbr :: "bytes \<Rightarrow> nat \<Rightarrow> nat \<Rightarrow> nat \<Rightarrow> mbr" where
  "table_mbr code t start n = \<lparr>mbr_boot_code = code,
     mbr_entries = table_entry t start n # replicate 3 (table_entry 0 0 0), mbr_signature = 0xAA55\<rparr>"

lemma length_logical:
  "length (table_sector code t start n) = length code + 66" "length logical_code = 446" "length logical_disk = 5120"
  by (simp_all add: table_sector_def logical_code_def logical_disk_def length_floppy)

lemma parse_table_entries:
  "parse_mbr_entry [0, 0, 0, 0, t, 0, 0, 0, start, 0, 0, 0, n, 0, 0, 0] = table_entry (unat t) (unat start) (unat n)"
  "parse_mbr_entry (replicate 16 0) = table_entry 0 0 0"
  by (simp_all add: parse_mbr_entry_def table_entry_def le_field_def slice_def numeral_2_eq_2)

lemma table_sector_parsed:
  assumes "length code = 446"
  shows "mbr_from_bytes (table_sector code t start n @ rest) = Some (table_mbr code (unat t) (unat start) (unat n))"
proof -
  let ?d = "table_sector code t start n @ rest"
  have e: "slice ?d 446 16 = [0, 0, 0, 0, t, 0, 0, 0, start, 0, 0, 0, n, 0, 0, 0]" "slice ?d 462 16 = replicate 16 0"
    "slice ?d 478 16 = replicate 16 0" "slice ?d 494 16 = replicate 16 0" "slice ?d 510 2 = [0x55, 0xAA]"
    "slice ?d 0 446 = code"
    using assms by (simp_all add: table_sector_def slice_def)
  have "[0 ..< 4] = [0, 1, 2, 3 :: nat]" by (simp add: upt_rec)
  then show ?thesis
    using assms by (simp add: mbr_from_bytes_def length_logical MBR_ENTRY_SIZE_def e parse_table_entries table_mbr_def
        le_field_def numeral_3_eq_3)
qed

definition logical_mbr :: mbr where "logical_mbr = table_mbr logical_code 5 1 9"

definition logical_partition :: resolved_partition where
  "logical_partition = \<lparr>rp_entry = table_entry 1 1 7, rp_start_lba = 2, rp_logical = True\<rparr>"

lemma logical_mbr_parsed: "mbr_from_bytes logical_disk = Some logical_mbr" "mbr_from_bytes (take 512 logical_disk) = Some logical_mbr"
  using table_sector_parsed [OF length_logical(2), of 5 1 9 "drop 512 logical_disk"]
    table_sector_parsed [OF length_logical(2), of 5 1 9 "[]"]
  by (simp_all add: logical_disk_def length_logical logical_mbr_def)

lemma logical_disk_detected: "detected_from_bytes logical_disk = Ok DetMbrPartitioned"
proof -
  have len: "512 \<le> length logical_disk" by (simp add: length_logical)
  then obtain h e16 e32 en x where
    "try_parse_filesystem logical_disk = filesystem_cascade logical_disk h (sector_bpb logical_disk) e16 e32 en x"
    by (rule try_parse_filesystem_cascade)
  moreover have "\<not> list_all (\<lambda>b. b = 0) (slice logical_disk 11 53)" "bytes_per_sector (sector_bpb logical_disk) = 1"
    by (simp_all add: logical_disk_def table_sector_def logical_code_def slice_def sector_bpb_def parse_dos_bpb_def le_field_def)
  ultimately have fs: "try_parse_filesystem logical_disk = Err PeInvalidBytesPerSector"
    by (simp add: filesystem_cascade_def)
  have sig: "le_field logical_disk 510 2 = BOOT_SIGNATURE"
    by (simp add: logical_disk_def table_sector_def length_logical slice_def le_field_def BOOT_SIGNATURE_def)
  have m: "mbr_is_valid logical_mbr" "\<not> mbr_is_gpt_protective logical_mbr" "valid_partitions logical_mbr \<noteq> []"
    "is_plausible_table logical_mbr"
    by (simp_all add: logical_mbr_def table_mbr_def mbr_is_valid_def MBR_SIGNATURE_def mbr_is_gpt_protective_def
        me_is_gpt_protective_def MBR_TYPE_GPT_PROTECTIVE_def valid_partitions_def me_is_empty_def table_entry_def
        is_plausible_table_def saturating_add64_def numeral_3_eq_3)
  have "\<not> list_all (\<lambda>b. b = 0) logical_disk" by (simp add: logical_disk_def table_sector_def)
  with fs sig m len show ?thesis
    by (simp add: detected_from_bytes_def diagnose_boot_sector_def diagnose_boot_sector_standard_def parse_boot_sector_def
        BOOT_SECTOR_SIZE_def try_parse_partition_table_def logical_mbr_parsed standard_is_authoritative_def)
qed

definition logical_cursor :: "nat \<Rightarrow> cursor" where
  "logical_cursor p = \<lparr>cur_bytes = logical_disk, cur_pos = p\<rparr>"

lemma logical_inv: "cursor_inv (logical_cursor p)"
  by (simp add: cursor_inv_def logical_cursor_def length_logical)

lemma logical_resolved:
  "\<exists>p. resolve_volumes cursor_source logical_mbr 512 (logical_cursor q) = (Ok [logical_partition], logical_cursor p)"
proof -
  have "length (cur_bytes (logical_cursor q)) = 5120" by (simp add: logical_cursor_def length_logical)
  then have "\<exists>s'. read_exact_from cursor_source (logical_cursor q) 512 512 = (Ok (slice logical_disk 512 512), s')
      \<and> cursor_inv s' \<and> cur_pos s' = 1024 \<and> cur_bytes s' = logical_disk"
    using cursor.read_exact_from_ok [OF logical_inv, of 512 512 q] by (simp add: logical_cursor_def)
  then have read: "read_exact_from cursor_source (logical_cursor q) 512 512 = (Ok (slice logical_disk 512 512), logical_cursor 1024)"
    by (auto simp: logical_cursor_def intro: cursor.equality)
  have ebr: "mbr_from_bytes (slice logical_disk 512 512) = Some (table_mbr (replicate 446 0) 1 1 7)"
    using table_sector_parsed [of "replicate 446 0" 1 1 7 "[]"]
    by (simp add: logical_disk_def slice_def length_logical)
  note entry = is_data_entry_def is_link_entry_def me_is_empty_def me_is_gpt_protective_def MBR_TYPE_GPT_PROTECTIVE_def
    is_extended_def MBR_TYPES_EXTENDED_def table_entry_def
  have step: "ebr_step cursor_source 1 10 512 1 ([], logical_cursor q) = (Ok None, [logical_partition], logical_cursor 1024)"
    by (simp add: ebr_step_def checked_mul64_def read ebr table_mbr_def mbr_is_valid_def MBR_SIGNATURE_def push_logical_def
        numeral_3_eq_3 entry checked_add64_def logical_partition_def)
  have "read_ebr_chain cursor_source (table_entry 5 1 9) 512 ([], logical_cursor q) = (Ok (), [logical_partition], logical_cursor 1024)"
    using step by (simp add: read_ebr_chain_def table_entry_def checked_add64_def BOOT_SECTOR_SIZE_def ebr_loop.simps Let_def)
  then show ?thesis
    by (simp add: resolve_volumes_def logical_mbr_def table_mbr_def numeral_3_eq_3 entry) blast
qed

lemma logical_opened:
  "\<exists>p. with_sector_size crc32 cursor_source (logical_cursor q) 512
     = (Ok \<lparr>dk_reader = logical_cursor p, dk_layout = MbrLayout logical_mbr, dk_mbr_volumes = [logical_partition],
          dk_sector_size = 512\<rparr>, logical_cursor p)"
proof -
  have "slice logical_disk 0 FS_DETECT_PROBE_SIZE = logical_disk"
    by (simp add: slice_def length_logical FS_DETECT_PROBE_SIZE_def QNX6_SUPERBLOCK_SIZE_def)
  then obtain s where "read_at cursor_source 0 FS_DETECT_PROBE_SIZE (logical_cursor q) = (Ok logical_disk, s)"
    "cur_bytes s = logical_disk"
    using yieldsD [OF cursor.yields_read_at [of 0 logical_disk FS_DETECT_PROBE_SIZE], of "logical_cursor q"] logical_inv
    by (auto simp: logical_cursor_def)
  then have "read_at cursor_source 0 FS_DETECT_PROBE_SIZE (logical_cursor q) = (Ok logical_disk, logical_cursor (cur_pos s))"
    by (auto simp: logical_cursor_def intro: cursor.equality)
  moreover have "\<not> mbr_is_gpt_protective logical_mbr"
    by (simp add: logical_mbr_def table_mbr_def mbr_is_gpt_protective_def me_is_gpt_protective_def
        MBR_TYPE_GPT_PROTECTIVE_def table_entry_def)
  ultimately have "detect_layout crc32 cursor_source 512 (logical_cursor q) = (Ok (MbrLayout logical_mbr), logical_cursor (cur_pos s))"
    by (simp add: detect_layout_def probe_at_def logical_disk_detected length_logical BOOT_SECTOR_SIZE_def
        logical_mbr_parsed unwrap_or_def)
  then show ?thesis
    using logical_resolved [of "cur_pos s"] by (auto simp: with_sector_size_def)
qed


section \<open>Opening a disk\<close>

text \<open>
  C31: opening any disk returns, whatever its bytes: damaged tables and chains of extended boot
  records that loop end in a result or an error. The layout of an opened disk is backed by the bytes
  it was read from, a disk without a table by the format they show, a GPT recovered from the end of
  the disk by a header with a matching checksum and address; and every partition resolved from an MBR is a data entry of the table or lies entirely
  inside one of its extended partitions.
\<close>

theorem opened_disk_is_sound:
  assumes "byte_source src lawful pos content" and "lawful s" and "0 < ss" and "ss \<le> 2 ^ 16"
  shows "answers (fst (with_sector_size crc32 src s ss)) (\<lambda>d.
      dk_sector_size d = ss \<and> content (dk_reader d) = content s \<and> layout_ok crc32 (content s) ss (dk_layout d)
      \<and> (\<forall>m. dk_layout d = MbrLayout m \<longrightarrow> (\<forall>p \<in> set (dk_mbr_volumes d). volume_ok m p)))"
  by (rule answers_mono [OF byte_source.with_sector_size_ok [OF assms]]) (auto simp: disk_ok_def)

theorem opened_disk_is_sound_witness:
  "(\<exists>d s. with_sector_size (\<lambda>_. 0) cursor_source (logical_cursor 0) 512 = (Ok d, s)
     \<and> dk_layout d = MbrLayout logical_mbr \<and> dk_mbr_volumes d = [logical_partition])
   \<and> volume_ok logical_mbr logical_partition"
proof -
  obtain p where "with_sector_size (\<lambda>_. 0) cursor_source (logical_cursor 0) 512
      = (Ok \<lparr>dk_reader = logical_cursor p, dk_layout = MbrLayout logical_mbr, dk_mbr_volumes = [logical_partition],
           dk_sector_size = 512\<rparr>, logical_cursor p)"
    using logical_opened by blast
  then show ?thesis
    using opened_disk_is_sound [OF cursor.byte_source_axioms logical_inv, of 512 "\<lambda>_. 0" 0] by simp
qed


section \<open>GPT entries\<close>


text \<open>A disk of two sectors, whose second GPT entry crosses the boundary and ends before it starts.\<close>

definition gpt_record :: bytes where
  "gpt_record = replicate 16 1 @ replicate 16 2 @ [5, 0, 0, 0, 0, 0, 0, 0] @ [3, 0, 0, 0, 0, 0, 0, 0] @ replicate 80 0"

definition gpt_sample_header :: gpt_header where
  "gpt_sample_header = \<lparr>gh_signature = GPT_SIGNATURE, gh_revision = 0x10000, gh_header_size = 92, gh_header_crc32 = 0,
     gh_reserved = 0, gh_current_lba = 1, gh_backup_lba = 0, gh_first_usable_lba = 0, gh_last_usable_lba = 0,
     gh_disk_guid = replicate 16 0, gh_partition_entry_lba = 0, gh_num_partition_entries = 2,
     gh_partition_entry_size = 448, gh_partition_entries_crc32 = 0\<rparr>"

definition gpt_disk :: "cursor disk" where
  "gpt_disk = \<lparr>dk_reader = \<lparr>cur_bytes = replicate 448 0 @ gpt_record @ replicate 448 0, cur_pos = 0\<rparr>,
     dk_layout = GptLayout gpt_sample_header False, dk_mbr_volumes = [], dk_sector_size = 512\<rparr>"

definition gpt_sample_entry :: gpt_partition_entry where
  "gpt_sample_entry = \<lparr>type_guid = replicate 16 1, partition_guid = replicate 16 2, ge_start_lba = 5, ge_end_lba = 3,
     ge_attributes = 0, ge_name = replicate 72 0\<rparr>"

lemma gpt_sample_facts:
  "length gpt_record = 128" "cursor_inv (dk_reader gpt_disk)" "length (cur_bytes (dk_reader gpt_disk)) = 1024"
  "slice (cur_bytes (dk_reader gpt_disk)) 448 128 = gpt_record" "gpt_entry_from_bytes gpt_record = Some gpt_sample_entry"
  "dk_layout gpt_disk = GptLayout gpt_sample_header False" "dk_sector_size gpt_disk = 512"
proof -
  show len: "length gpt_record = 128" by (simp add: gpt_record_def)
  show "gpt_entry_from_bytes gpt_record = Some gpt_sample_entry"
    by (simp add: gpt_entry_from_bytes_def len) (simp add: gpt_record_def slice_def le_field_def gpt_sample_entry_def)
  show "slice (cur_bytes (dk_reader gpt_disk)) 448 128 = gpt_record" using len by (simp add: gpt_disk_def slice_def)
  show "cursor_inv (dk_reader gpt_disk)" "length (cur_bytes (dk_reader gpt_disk)) = 1024"
    using len by (simp_all add: gpt_disk_def cursor_inv_def)
qed (simp_all add: gpt_disk_def)


text \<open>
  Opening such an entry panics instead of returning an error: the size of the partition is computed
  with an unchecked subtraction.
\<close>

theorem gpt_partition_reader_panics_on_a_reversed_entry:
  "ge_end_lba gpt_sample_entry < ge_start_lba gpt_sample_entry
   \<and> fst (gpt_partition_reader cursor_source 1 gpt_disk) = Panic"
proof -
  have "\<exists>s. gpt_partition cursor_source 1 gpt_disk = (Ok gpt_sample_entry, gpt_disk\<lparr>dk_reader := s\<rparr>)"
    using cursor.gpt_partition_eq [of gpt_disk gpt_sample_header False 1]
    by (simp add: gpt_sample_facts gpt_sample_header_def) blast
  then show ?thesis
    by (auto simp: gpt_partition_reader_def gpt_sample_facts ge_is_empty_def NULL_GUID_def ge_start_offset_def mul64_def
        ge_size_bytes_def sub_or_panic_def gpt_sample_entry_def)
qed



section \<open>A FAT volume on a partition\<close>

text \<open>The extent of a resolved partition, and the reader over it.\<close>

lemma resolved_extent:
  assumes "volume_ok m p" and "mbr_wf m" and "ss \<le> 2 ^ 16"
  shows "rp_start_lba p * ss + sector_count (rp_entry p) * ss < 2 ^ 63"
proof -
  have "rp_start_lba p + sector_count (rp_entry p) < 2 ^ 34"
    using assms(1,2) by (fastforce simp: volume_ok_def inside_def mbr_wf_def split: if_splits)
  then have "(rp_start_lba p + sector_count (rp_entry p)) * ss \<le> 2 ^ 34 * 2 ^ 16" using assms(3) by (intro mult_le_mono) simp_all
  then show ?thesis by (simp add: add_mult_distrib)
qed

lemma resolved_reader:
  assumes d: "disk_ok lawful content crc32 c ss d" and m: "dk_layout d = MbrLayout m" and ss: "ss \<le> 2 ^ 16"
    and r: "resolved_mbr_partition_reader i d = (Ok r, d')"
  shows "i < length (dk_mbr_volumes d)" "partition_inv lawful pos r"
    "partition_content content r = slice c (rp_start_lba (dk_mbr_volumes d ! i) * ss)
       (sector_count (rp_entry (dk_mbr_volumes d ! i)) * ss)"
proof -
  let ?p = "dk_mbr_volumes d ! i"
  show i: "i < length (dk_mbr_volumes d)"
    using r by (auto simp: resolved_mbr_partition_reader_def resolved_mbr_partition_def split: if_splits)
  have wf: "mbr_wf m" using d m by (auto simp: disk_ok_def intro: mbr_from_bytes_wf)
  have "volume_ok m ?p" using d m i by (simp add: disk_ok_def)
  note x = resolved_extent [OF this wf ss]
  then have "r = partition_new (dk_reader d) (rp_start_lba ?p * ss) (sector_count (rp_entry ?p) * ss)"
    using r i d by (auto simp: resolved_mbr_partition_reader_def resolved_mbr_partition_def rp_size_bytes_def me_size_bytes_def
        mul64_def rp_start_offset_def saturating_mul64_def disk_ok_def)
  then show "partition_inv lawful pos r" "partition_content content r = slice c (rp_start_lba ?p * ss) (sector_count (rp_entry ?p) * ss)"
    using d x by (simp_all add: partition_inv_def disk_ok_def partition_content_def partition_new_def)
qed

text \<open>
  C33: a FAT volume on a partition of an MBR disk, primary or logical, is the FAT volume of the bytes
  of the partition's extent: mounting it through the disk and the partition reader reads its boot
  sector from there, and paths on it resolve in the directories of those bytes. The offset and the
  length of the extent are computed without overflow.
\<close>

theorem fat_volume_on_a_resolved_partition:
  assumes "byte_source src lawful pos content" and "lawful s" and "0 < ss" and "ss \<le> 2 ^ 16"
    and open_disk: "with_sector_size crc32 src s ss = (Ok d, s1)" and "dk_layout d = MbrLayout m"
    and reader: "resolved_mbr_partition_reader i d = (Ok r, d1)"
    and vol: "vol = slice (content s) (rp_start_lba (dk_mbr_volumes d ! i) * ss) (sector_count (rp_entry (dk_mbr_volumes d ! i)) * ss)"
    and mount: "fat_new (partition_source src) r = (Ok f, r1)"
  shows "fat_from_boot_sector (slice vol 0 512) = Ok f
    \<and> fst (fat_open (partition_source src) f path r1) = walk_path vol f (root_directory f) (open_path_components path)"
proof -
  have d: "disk_ok lawful content crc32 (content s) ss d"
    using byte_source.with_sector_size_ok [OF assms(1-4), of crc32] open_disk by simp
  have inv: "partition_inv lawful pos r" and c: "partition_content content r = vol"
    using resolved_reader(2,3) [OF d assms(6,4) reader] vol by simp_all
  have br: "byte_reader src lawful pos content" using assms(1) by (simp add: byte_source_def)
  note part = byte_reader.partition_byte_reader [OF br]
  have "512 \<le> length vol \<and> fat_from_boot_sector (slice vol 0 512) = Ok f \<and> partition_inv lawful pos r1
      \<and> partition_content content r1 = vol"
  proof (cases "512 \<le> length vol")
    case True
    then obtain r2 where "read_exact_from (partition_source src) r 0 512 = (Ok (slice vol 0 512), r2)"
      "partition_inv lawful pos r2" "partition_content content r2 = vol"
      using byte_reader.read_exact_from_ok [OF part inv, of 0 512] c by auto
    with mount True show ?thesis by (simp add: fat_new_def BOOT_SECTOR_SIZE_def)
  next
    case False
    then obtain r2 where "read_exact_from (partition_source src) r 0 512 = (Err UnexpectedEof, r2)"
      using byte_reader.read_exact_from_eof [OF part inv, of 0 512] c by auto
    with mount show ?thesis by (simp add: fat_new_def BOOT_SECTOR_SIZE_def)
  qed
  moreover from this have "fat_wf f" using fat_from_boot_sector_answers [of "slice vol 0 512"] by simp
  ultimately show ?thesis
    using byte_reader.fat_open_spec [OF part, of f r1 path] by auto
qed

theorem fat_volume_on_a_resolved_partition_witness:
  "\<exists>d s1 r d1 f r1. with_sector_size (\<lambda>_. 0) cursor_source (logical_cursor 0) 512 = (Ok d, s1)
     \<and> resolved_mbr_partition_reader 0 d = (Ok r, d1) \<and> fat_new (partition_source cursor_source) r = (Ok f, r1)
     \<and> fst (fat_open (partition_source cursor_source) f (map of_char ''/a.txt'') r1) = Ok (file_new floppy_fat (Some 2) False 600)"
proof -
  obtain p where o: "with_sector_size (\<lambda>_. 0) cursor_source (logical_cursor 0) 512
      = (Ok \<lparr>dk_reader = logical_cursor p, dk_layout = MbrLayout logical_mbr, dk_mbr_volumes = [logical_partition],
           dk_sector_size = 512\<rparr>, logical_cursor p)" (is "_ = (Ok ?d, _)")
    using logical_opened by blast
  let ?r = "partition_new (logical_cursor p) 1024 3584"
  have r: "resolved_mbr_partition_reader 0 ?d = (Ok ?r, ?d)"
    by (simp add: resolved_mbr_partition_reader_def resolved_mbr_partition_def logical_partition_def rp_size_bytes_def
        me_size_bytes_def table_entry_def mul64_def rp_start_offset_def saturating_mul64_def)
  have vol: "slice logical_disk 1024 3584 = floppy_bytes"
    by (simp add: logical_disk_def slice_def length_logical length_floppy)
  have inv: "partition_inv cursor_inv cur_pos ?r" "partition_content cur_bytes ?r = floppy_bytes"
    using logical_inv vol by (simp_all add: partition_inv_def partition_new_def partition_content_def logical_cursor_def)
  obtain r1 where f: "fat_new (partition_source cursor_source) ?r = (Ok floppy_fat, r1)"
    using byte_reader.read_exact_from_ok [OF cursor.partition_byte_reader inv(1), of 0 512] inv(2)
    by (auto simp: length_floppy fat_new_def BOOT_SECTOR_SIZE_def floppy_areas floppy_accepted)
  have "fst (fat_open (partition_source cursor_source) floppy_fat (map of_char ''/a.txt'') r1)
      = walk_path floppy_bytes floppy_fat (root_directory floppy_fat) (open_path_components (map of_char ''/a.txt''))"
    using fat_volume_on_a_resolved_partition [OF cursor.byte_source_axioms logical_inv _ _ o _ r refl f] vol
    by (simp add: logical_partition_def table_entry_def logical_cursor_def)
  moreover have "open_path_components (map of_char ''/a.txt'') = [map of_char ''a.txt'']"
    by (simp add: open_path_components_def)
  moreover have "lookup_entry floppy_bytes (root_directory floppy_fat) (map of_char ''a.txt'')
      = Ok (Some (floppy_entry ''A       TXT'' 0x20 2 600))"
    by (simp add: lookup_entry_def floppy_entries skip_to_def floppy_names)
  moreover have "entry_target floppy_fat (floppy_entry ''A       TXT'' 0x20 2 600) = file_new floppy_fat (Some 2) False 600"
    by (simp add: entry_target_def floppy_entry_simps)
  ultimately have "fst (fat_open (partition_source cursor_source) floppy_fat (map of_char ''/a.txt'') r1)
      = Ok (file_new floppy_fat (Some 2) False 600)"
    by (simp add: floppy_entry_simps)
  then show ?thesis using o r f by blast
qed

end
