(* ===== verification/Spec2Isabelle.thy ===== *)
theory Spec2Isabelle
  imports Sector_Reader Tolerant_Reader Lznt1_Correct Qnx6_Properties Fat_Properties Fat_Findings
    Fat_Time Detection_Properties Disk_Properties
begin

text \<open>
  This development verifies the core of \<open>fsmnt\<close>, a program that mounts disks, disk images and
  damaged media read-only through file system drivers of its own.

  \<^bold>\<open>The program.\<close> A device or image is a reader: an implementation of \<open>Read + Seek\<close>. Readers are
  stacked. A sector reader turns a device that serves whole sectors into a byte reader, a partition
  reader restricts it to one partition, a leading gap reader puts an absent head before a medium that
  begins inside its volume, and a tolerant reader replaces what cannot be read by zeros and reports
  it. \<open>Disk\<close> reads the partition table of a reader and hands out partition readers. Detection
  classifies the prefix of a volume. A driver (FAT and QNX6 here) parses the volume, through a cache
  of the last block, and serves files and directories; the tree walker of the parser core runs over
  any driver. LZNT1 is the compression NTFS applies to files.

  \<^bold>\<open>How code is modelled.\<close> Every function is a definition with the source's name where the name is
  free. A struct is a record, an enum a datatype. A computation has an \<open>outcome\<close>: \<open>Ok\<close>, \<open>Err\<close>,
  \<open>Panic\<close> or \<open>Diverge\<close>; an operation on \<open>&mut self\<close> also returns the state it leaves behind, after an
  error too. Values the source treats bitwise are words of its width. Lengths, offsets and counters
  are natural numbers, with each checked, saturating or wrapping operation written out at its width,
  and \<open>Panic\<close> where an unchecked one would overflow. Loops are recursive functions with a
  termination proof. A loop that ends only because of what the reader returns is a
  \<open>partial_function (option)\<close>, whose \<open>None\<close> is \<open>Diverge\<close>; that it ends is proved. There is no fuel
  anywhere. Log messages are left out.

  \<^bold>\<open>Interfaces.\<close> The contract of a reader is a family of locales in \<open>Byte_Source\<close>:
  \<open>sector_source\<close> (a reader with a sector size), \<open>byte_reader\<close> (any position), \<open>byte_source\<close> (which can
  also seek to its end) and \<open>faulty_source\<close> (which may fail any read,
  with any error).
  \<open>value_reader\<close> is the contract of \<open>FsReadSeek\<close>, \<open>try_iterator\<close> that of \<open>FsTryIterator\<close>, \<open>dir_tree\<close>
  that of the directory traits, \<open>lossless_codec\<close> that of a codec. Each is interpreted on the model's
  own readers, files, iterators, directories and codec. The drivers are verified against
  \<open>byte_reader\<close>, so their theorems hold on every stack of readers.

  \<^bold>\<open>Theories.\<close> Paths are those under \<open>src/crates\<close>.

    \<^item> \<open>Prelude\<close>: outcomes, slices, machine arithmetic, byte strings and words.
    \<^item> \<open>Byte_Source\<close>: \<open>Read\<close> and \<open>Seek\<close>, \<open>read_exact\<close>, the contracts, and \<open>Cursor\<close>.
    \<^item> \<open>Partition_Reader\<close>, \<open>Sector_Reader\<close>, \<open>Leading_Gap_Reader\<close>, \<open>Ranges\<close> and \<open>Tolerant_Reader\<close>:
      the files of those names in \<open>fsmnt-device/src\<close>. A partition reader and a sector reader
      serve exactly the bytes of their window, on any device that keeps its contract. A tolerant reader
      over a faulty source serves the medium's bytes and zeros, its report covers exactly the zeros it
      made up, and no error of the medium but an interrupted read, which it turns into an end of file,
      keeps it from serving the whole range.
    \<^item> \<open>Compression\<close>, \<open>Lznt1\<close>, \<open>Lznt1_Lemmas\<close>, \<open>Lznt1_Simulation\<close>, \<open>Lznt1_Correct\<close>: the LZNT1 codec of
      \<open>formats/nt-compression/src/lznt1\<close>. Decompression inverts compression and needs no more than
      \<open>compress_bound\<close> bytes; both modes of the decoder return on arbitrary input.
    \<^item> \<open>Block_Cache\<close>: \<open>fsmnt-parser-core/src/io/block_cache.rs\<close>; a cached read is a direct read.
    \<^item> \<open>Qnx6_Format\<close>, \<open>Qnx6_Fs\<close>, \<open>Qnx6_Dir\<close>: the driver \<open>formats/fs-qnx6/src\<close>. \<open>Qnx6_Volume\<close> defines
      what a volume means as functions of its bytes, without caches and overflow checks;
      \<open>Qnx6_Correct\<close>, \<open>Qnx6_Mount\<close> and \<open>Qnx6_Agreement\<close> show that the driver computes them from any
      reachable state, that mounting selects the newest valid snapshot, and that lookup and
      listing agree. \<open>Qnx6_Checks\<close>: the superblock checksum, and the detector
      \<open>fsmnt-parser-core/src/boot_sector/qnx6.rs\<close>. \<open>Qnx6_Properties\<close>: the properties and a sample volume.
    \<^item> \<open>Boot_Sector\<close>: the structures of \<open>fsmnt-parser-core/src/boot_sector/mod.rs\<close>.
    \<^item> \<open>Fat_Table\<close>, \<open>Fat_Value\<close>, \<open>Fat_Dir\<close>, \<open>Fat_Fs\<close>, \<open>Fat_Time\<close>: the driver \<open>formats/fs-fat/src\<close>, in
      the order \<open>fat.rs\<close>, \<open>value.rs\<close>, \<open>dir_entry.rs\<close>, \<open>file.rs\<close> with \<open>traverse.rs\<close>, and \<open>time.rs\<close>.
      \<open>Fat_Link\<close>, \<open>Fat_File\<close> and \<open>Fat_Listing\<close> define the link of a cluster, the content of a file and
      the entries of a directory as functions of the volume's bytes, and prove that the driver
      computes them. \<open>Fat_Total\<close>: reads return on any volume, however damaged. \<open>Fat_Lfn\<close>: long names,
      against an encoder. \<open>Fat_Properties\<close> and \<open>Fat_Sample\<close>: the properties and a sample volume.
      \<open>Fat_Findings\<close>: two inputs on which the driver does not do what it means to.
    \<^item> \<open>Value_Reader\<close>, \<open>Try_Iterator\<close>, \<open>Walk\<close>: the traits \<open>io/traits.rs\<close>, \<open>iter.rs\<close> and \<open>traverse.rs\<close> of
      \<open>fsmnt-parser-core/src\<close>. The walk ends on cyclic trees and reports each entry of each directory
      it can reach once; \<open>Fat_Walk\<close> is its instance for FAT.
    \<^item> \<open>Partition_Table\<close>: \<open>fsmnt-parser-core/src/partition.rs\<close>. \<open>Boot_Detection\<close>: \<open>detection.rs\<close>, \<open>ext.rs\<close>
      and the probes of \<open>mod.rs\<close> in \<open>fsmnt-parser-core/src/boot_sector\<close>. \<open>Device_Detection\<close>:
      \<open>detection.rs\<close> and \<open>detection\<close> in \<open>fsmnt-device/src\<close>. \<open>Detection_Properties\<close>: detection returns on
      every prefix and depends on the bytes alone; where it agrees with the FAT driver, and where not.
    \<^item> \<open>Disk\<close>, \<open>Disk_Correct\<close>, \<open>Disk_Properties\<close>: \<open>disk.rs\<close> and \<open>disk/mbr.rs\<close> in \<open>fsmnt-device/src\<close>.
      Opening a disk returns on any bytes, follows chains of extended boot records without
      revisiting one, and yields partitions backed by the table; a FAT volume in such a partition
      is the volume of the partition's bytes.

  The properties stand in the theories named \<open>..._Properties\<close> and in those of the readers, the codec,
  the checks and the dates, each numbered; the one that spans the reader stack and QNX6, from a raw
  device to the bytes of a file, is below.

  \<^bold>\<open>Parameters.\<close> The device under the reader stack is the argument \<open>src\<close>, with the contract of a
  locale as hypothesis; witnesses use \<open>Cursor\<close> and a device that refuses unaligned reads. CRC-32 of
  the package \<open>crc32fast\<close> is the argument \<open>crc32\<close> of \<open>detect_layout\<close>; the properties hold for every
  function in its place. Dates of the packages \<open>chrono\<close> and \<open>time\<close> enter as what their
  accessors return.

  \<^bold>\<open>Not modelled.\<close> The drivers for exFAT, ext, NTFS, APFS and Btrfs, BitLocker and fscrypt, the codecs
  other than LZNT1 and the EWF, VHD and VHDX images are components of their own, several with
  third-party cryptography; of these file systems only detection is modelled, and of
  \<open>boot_sector/ext.rs\<close> not the checks of group descriptors and root inodes. The platform crates
  make system calls. The mount backends (FUSE, Dokan), the proxy and the command line program are
  input and output. The SIMD routines are processor intrinsics. Strings made for display
  (GUIDs, partition names, error texts) are left out.
\<close>

text \<open>
  C17: a QNX6 volume on a partition of a raw device, mounted through the stack the program uses, a
  sector reader over a partition reader over the device, is the volume of the partition's bytes.
  Mounting returns, and a mounted driver serves the newest valid snapshot in them, with
  its invariant established. Resolving any path returns, and reading any range of a file found by its
  path gives the bytes that the volume in the partition defines for it, although the device serves
  whole sectors only.
\<close>

theorem qnx6_mounts_from_a_device_partition:
  assumes dev: "sector_source src lawful pos content ss" and dl: "lawful dev"
    and al: "ss dvd base" "ss dvd sz" and within: "base + sz \<le> length (content dev)"
    and new: "sector_new (partition_new dev base sz) sz ss = Ok r"
  shows "answers (fst (qnx6_new (sector_reader_source (partition_source src)) r)) (\<lambda>q.
      newest_snapshot (slice (content dev) base sz) q
      \<and> volume_wf (mounted_volume (slice (content dev) base sz) q)
      \<and> mounted (sector_inv (\<lambda>r. partition_inv lawful pos r \<and> ss dvd base_offset r \<and> ss dvd pr_size r)
            (partition_content content) ss)
          (sector_content (partition_content content)) (mounted_volume (slice (content dev) base sz) q) q
      \<and> (\<forall>path. returns (fst (resolve_path (sector_reader_source (partition_source src)) q path)))
      \<and> (\<forall>path inode q' offset n.
          resolve_path (sector_reader_source (partition_source src)) q path = (Ok inode, q') \<and> \<not> is_directory inode \<longrightarrow>
          fst (read_file_range (sector_reader_source (partition_source src)) q' inode offset n)
            = collect (v_byte (mounted_volume (slice (content dev) base sz) q) (in_tree inode))
                [offset ..< offset + min (unat (td_size (in_tree inode)) - offset) n]))"
proof -
  let ?stack = "sector_reader_source (partition_source src)" and ?c = "slice (content dev) base sz"
  let ?inv = "sector_inv (\<lambda>r. partition_inv lawful pos r \<and> ss dvd base_offset r \<and> ss dvd pr_size r)
    (partition_content content) ss" and ?content = "sector_content (partition_content content)"
  note stack = sector_source.sector_byte_source [OF sector_source.partition_sector_source [OF dev]]
  note reader = byte_source.axioms(1) [OF stack]
  have served: "returns (fst (resolve_path ?stack q path))
      \<and> (\<forall>inode q' offset n. resolve_path ?stack q path = (Ok inode, q') \<and> \<not> is_directory inode \<longrightarrow>
          fst (read_file_range ?stack q' inode offset n) = collect (v_byte V (in_tree inode))
                [offset ..< offset + min (unat (td_size (in_tree inode)) - offset) n])"
    if wf: "volume_wf V" and m: "mounted ?inv ?content V q" for V q path
  proof -
    obtain x q' where x: "resolve_path ?stack q path = (x, q')" "answers x (\<lambda>i. tree_wf (in_tree i))"
      "mounted ?inv ?content V q'"
      by (rule settlesE [OF byte_reader.resolve_path_settles [OF reader wf] m])
    have "fst (read_tree_range ?stack q' d offset n) = v_range V d offset n" if "tree_wf d" for d offset n
      using yieldsD [OF byte_reader.read_tree_range_yields [OF reader wf that] x(3), of offset n] by auto
    with x answers_returns [OF x(2)] show ?thesis by (auto simp: read_file_range_def v_range_def)
  qed
  have "answers (fst (qnx6_new ?stack r)) (\<lambda>q. newest_snapshot ?c q
      \<and> (\<exists>V. volume_wf V \<and> vo_bytes V = ?c \<and> mounted ?inv ?content V q))"
    using byte_source.qnx6_new_answers [OF stack partition_stack(1) [OF dev dl al within new]]
    by (simp add: partition_stack(5) [OF dev dl al within new])
  then show ?thesis
    by (rule answers_mono) (use served mounted_volume in \<open>metis (no_types, lifting)\<close>)
qed

text \<open>A device of 512-byte sectors with the sample volume in a partition that starts at its second sector.\<close>

definition demo_raw_device :: strict_device where
  "demo_raw_device =
     \<lparr>sd_inner = \<lparr>cur_bytes = replicate 512 9 @ sample_bytes, cur_pos = 0\<rparr>, sd_sector_size = 512\<rparr>"

lemma demo_raw_device_facts:
  "strict_lawful 512 demo_raw_device" "512 + 0x3800 \<le> length (strict_bytes demo_raw_device)"
  "slice (strict_bytes demo_raw_device) 512 0x3800 = sample_bytes"
  by (simp_all add: strict_lawful_def demo_raw_device_def length_sample slice_def)

theorem qnx6_mounts_from_a_device_partition_witness:
  "\<exists>r q s' q'. sector_new (partition_new demo_raw_device 512 0x3800) 0x3800 512 = Ok r
     \<and> qnx6_new (sector_reader_source (partition_source strict_source)) r = (Ok q, s')
     \<and> resolve_path (sector_reader_source (partition_source strict_source)) q [0x2F, 0x61] = (Ok sample_file, q')
     \<and> fst (read_file_range (sector_reader_source (partition_source strict_source)) q' sample_file 1 10) = Ok [2, 3]"
proof -
  let ?stack = "sector_reader_source (partition_source strict_source)"
  have "is_power_of_two 512" by (auto simp: is_power_of_two_def image_iff intro!: bexI [of _ 9])
  then obtain r where r: "sector_new (partition_new demo_raw_device 512 0x3800) 0x3800 512 = Ok r"
    by (simp add: sector_new_def)
  have dvd: "512 dvd (512 :: nat)" "512 dvd (0x3800 :: nat)" by simp_all
  note dev = strict.sector_source_axioms demo_raw_device_facts(1) dvd demo_raw_device_facts(2) r
  note stack = sector_source.sector_byte_source [OF sector_source.partition_sector_source [OF strict.sector_source_axioms]]
  obtain q s' where q: "qnx6_new ?stack r = (Ok q, s')" and m: "mounted (sector_inv (\<lambda>r. partition_inv (strict_lawful 512) strict_pos r
      \<and> 512 dvd base_offset r \<and> 512 dvd pr_size r) (partition_content strict_bytes) 512)
      (sector_content (partition_content strict_bytes)) sample_volume q"
    using byte_source.sample_mounts [OF stack partition_stack(1) [OF dev]]
      partition_stack(5) [OF dev] demo_raw_device_facts(3) by auto
  obtain q' where q': "resolve_path ?stack q [0x2F, 0x61] = (Ok sample_file, q')"
    using byte_reader.sample_resolves [OF byte_source.axioms(1) [OF stack] m] by blast
  have "mounted_volume sample_bytes q = sample_volume"
    using mounted_volume [OF m] by (simp add: sample_volume_def)
  then have "fst (read_file_range ?stack q' sample_file 1 10) = v_range sample_volume (in_tree sample_file) 1 10"
    using qnx6_mounts_from_a_device_partition [OF dev] q q' sample_file_types(2) demo_raw_device_facts(3)
    by (simp add: v_range_def)
  with sample_file_range r q q' show ?thesis by metis
qed

end
